(* ===== verification/Prelude.thy ===== *)
theory Prelude
  imports Main "HOL-Library.Word"
begin

section \<open>Shared vocabulary of the models\<close>

text \<open>
  The types and the small operations every component uses: fixed-width integers, the
  ways a C++ call can end (a value, an exception, undefined behaviour), conversions to
  \<^verbatim>\<open>int\<close>, bounded byte memory, and the rule collections of the development.
\<close>

unbundle bit_operations_syntax

type_synonym byte = "8 word"
type_synonym u16 = "16 word"
type_synonym u64 = "64 word"

named_theorems outcome_simps "equations that run the outcome of a C++ call"
named_theorems spec_simps "contracts of parameters, unfolded where a client uses them"

subsection \<open>How a C++ call ends\<close>

text \<open>
  A call returns, throws, or runs into a fault: behaviour the language leaves undefined
  (a null or dangling dereference, an access out of an object's bounds) or the
  \<^verbatim>\<open>std::terminate\<close> of an exception that leaves a \<^verbatim>\<open>noexcept\<close> function.
\<close>

datatype exn = Runtime_error string | Bad_alloc | Bad_optional_access | Unknown_exn

datatype fault = Null_deref | Dangling | Out_of_bounds | Terminate

datatype 'a outcome = Ret 'a | Thrown exn | Fault fault

fun obind :: "'a outcome \<Rightarrow> ('a \<Rightarrow> 'b outcome) \<Rightarrow> 'b outcome" where
  "obind (Ret x) f = f x"
| "obind (Thrown e) f = Thrown e"
| "obind (Fault u) f = Fault u"

lemma obind_eq_Ret [outcome_simps]:
  "obind m f = Ret y \<longleftrightarrow> (\<exists>x. m = Ret x \<and> f x = Ret y)"
  by (cases m) auto

lemma obind_assoc: "obind (obind m f) g = obind m (\<lambda>x. obind (f x) g)"
  by (cases m) auto

lemma obind_cong [fundef_cong]:
  "m = m' \<Longrightarrow> (\<And>x. m' = Ret x \<Longrightarrow> f x = f' x) \<Longrightarrow> obind m f = obind m' f'"
  by (cases m') auto

subsection \<open>Conversions to a 32-bit signed integer\<close>

definition to_int32 :: "int \<Rightarrow> int" where
  "to_int32 x = signed_take_bit 31 x"

lemma to_int32_id [simp]: "- (2 ^ 31) \<le> x \<Longrightarrow> x < 2 ^ 31 \<Longrightarrow> to_int32 x = x"
  by (simp add: to_int32_def signed_take_bit_int_eq_self)

lemma to_int32_range: "- (2 ^ 31) \<le> to_int32 x \<and> to_int32 x < 2 ^ 31"
  using signed_take_bit_int_greater_eq_minus_exp [of 31 x]
    signed_take_bit_int_less_exp [of 31 x]
  by (simp add: to_int32_def)

lemma to_int32_0 [simp]: "to_int32 0 = 0"
  by simp

subsection \<open>Bounded byte memory\<close>

text \<open>
  An object is a list of bytes. A read or a write that leaves the object is a fault, as
  it is undefined behaviour in C++.
\<close>

definition mem_write :: "nat \<Rightarrow> byte list \<Rightarrow> byte list \<Rightarrow> byte list outcome" where
  "mem_write off bs m =
     (if off + length bs \<le> length m
      then Ret (take off m @ bs @ drop (off + length bs) m)
      else Fault Out_of_bounds)"

definition mem_read :: "nat \<Rightarrow> nat \<Rightarrow> byte list \<Rightarrow> byte list outcome" where
  "mem_read off n m =
     (if off + n \<le> length m then Ret (take n (drop off m)) else Fault Out_of_bounds)"

lemma mem_write_length: "mem_write off bs m = Ret m' \<Longrightarrow> length m' = length m"
  by (auto simp: mem_write_def split: if_splits)

lemma mem_read_write_same:
  "mem_write off bs m = Ret m' \<Longrightarrow> mem_read off (length bs) m' = Ret bs"
  by (auto simp: mem_write_def mem_read_def split: if_splits)

lemma mem_read_write_before:
  assumes "mem_write off bs m = Ret m'" and "off' + n \<le> off"
  shows "mem_read off' n m' = mem_read off' n m"
proof -
  have len: "length m' = length m" using assms(1) by (rule mem_write_length)
  have fits: "off + length bs \<le> length m"
    and m': "m' = take off m @ bs @ drop (off + length bs) m"
    using assms(1) by (auto simp: mem_write_def split: if_splits)
  have "take (off' + n) m' = take (off' + n) m"
    using assms(2) fits by (simp add: m' min_def)
  then have "take n (drop off' m') = take n (drop off' m)"
    by (metis add.commute take_drop)
  then show ?thesis by (simp add: mem_read_def len)
qed

lemma mem_read_write_after:
  assumes w: "mem_write off bs m = Ret m'" and a: "off + length bs \<le> off'"
  shows "mem_read off' n m' = mem_read off' n m"
proof -
  have len: "length m' = length m" using w by (rule mem_write_length)
  have fits: "off + length bs \<le> length m"
    using w by (auto simp: mem_write_def split: if_splits)
  have "drop off' m' = drop off' m"
    using w a fits by (auto simp: mem_write_def min_def split: if_splits)
  then show ?thesis by (simp add: mem_read_def len)
qed

end
