(* ===== verification/Error_Code.thy ===== *)
theory Error_Code
  imports Prelude
begin

section \<open>Error codes, results and text helpers\<close>

text \<open>
  \<^verbatim>\<open>kkp-core/include/kkp/error_code.hpp\<close>, \<^verbatim>\<open>kkp-core/src/error_code.cpp\<close> and
  \<^verbatim>\<open>kkp-core/src/kkp-core.cpp\<close>: the error numbers of the library, the two error
  categories, the functions that build an unexpected result, the messages of the
  library's own category, and the hexadecimal dump used by the logging.
\<close>

subsection \<open>Error numbers\<close>

definition TASK_FINISH_MAGIC :: int where "TASK_FINISH_MAGIC = 0x123456ab"
definition E_TASK_FINISH :: int where "E_TASK_FINISH = 10086"
definition E_TASK_CANCEL :: int where "E_TASK_CANCEL = 10087"
definition E_TASK_TIMEOUT :: int where "E_TASK_TIMEOUT = 10088"
definition E_TASK_ERROR :: int where "E_TASK_ERROR = 10089"
definition E_SSL_HANDSHAKE_FAILED :: int where "E_SSL_HANDSHAKE_FAILED = 10090"
definition E_SSL_HANDSHAKE_SOCKET_READ_EOF :: int where
  "E_SSL_HANDSHAKE_SOCKET_READ_EOF = 10091"

lemmas error_number_defs =
  TASK_FINISH_MAGIC_def E_TASK_FINISH_def E_TASK_CANCEL_def E_TASK_TIMEOUT_def
  E_TASK_ERROR_def E_SSL_HANDSHAKE_FAILED_def E_SSL_HANDSHAKE_SOCKET_READ_EOF_def

subsection \<open>\<^verbatim>\<open>std::error_code\<close> and \<^verbatim>\<open>result\<close>\<close>

datatype error_category = System_category | Generic_category | Kkp_category

datatype error_code = Error_Code (ec_value: int) (ec_category: error_category)

type_synonym 'a result = "error_code + 'a"

definition make_sys_error :: "int \<Rightarrow> 'a result" where
  "make_sys_error code = Inl (Error_Code code System_category)"

definition make_custom_error :: "int \<Rightarrow> 'a result" where
  "make_custom_error code = Inl (Error_Code code Kkp_category)"

definition make_kkp_error :: "int \<Rightarrow> 'a result" where
  "make_kkp_error code =
     (if code \<ge> 10086 then make_custom_error code else make_sys_error code)"

lemmas make_error_defs = make_sys_error_def make_custom_error_def make_kkp_error_def

subsection \<open>Decimal text of an integer, as \<^verbatim>\<open>std::format("{}", int)\<close> prints it\<close>

definition digit_char :: "nat \<Rightarrow> char" where
  "digit_char d = char_of (48 + d)"

fun dec_nat :: "nat \<Rightarrow> string" where
  "dec_nat n = (if n < 10 then [digit_char n] else dec_nat (n div 10) @ [digit_char (n mod 10)])"

declare dec_nat.simps [simp del]

definition dec_int :: "int \<Rightarrow> string" where
  "dec_int i = (if i < 0 then CHR ''-'' # dec_nat (nat (- i)) else dec_nat (nat i))"

text \<open>Reading decimal text back: the reference inverse.\<close>

definition char_digit :: "char \<Rightarrow> nat" where
  "char_digit c = of_char c - 48"

definition read_nat :: "string \<Rightarrow> nat" where
  "read_nat s = foldl (\<lambda>n c. 10 * n + char_digit c) 0 s"

definition read_int :: "string \<Rightarrow> int" where
  "read_int s =
     (case s of c # cs \<Rightarrow> if c = CHR ''-'' then - int (read_nat cs) else int (read_nat s)
      | [] \<Rightarrow> 0)"

lemma of_char_digit_char: "d < 10 \<Longrightarrow> (of_char (digit_char d) :: nat) = 48 + d"
  by (simp add: digit_char_def)

lemma char_digit_digit_char [simp]: "d < 10 \<Longrightarrow> char_digit (digit_char d) = d"
  by (simp add: char_digit_def of_char_digit_char)

lemma read_nat_snoc: "read_nat (s @ [c]) = 10 * read_nat s + char_digit c"
  by (simp add: read_nat_def)

lemma read_dec_nat: "read_nat (dec_nat n) = n"
proof (induction n rule: dec_nat.induct)
  case (1 n)
  show ?case
  proof (cases "n < 10")
    case True
    then show ?thesis by (subst dec_nat.simps) (simp add: read_nat_def)
  next
    case False
    with "1" have "read_nat (dec_nat (n div 10)) = n div 10" by simp
    with False show ?thesis by (subst dec_nat.simps) (simp add: read_nat_snoc)
  qed
qed

lemma dec_nat_digits: "c \<in> set (dec_nat n) \<Longrightarrow> \<exists>d < 10. c = digit_char d"
proof (induction n rule: dec_nat.induct)
  case (1 n)
  show ?case
  proof (cases "n < 10")
    case True
    with "1.prems" show ?thesis by (subst (asm) dec_nat.simps) auto
  next
    case False
    with "1.prems" consider "c \<in> set (dec_nat (n div 10))" | "c = digit_char (n mod 10)"
      by (subst (asm) dec_nat.simps) auto
    then show ?thesis
    proof cases
      case 1
      then show ?thesis by (rule "1.IH" [OF False])
    next
      case 2
      then show ?thesis by (intro exI [of _ "n mod 10"]) simp
    qed
  qed
qed

lemma dec_nat_nonempty: "dec_nat n \<noteq> []"
  by (subst dec_nat.simps) simp

lemma minus_not_digit: "d < 10 \<Longrightarrow> CHR ''-'' \<noteq> digit_char d"
proof
  assume "d < 10" and "CHR ''-'' = digit_char d"
  then have "(of_char (CHR ''-'') :: nat) = 48 + d" by (simp only: of_char_digit_char)
  then show False by simp
qed

lemma read_dec_int: "read_int (dec_int i) = i"
proof (cases "i < 0")
  case True
  then show ?thesis by (simp add: dec_int_def read_int_def read_dec_nat)
next
  case False
  obtain c cs where eq: "dec_nat (nat i) = c # cs"
    using dec_nat_nonempty by (meson list.exhaust)
  then have "c \<in> set (dec_nat (nat i))" by simp
  then have "c \<noteq> CHR ''-''" using dec_nat_digits minus_not_digit by metis
  moreover have "int (read_nat (c # cs)) = i"
    using False by (simp flip: eq add: read_dec_nat)
  ultimately show ?thesis using False by (simp add: dec_int_def read_int_def eq)
qed

subsection \<open>Messages of the library's category\<close>

definition error_msg_map :: "(int \<times> string) list" where
  "error_msg_map = [(E_TASK_FINISH, ''Task finish''), (E_TASK_CANCEL, ''Task cancel'')]"

text \<open>The range-for with an early return of \<^verbatim>\<open>kkp_error_category::message\<close>.\<close>

fun find_msg :: "(int \<times> string) list \<Rightarrow> int \<Rightarrow> string" where
  "find_msg [] ev = ''Unknown error code: '' @ dec_int ev"
| "find_msg ((code, msg) # rest) ev = (if code = ev then msg else find_msg rest ev)"

definition kkp_message :: "int \<Rightarrow> string" where
  "kkp_message ev = find_msg error_msg_map ev"

definition kkp_category_name :: string where
  "kkp_category_name = ''kkp_error''"

lemma kkp_message_cases:
  "kkp_message ev =
     (if ev = 10086 then ''Task finish''
      else if ev = 10087 then ''Task cancel''
      else ''Unknown error code: '' @ dec_int ev)"
  by (simp add: kkp_message_def error_msg_map_def error_number_defs)

subsection \<open>Hexadecimal dump\<close>

text \<open>
  \<^verbatim>\<open>to_hex_string\<close> appends \<^verbatim>\<open>std::format("{:02X} ", c)\<close> for each byte: two upper-case
  digits, zero padded, and a space.
\<close>

definition hex_char :: "nat \<Rightarrow> char" where
  "hex_char d = char_of (if d < 10 then 48 + d else 55 + d)"

definition format_02X :: "byte \<Rightarrow> string" where
  "format_02X c =
     (if unat c < 16 then [CHR ''0'', hex_char (unat c)]
      else [hex_char (unat c div 16), hex_char (unat c mod 16)])"

fun hex_loop :: "string \<Rightarrow> byte list \<Rightarrow> string" where
  "hex_loop result [] = result"
| "hex_loop result (c # cs) = hex_loop (result @ (format_02X c @ '' '')) cs"

definition to_hex_string :: "byte list \<Rightarrow> string" where
  "to_hex_string str = hex_loop [] str"

text \<open>The inverse: two digits and a separator per byte.\<close>

definition hex_digit_value :: "char \<Rightarrow> nat" where
  "hex_digit_value c = (let n = of_char c in if n < 58 then n - 48 else n - 55)"

fun parse_hex :: "string \<Rightarrow> byte list" where
  "parse_hex (a # b # sep # rest) =
     word_of_nat (16 * hex_digit_value a + hex_digit_value b) # parse_hex rest"
| "parse_hex _ = []"

lemma hex_digit_value_hex_char: "d < 16 \<Longrightarrow> hex_digit_value (hex_char d) = d"
  by (simp add: hex_digit_value_def hex_char_def)

lemma unat_byte_less: "unat (c :: byte) < 256"
proof -
  have "unat c < 2 ^ LENGTH(8)" by (rule unsigned_less)
  then show ?thesis by simp
qed

lemma format_02X_eq:
  "format_02X c = [hex_char (unat c div 16), hex_char (unat c mod 16)]"
proof (cases "unat c < 16")
  case True
  have "char_of (48 :: nat) = CHR ''0''" by code_simp
  with True show ?thesis by (simp add: format_02X_def hex_char_def)
next
  case False
  then show ?thesis by (simp add: format_02X_def)
qed

lemma hex_loop_eq: "hex_loop r cs = r @ concat (map (\<lambda>c. format_02X c @ '' '') cs)"
  by (induction r cs rule: hex_loop.induct) auto

lemma to_hex_string_Cons:
  "to_hex_string (c # cs) =
     hex_char (unat c div 16) # hex_char (unat c mod 16) # CHR '' '' # to_hex_string cs"
  by (simp add: to_hex_string_def hex_loop_eq format_02X_eq)

lemma parse_to_hex_string: "parse_hex (to_hex_string cs) = cs"
proof (induction cs)
  case Nil
  then show ?case by (simp add: to_hex_string_def)
next
  case (Cons c cs)
  have "unat c div 16 < 16" using unat_byte_less [of c] by simp
  then show ?case
    using Cons by (simp add: to_hex_string_Cons hex_digit_value_hex_char)
qed

lemma length_to_hex_string: "length (to_hex_string cs) = 3 * length cs"
  by (induction cs) (simp_all add: to_hex_string_Cons, simp add: to_hex_string_def)

text \<open>Rules that print a numeral.\<close>

lemma dec_nat_digit: "n < 10 \<Longrightarrow> dec_nat n = [digit_char n]"
  by (subst dec_nat.simps) simp

lemma dec_nat_step: "10 \<le> n \<Longrightarrow> dec_nat n = dec_nat (n div 10) @ [digit_char (n mod 10)]"
  by (subst dec_nat.simps) simp

lemma digit_chars:
  "digit_char 0 = CHR ''0''" "digit_char (Suc 0) = CHR ''1''" "digit_char 1 = CHR ''1''"
  "digit_char 8 = CHR ''8''" "digit_char 9 = CHR ''9''"
  by code_simp+

subsection \<open>Properties\<close>

text \<open>
  Messages of the library's category tell error codes apart: two codes have the same
  message only if they are equal, whether the table lists them or the number is printed.
\<close>

lemma kkp_message_distinguishes: "kkp_message a = kkp_message b \<longleftrightarrow> a = b"
proof
  assume eq: "kkp_message a = kkp_message b"
  have num: "dec_int x = dec_int y \<Longrightarrow> x = y" for x y
    by (metis read_dec_int)
  from eq show "a = b"
    by (auto simp: kkp_message_cases split: if_splits dest: num)
qed simp

text \<open>
  Four of the six codes the library defines have no message: the timeout, the task
  error and both handshake errors print as unknown codes.
\<close>

lemma kkp_codes_without_message:
  "map kkp_message [E_TASK_TIMEOUT, E_TASK_ERROR, E_SSL_HANDSHAKE_FAILED,
      E_SSL_HANDSHAKE_SOCKET_READ_EOF] =
   [''Unknown error code: 10088'', ''Unknown error code: 10089'',
    ''Unknown error code: 10090'', ''Unknown error code: 10091'']"
  by (simp add: error_number_defs kkp_message_cases dec_int_def dec_nat_digit dec_nat_step digit_chars)

text \<open>
  C40: the hexadecimal dump loses nothing. Reading two digits and a separator at a time
  gives the dumped bytes back, and the dump has three characters for each byte.
\<close>

theorem hex_dump_roundtrip:
  "parse_hex (to_hex_string cs) = cs \<and> length (to_hex_string cs) = 3 * length cs"
  by (simp add: parse_to_hex_string length_to_hex_string)

end
