(* ===== verification/Coro_Flags.thy ===== *)
theory Coro_Flags
  imports Prelude
begin

section \<open>Coroutine flags\<close>

text \<open>
  \<^verbatim>\<open>kkp-core/include/kkp/coro/coro_base.hpp\<close>, namespace \<^verbatim>\<open>flag\<close>: two bits of the
  64-bit \<^verbatim>\<open>flags_\<close> word of a promise. The masks are C++ \<^verbatim>\<open>int\<close>s, so \<^verbatim>\<open>~daemon\<close> is
  sign-extended to 64 bits before the \<^verbatim>\<open>&=\<close>.
\<close>

definition daemon :: u64 where "daemon = push_bit 0 1"
definition sub_job :: u64 where "sub_job = push_bit 1 1"

definition is_daemon :: "u64 \<Rightarrow> bool" where
  "is_daemon flag \<longleftrightarrow> flag AND daemon \<noteq> 0"

definition set_daemon :: "u64 \<Rightarrow> bool \<Rightarrow> u64" where
  "set_daemon flag value = (if value then flag OR daemon else flag AND NOT daemon)"

definition is_sub_job :: "u64 \<Rightarrow> bool" where
  "is_sub_job flag \<longleftrightarrow> flag AND sub_job \<noteq> 0"

definition set_sub_job :: "u64 \<Rightarrow> bool \<Rightarrow> u64" where
  "set_sub_job flag value = (if value then flag OR sub_job else flag AND sub_job)"

lemma bit_daemon [simp]: "bit daemon n \<longleftrightarrow> n = 0"
  by (simp add: daemon_def bit_1_iff)

lemma bit_sub_job [simp]: "bit sub_job n \<longleftrightarrow> n = 1"
  unfolding sub_job_def bit_push_bit_iff bit_1_iff by auto

lemma word_nonzero_iff: "(w :: u64) \<noteq> 0 \<longleftrightarrow> (\<exists>n. bit w n)"
  by (metis bit_0_eq bit_word_eqI bot_apply bot_bool_def)

lemma is_daemon_bit: "is_daemon f \<longleftrightarrow> bit f 0"
  by (simp add: is_daemon_def word_nonzero_iff bit_and_iff)

lemma is_sub_job_bit: "is_sub_job f \<longleftrightarrow> bit f 1"
  by (simp add: is_sub_job_def word_nonzero_iff bit_and_iff)

lemma bit_set_daemon:
  "bit (set_daemon f v) n \<longleftrightarrow> (if n = 0 then v else bit f n)"
  by (auto simp: set_daemon_def bit_or_iff bit_and_iff bit_not_iff dest: bit_imp_le_length)

lemma bit_set_sub_job:
  "bit (set_sub_job f v) n \<longleftrightarrow> (if v then n = 1 \<or> bit f n else n = 1 \<and> bit f 1)"
  by (auto simp: set_sub_job_def bit_or_iff bit_and_iff)

lemma is_daemon_set_daemon [simp]: "is_daemon (set_daemon f v) = v"
  by (simp add: is_daemon_bit bit_set_daemon)

lemma is_sub_job_set_daemon [simp]: "is_sub_job (set_daemon f v) = is_sub_job f"
  by (simp add: is_sub_job_bit bit_set_daemon)

lemma is_daemon_zero [simp]: "\<not> is_daemon 0"
  by (simp add: is_daemon_bit)

text \<open>
  Clearing the \<open>sub_job\<close> flag does not clear it. \<^verbatim>\<open>set_sub_job(flag, false)\<close> masks
  with \<open>sub_job\<close> instead of its complement, so the bit keeps its value and every other
  bit, the daemon bit among them, is lost; setting the flag, and both directions of
  \<open>set_daemon\<close>, change exactly their own bit.
\<close>

lemma flag_updates:
  "is_sub_job (set_sub_job f False) = is_sub_job f \<and> \<not> is_daemon (set_sub_job f False) \<and>
   is_sub_job (set_sub_job f True) \<and> is_daemon (set_sub_job f True) = is_daemon f \<and>
   is_daemon (set_daemon f v) = v \<and> is_sub_job (set_daemon f v) = is_sub_job f \<and>
   (\<forall>n. n = 0 \<or> bit (set_daemon f v) n = bit f n)"
  by (simp add: is_sub_job_bit is_daemon_bit bit_set_sub_job bit_set_daemon)

end
