(* ===== verification/Uring.thy ===== *)
theory Uring
  imports Error_Code
begin

section \<open>io\_uring: completion cells, awaiters and the event loop\<close>

text \<open>
  \<^verbatim>\<open>kkp-core/include/kkp/uring/\<close>: \<^verbatim>\<open>io_data\<close>, the base awaiter and the eight awaiters
  built on it, and \<^verbatim>\<open>uring_loop\<close>. The ring itself is liburing and the kernel: its state
  is a type variable and its calls are the fields of \<open>uring_lib\<close>, a parameter of every
  definition here. What runs when a coroutine handle is called is a parameter too
  (\<open>invoke\<close>).

  The address of an \<^verbatim>\<open>io_data\<close> is what a submission carries and a completion brings
  back, so the cells live in an explicit store: \<open>cells\<close> maps the address of a living
  cell to its value, and an awaiter is a record that says where its cell is.
\<close>

subsection \<open>The store and the library interface\<close>

type_synonym addr = nat
type_synonym coro = nat

record io_data =
  io_handle :: "coro option"
  io_result :: int

text \<open>
  A \<^verbatim>\<open>user_data\<close> pointer: null, the address of the global \<^verbatim>\<open>io_data_completed\<close>, or the
  address of a cell.
\<close>

datatype udata = Ud_null | Ud_completed | Ud_cell addr

definition io_data_completed :: io_data where
  "io_data_completed = \<lparr>io_handle = None, io_result = TASK_FINISH_MAGIC\<rparr>"

record cqe =
  user_data :: udata
  res :: int

text \<open>The \<^verbatim>\<open>io_uring_prep_*\<close> calls, with their arguments; pointers are addresses.\<close>

datatype uring_op =
    Op_nop
  | Op_accept int addr addr int
  | Op_connect int addr nat
  | Op_link_timeout addr nat
  | Op_read int addr nat u64
  | Op_recv int addr nat int
  | Op_send int addr nat int
  | Op_timeout addr nat nat
  | Op_write int addr nat u64

record 'r uring_lib =
  get_sqe :: "'r \<Rightarrow> nat option \<times> 'r"
  sqe_set_data :: "nat \<Rightarrow> udata \<Rightarrow> 'r \<Rightarrow> 'r"
  sqe_prep :: "nat \<Rightarrow> uring_op \<Rightarrow> 'r \<Rightarrow> 'r"
  ring_submit :: "'r \<Rightarrow> int \<times> 'r"
  wait_cqe :: "cqe option \<Rightarrow> 'r \<Rightarrow> int \<times> cqe option \<times> 'r"
  cqe_seen :: "cqe \<Rightarrow> 'r \<Rightarrow> 'r"

text \<open>The world a loop runs in; the coroutines' own state is the record's extension.\<close>

record 'r uworld =
  ring :: 'r
  cells :: "addr \<rightharpoonup> io_data"

subsection \<open>\<^verbatim>\<open>base_uring_awaiter\<close>\<close>

record awaiter =
  aw_ring :: bool          \<comment> \<open>\<open>ring_ != nullptr\<close>\<close>
  aw_sqe :: "nat option"
  aw_data :: addr          \<comment> \<open>where its \<open>data_\<close> member is\<close>

definition awaiter_new ::
  "'r uring_lib \<Rightarrow> uring_op \<Rightarrow> addr \<Rightarrow> ('r, 'z) uworld_scheme \<Rightarrow>
   awaiter \<times> ('r, 'z) uworld_scheme" where
  "awaiter_new lib op this w =
     (case get_sqe lib (ring w) of
        (Some sqe, r) \<Rightarrow>
          (\<lparr>aw_ring = True, aw_sqe = Some sqe, aw_data = this\<rparr>,
           w\<lparr>ring := sqe_prep lib sqe op (sqe_set_data lib sqe (Ud_cell this) r),
             cells := (cells w)(this \<mapsto> \<lparr>io_handle = None, io_result = 0\<rparr>)\<rparr>)
      | (None, r) \<Rightarrow>
          (\<lparr>aw_ring = True, aw_sqe = None, aw_data = this\<rparr>,
           w\<lparr>ring := r,
             cells := (cells w)(this \<mapsto> \<lparr>io_handle = None, io_result = - 10086\<rparr>)\<rparr>))"

text \<open>
  The move constructor builds the new awaiter at another address. Result: the new object
  and the moved-from one.
\<close>

definition awaiter_move ::
  "addr \<Rightarrow> awaiter \<Rightarrow> ('r, 'z) uworld_scheme \<Rightarrow>
   (awaiter \<times> awaiter \<times> ('r, 'z) uworld_scheme) outcome" where
  "awaiter_move this other w =
     (case cells w (aw_data other) of
        None \<Rightarrow> Fault Dangling
      | Some d \<Rightarrow>
          Ret (\<lparr>aw_ring = aw_ring other, aw_sqe = aw_sqe other, aw_data = this\<rparr>,
               \<lparr>aw_ring = False, aw_sqe = None, aw_data = aw_data other\<rparr>,
               w\<lparr>cells := (cells w)(this \<mapsto> d, aw_data other \<mapsto> d\<lparr>io_handle := None\<rparr>)\<rparr>))"

definition await_ready :: "awaiter \<Rightarrow> bool" where
  "await_ready a \<longleftrightarrow> aw_sqe a = None"

definition await_suspend ::
  "'r uring_lib \<Rightarrow> awaiter \<Rightarrow> coro \<Rightarrow> ('r, 'z) uworld_scheme \<Rightarrow> ('r, 'z) uworld_scheme outcome"
where
  "await_suspend lib a h w =
     (case cells w (aw_data a) of
        None \<Rightarrow> Fault Dangling
      | Some d \<Rightarrow>
          if aw_ring a
          then Ret (w\<lparr>cells := (cells w)(aw_data a \<mapsto> d\<lparr>io_handle := Some h\<rparr>),
                      ring := snd (ring_submit lib (ring w))\<rparr>)
          else Fault Null_deref)"

text \<open>\<^verbatim>\<open>this->data_.result_\<close>, which every \<^verbatim>\<open>await_resume\<close> reads.\<close>

definition awaiter_result :: "awaiter \<Rightarrow> ('r, 'z) uworld_scheme \<Rightarrow> int outcome" where
  "awaiter_result a w =
     (case cells w (aw_data a) of None \<Rightarrow> Fault Dangling | Some d \<Rightarrow> Ret (io_result d))"

subsection \<open>The awaiters: what they submit, and how they read the result\<close>

definition accept_op :: "int \<Rightarrow> addr \<Rightarrow> addr \<Rightarrow> int \<Rightarrow> uring_op" where
  "accept_op fd addr addrlen flags = Op_accept fd addr addrlen flags"

definition connect_op :: "int \<Rightarrow> addr \<Rightarrow> nat \<Rightarrow> uring_op" where
  "connect_op fd addr addrlen = Op_connect fd addr addrlen"

definition link_timeout_op :: "addr \<Rightarrow> nat \<Rightarrow> uring_op" where
  "link_timeout_op ts flags = Op_link_timeout ts flags"

definition read_op :: "int \<Rightarrow> addr \<Rightarrow> nat \<Rightarrow> u64 \<Rightarrow> uring_op" where
  "read_op fd buf nbytes offset = Op_read fd buf nbytes offset"

definition recv_op :: "int \<Rightarrow> addr \<Rightarrow> nat \<Rightarrow> int \<Rightarrow> uring_op" where
  "recv_op fd buf len flags = Op_recv fd buf len flags"

definition send_op :: "int \<Rightarrow> addr \<Rightarrow> nat \<Rightarrow> int \<Rightarrow> uring_op" where
  "send_op fd buf len flags = Op_send fd buf len flags"

definition timeout_op :: "addr \<Rightarrow> nat \<Rightarrow> nat \<Rightarrow> uring_op" where
  "timeout_op ts count flags = Op_timeout ts count flags"

definition write_op :: "int \<Rightarrow> addr \<Rightarrow> nat \<Rightarrow> u64 \<Rightarrow> uring_op" where
  "write_op fd buf nbytes offset = Op_write fd buf nbytes offset"

definition ETIME :: int where "ETIME = 62"

definition accept_resume :: "int \<Rightarrow> int" where "accept_resume result = result"
definition link_timeout_resume :: "int \<Rightarrow> int" where "link_timeout_resume result = result"
definition recv_resume :: "int \<Rightarrow> int" where "recv_resume result = result"
definition send_resume :: "int \<Rightarrow> int" where "send_resume result = result"
definition write_resume :: "int \<Rightarrow> int" where "write_resume result = result"

definition connect_resume :: "int \<Rightarrow> int result" where
  "connect_resume r = (if r \<ge> 0 then Inr r else make_sys_error r)"

definition read_resume :: "int \<Rightarrow> int result" where
  "read_resume r =
     (if r \<ge> 0 then Inr r
      else if - r \<ge> 10086 then Inl (Error_Code (- r) System_category)
      else Inl (Error_Code (- r) System_category))"

definition timeout_resume :: "int \<Rightarrow> unit result" where
  "timeout_resume r =
     (if r = - ETIME then Inr () else Inl (Error_Code (- r) System_category))"

subsection \<open>\<^verbatim>\<open>uring_loop\<close>\<close>

text \<open>
  A handle that is called runs until the coroutine suspends again; an exception never
  leaves a coroutine of this library, and would end the program in a \<^verbatim>\<open>noexcept\<close>
  function. \<open>resume\<close> returns the new value of \<^verbatim>\<open>running_\<close> with the new world.
\<close>

type_synonym ('r, 'z) invoke = "coro \<Rightarrow> ('r, 'z) uworld_scheme \<Rightarrow> ('r, 'z) uworld_scheme outcome"

fun noexcept_ret :: "'a outcome \<Rightarrow> 'a outcome" where
  "noexcept_ret (Ret x) = Ret x"
| "noexcept_ret (Thrown e) = Fault Terminate"
| "noexcept_ret (Fault u) = Fault u"

definition call_cell ::
  "('r, 'z) invoke \<Rightarrow> addr \<Rightarrow> int \<Rightarrow> ('r, 'z) uworld_scheme \<Rightarrow> ('r, 'z) uworld_scheme outcome"
where
  "call_cell invoke a code w =
     (case cells w a of
        None \<Rightarrow> Fault Dangling
      | Some d \<Rightarrow>
          let w' = w\<lparr>cells := (cells w)(a \<mapsto> d\<lparr>io_result := code\<rparr>)\<rparr> in
          (case io_handle d of
             None \<Rightarrow> Fault Null_deref
           | Some h \<Rightarrow> noexcept_ret (invoke h w')))"

definition uring_resume ::
  "('r, 'z) invoke \<Rightarrow> cqe \<Rightarrow> ('r, 'z) uworld_scheme \<Rightarrow> (bool \<times> ('r, 'z) uworld_scheme) outcome"
where
  "uring_resume invoke c w =
     (case user_data c of
        Ud_null \<Rightarrow> Ret (True, w)
      | Ud_completed \<Rightarrow> Ret (False, w)
      | Ud_cell a \<Rightarrow> obind (call_cell invoke a (res c) w) (\<lambda>w'. Ret (True, w')))"

text \<open>
  \<^verbatim>\<open>resume_error\<close> writes the code into whatever the pointer designates; for the constant
  \<^verbatim>\<open>io_data_completed\<close> that is a write to a constant object followed by a call of its null
  handle.
\<close>

definition uring_resume_error ::
  "('r, 'z) invoke \<Rightarrow> int \<Rightarrow> cqe option \<Rightarrow> ('r, 'z) uworld_scheme \<Rightarrow>
   ('r, 'z) uworld_scheme outcome" where
  "uring_resume_error invoke code c w =
     (case c of
        None \<Rightarrow> Ret w
      | Some c \<Rightarrow>
          (case user_data c of
             Ud_null \<Rightarrow> Ret w
           | Ud_completed \<Rightarrow> Fault Null_deref
           | Ud_cell a \<Rightarrow> call_cell invoke a code w))"

text \<open>One turn of the loop: \<^verbatim>\<open>running_\<close>, the local \<^verbatim>\<open>cqe\<close> and the world.\<close>

definition loop_turn ::
  "'r uring_lib \<Rightarrow> ('r, 'z) invoke \<Rightarrow> cqe option \<Rightarrow> ('r, 'z) uworld_scheme \<Rightarrow>
   (bool \<times> cqe option \<times> ('r, 'z) uworld_scheme) outcome" where
  "loop_turn lib invoke c w =
     (let (e, c', r) = wait_cqe lib c (ring w); w = w\<lparr>ring := r\<rparr> in
      if e \<noteq> 0 then
        (if e = - ETIME \<and> c' \<noteq> None
         then obind (uring_resume invoke (the c') w) (\<lambda>(running, w). Ret (running, c', w))
         else obind (uring_resume_error invoke e c' w) (\<lambda>w. Ret (True, c', w)))
      else
        (case c' of
           None \<Rightarrow> Fault Null_deref
         | Some q \<Rightarrow>
             obind (uring_resume invoke q w)
               (\<lambda>(running, w). Ret (running, c', w\<lparr>ring := cqe_seen lib q (ring w)\<rparr>))))"

text \<open>
  The loop may run for ever, so \<open>run_turns\<close> takes a number of turns and is \<open>None\<close> when
  they do not suffice.
\<close>

fun run_turns ::
  "nat \<Rightarrow> 'r uring_lib \<Rightarrow> ('r, 'z) invoke \<Rightarrow> cqe option \<Rightarrow> ('r, 'z) uworld_scheme \<Rightarrow>
   ('r, 'z) uworld_scheme outcome option" where
  "run_turns 0 lib invoke c w = None"
| "run_turns (Suc n) lib invoke c w =
     (case loop_turn lib invoke c w of
        Thrown x \<Rightarrow> Some (Thrown x)
      | Fault u \<Rightarrow> Some (Fault u)
      | Ret (running, c', w') \<Rightarrow>
          if running then run_turns n lib invoke c' w' else Some (Ret w'))"

definition uring_run ::
  "nat \<Rightarrow> 'r uring_lib \<Rightarrow> ('r, 'z) invoke \<Rightarrow> ('r, 'z) uworld_scheme \<Rightarrow>
   ('r, 'z) uworld_scheme outcome option" where
  "uring_run n lib invoke w = run_turns n lib invoke None w"

subsection \<open>One await, from construction to the resumed coroutine\<close>

lemma noexcept_ret_eq_Ret [outcome_simps]: "noexcept_ret m = Ret x \<longleftrightarrow> m = Ret x"
  by (cases m) auto

lemma call_cell_Ret:
  "call_cell invoke a code w = Ret w' \<longleftrightarrow>
     (\<exists>d h. cells w a = Some d \<and> io_handle d = Some h \<and>
        invoke h (w\<lparr>cells := (cells w)(a \<mapsto> d\<lparr>io_result := code\<rparr>)\<rparr>) = Ret w')"
  by (auto simp: call_cell_def outcome_simps split: option.splits)

text \<open>The submission carries the address of the cell, and the cell holds the handle.\<close>

lemma await_new_suspend:
  assumes sqe: "get_sqe lib (ring w) = (Some sqe, r)"
    and new: "awaiter_new lib op a w = (aw, w1)"
  shows "aw = \<lparr>aw_ring = True, aw_sqe = Some sqe, aw_data = a\<rparr>"
    and "\<not> await_ready aw"
    and "ring w1 = sqe_prep lib sqe op (sqe_set_data lib sqe (Ud_cell a) r)"
    and "cells w1 a = Some \<lparr>io_handle = None, io_result = 0\<rparr>"
  using assms by (auto simp: awaiter_new_def await_ready_def)

subsection \<open>What the loop relies on\<close>

text \<open>
  The documented behaviour of the completion queue, over two observations of the ring:
  \<open>consumed\<close>, the completions marked as seen so far, and \<open>cq\<close>, the completions posted
  and not yet seen. Waiting may let the kernel post more; a successful wait returns the
  head of the queue; \<^verbatim>\<open>io_uring_cqe_seen\<close> moves the head from \<open>cq\<close> to \<open>consumed\<close>.
\<close>

definition cq_contract ::
  "'r uring_lib \<Rightarrow> ('r \<Rightarrow> cqe list) \<Rightarrow> ('r \<Rightarrow> cqe list) \<Rightarrow> bool" where
  "cq_contract lib consumed cq \<longleftrightarrow>
     (\<forall>v r e c r'. wait_cqe lib v r = (e, c, r') \<longrightarrow>
        consumed r' = consumed r \<and> (\<exists>new. cq r' = cq r @ new) \<and>
        (e = 0 \<longrightarrow> (\<exists>q qs. cq r' = q # qs \<and> c = Some q))) \<and>
     (\<forall>q qs r. cq r = q # qs \<longrightarrow>
        consumed (cqe_seen lib q r) = consumed r @ [q] \<and> cq (cqe_seen lib q r) = qs)"

text \<open>
  What a resumed coroutine may do to the ring: submit, which can only add completions.
  \<open>calls\<close> observes the handles called so far.
\<close>

definition invoke_contract ::
  "('r, 'z) invoke \<Rightarrow> ('r \<Rightarrow> cqe list) \<Rightarrow> ('r \<Rightarrow> cqe list) \<Rightarrow> ('z \<Rightarrow> coro list) \<Rightarrow> bool" where
  "invoke_contract invoke consumed cq calls \<longleftrightarrow>
     (\<forall>h w w'. invoke h w = Ret w' \<longrightarrow>
        consumed (ring w') = consumed (ring w) \<and>
        (\<exists>new. cq (ring w') = cq (ring w) @ new) \<and>
        calls (uworld.more w') = calls (uworld.more w) @ [h])"

definition no_wait_error :: "'r uring_lib \<Rightarrow> bool" where
  "no_wait_error lib \<longleftrightarrow> (\<forall>v r. fst (wait_cqe lib v r) = 0)"

fun is_cell :: "udata \<Rightarrow> bool" where
  "is_cell (Ud_cell a) = True"
| "is_cell _ = False"

lemma cq_contract_wait:
  assumes "cq_contract lib consumed cq" and "wait_cqe lib v r = (e, c, r')"
  shows "consumed r' = consumed r" and "\<exists>new. cq r' = cq r @ new"
    and "e = 0 \<Longrightarrow> \<exists>q qs. cq r' = q # qs \<and> c = Some q"
  using assms unfolding cq_contract_def by blast+

lemma cq_contract_seen:
  assumes "cq_contract lib consumed cq" and "cq r = q # qs"
  shows "consumed (cqe_seen lib q r) = consumed r @ [q]" and "cq (cqe_seen lib q r) = qs"
  using assms unfolding cq_contract_def by blast+

lemma invoke_contractD:
  assumes "invoke_contract invoke consumed cq calls" and "invoke h w = Ret w'"
  shows "consumed (ring w') = consumed (ring w)" and "\<exists>new. cq (ring w') = cq (ring w) @ new"
    and "calls (uworld.more w') = calls (uworld.more w) @ [h]"
  using assms unfolding invoke_contract_def by blast+

lemma uring_resume_effect:
  assumes inv: "invoke_contract invoke consumed cq calls"
    and res: "uring_resume invoke q w = Ret (running, w')"
  shows "running \<longleftrightarrow> user_data q \<noteq> Ud_completed"
    and "consumed (ring w') = consumed (ring w)"
    and "\<exists>new. cq (ring w') = cq (ring w) @ new"
    and "length (calls (uworld.more w')) =
         length (calls (uworld.more w)) + (if is_cell (user_data q) then 1 else 0)"
proof -
  show "running \<longleftrightarrow> user_data q \<noteq> Ud_completed"
    using res by (auto simp: uring_resume_def outcome_simps split: udata.splits)
  have "consumed (ring w') = consumed (ring w) \<and> (\<exists>new. cq (ring w') = cq (ring w) @ new) \<and>
    length (calls (uworld.more w')) =
      length (calls (uworld.more w)) + (if is_cell (user_data q) then 1 else 0)"
  proof (cases "user_data q")
    case (Ud_cell a)
    with res obtain d h where
      call: "invoke h (w\<lparr>cells := (cells w)(a \<mapsto> d\<lparr>io_result := res q\<rparr>)\<rparr>) = Ret w'"
      by (auto simp: uring_resume_def outcome_simps call_cell_Ret)
    from invoke_contractD [OF inv call] show ?thesis by (simp add: Ud_cell)
  qed (use res in \<open>auto simp: uring_resume_def\<close>)
  then show "consumed (ring w') = consumed (ring w)"
    and "\<exists>new. cq (ring w') = cq (ring w) @ new"
    and "length (calls (uworld.more w')) =
         length (calls (uworld.more w)) + (if is_cell (user_data q) then 1 else 0)"
    by auto
qed

text \<open>One turn consumes exactly the head of the queue.\<close>

lemma loop_turn_effect:
  assumes cqc: "cq_contract lib consumed cq"
    and inv: "invoke_contract invoke consumed cq calls"
    and noerr: "no_wait_error lib"
    and turn: "loop_turn lib invoke c w = Ret (running, c', w')"
  obtains q new where "running \<longleftrightarrow> user_data q \<noteq> Ud_completed"
    and "consumed (ring w') = consumed (ring w) @ [q]"
    and "consumed (ring w') @ cq (ring w') = consumed (ring w) @ cq (ring w) @ new"
    and "length (calls (uworld.more w')) =
         length (calls (uworld.more w)) + (if is_cell (user_data q) then 1 else 0)"
proof -
  obtain e c1 r where wt: "wait_cqe lib c (ring w) = (e, c1, r)"
    by (cases "wait_cqe lib c (ring w)") auto
  have e: "e = 0" using noerr wt by (metis fst_conv no_wait_error_def)
  from cq_contract_wait [OF cqc wt] e obtain q qs new1 where
    q: "cq r = q # qs" "c1 = Some q" "consumed r = consumed (ring w)" "cq r = cq (ring w) @ new1"
    by metis
  from turn wt e q(2) obtain w1 where
    res: "uring_resume invoke q (w\<lparr>ring := r\<rparr>) = Ret (running, w1)"
    and w': "w' = w1\<lparr>ring := cqe_seen lib q (ring w1)\<rparr>"
    by (auto simp: loop_turn_def outcome_simps)
  note eff = uring_resume_effect [OF inv res]
  from eff(3) q(1) obtain new2 where cq1: "cq (ring w1) = q # (qs @ new2)" by auto
  note seen = cq_contract_seen [OF cqc cq1]
  have "consumed (ring w') @ cq (ring w') = consumed (ring w) @ cq (ring w) @ new1 @ new2"
    using seen eff(2) q cq1 w' by simp
  moreover have "consumed (ring w') = consumed (ring w) @ [q]"
    using seen eff(2) q w' by simp
  ultimately show ?thesis using that [of q "new1 @ new2"] eff(1,4) w' by simp
qed

subsection \<open>The run as a whole\<close>

lemma run_turns_trace:
  assumes cqc: "cq_contract lib consumed cq"
    and inv: "invoke_contract invoke consumed cq calls"
    and noerr: "no_wait_error lib"
  shows "run_turns n lib invoke c w = Some (Ret w') \<Longrightarrow>
    \<exists>pre q new. consumed (ring w') = consumed (ring w) @ pre @ [q] \<and>
      user_data q = Ud_completed \<and> (\<forall>p \<in> set pre. user_data p \<noteq> Ud_completed) \<and>
      consumed (ring w') @ cq (ring w') = consumed (ring w) @ cq (ring w) @ new \<and>
      length (calls (uworld.more w')) = length (calls (uworld.more w)) +
        length (filter (\<lambda>p. is_cell (user_data p)) pre)"
proof (induction n arbitrary: c w)
  case 0
  then show ?case by simp
next
  case (Suc n)
  then obtain running c1 w1 where turn: "loop_turn lib invoke c w = Ret (running, c1, w1)"
    by (auto split: outcome.splits)
  obtain q new where eff: "running \<longleftrightarrow> user_data q \<noteq> Ud_completed"
      "consumed (ring w1) = consumed (ring w) @ [q]"
      "consumed (ring w1) @ cq (ring w1) = consumed (ring w) @ cq (ring w) @ new"
      "length (calls (uworld.more w1)) =
         length (calls (uworld.more w)) + (if is_cell (user_data q) then 1 else 0)"
    by (rule loop_turn_effect [OF cqc inv noerr turn])
  show ?case
  proof (cases running)
    case False
    with Suc.prems turn have "w' = w1" by simp
    with eff False show ?thesis
      by (intro exI [of _ "[]"] exI [of _ q] exI [of _ new]) auto
  next
    case True
    with Suc.prems turn have "run_turns n lib invoke c1 w1 = Some (Ret w')" by simp
    from Suc.IH [OF this] obtain pre q2 new2 where IH:
      "consumed (ring w') = consumed (ring w1) @ pre @ [q2]" "user_data q2 = Ud_completed"
      "\<forall>p \<in> set pre. user_data p \<noteq> Ud_completed"
      "consumed (ring w') @ cq (ring w') = consumed (ring w1) @ cq (ring w1) @ new2"
      "length (calls (uworld.more w')) = length (calls (uworld.more w1)) +
         length (filter (\<lambda>p. is_cell (user_data p)) pre)"
      by blast
    have "consumed (ring w') @ cq (ring w') = consumed (ring w) @ cq (ring w) @ new @ new2"
      using IH(4) eff(3) by (metis append.assoc)
    with IH eff True show ?thesis
      by (intro exI [of _ "q # pre"] exI [of _ q2] exI [of _ "new @ new2"]) auto
  qed
qed

text \<open>
  \<open>safe_from I\<close> says that as long as \<open>I\<close> holds, whatever completion is at the head of
  the queue can be dispatched (its cell is alive and holds a handle, the coroutine returns)
  and \<open>I\<close> holds again after it is marked as seen.
\<close>

definition dispatch_safe ::
  "'r uring_lib \<Rightarrow> ('r, 'z) invoke \<Rightarrow> ('r \<Rightarrow> cqe list) \<Rightarrow>
   (('r, 'z) uworld_scheme \<Rightarrow> bool) \<Rightarrow> bool" where
  "dispatch_safe lib invoke cq I \<longleftrightarrow>
     (\<forall>w v. I w \<longrightarrow> I (w\<lparr>ring := snd (snd (wait_cqe lib v (ring w)))\<rparr>)) \<and>
     (\<forall>w q qs. I w \<and> cq (ring w) = q # qs \<and> user_data q \<noteq> Ud_completed \<longrightarrow>
        (\<exists>w'. uring_resume invoke q w = Ret (True, w') \<and>
          I (w'\<lparr>ring := cqe_seen lib q (ring w')\<rparr>)))"

lemma loop_turn_head:
  assumes cqc: "cq_contract lib consumed cq"
    and inv: "invoke_contract invoke consumed cq calls"
    and noerr: "no_wait_error lib"
    and safe: "dispatch_safe lib invoke cq I"
    and I: "I w" and head: "cq (ring w) = q # qs"
  obtains (stop) c' w' where "user_data q = Ud_completed"
      "loop_turn lib invoke c w = Ret (False, c', w')"
    | (go) c' w' new where "user_data q \<noteq> Ud_completed"
      "loop_turn lib invoke c w = Ret (True, c', w')" "I w'" "cq (ring w') = qs @ new"
proof -
  obtain e c1 r where wt: "wait_cqe lib c (ring w) = (e, c1, r)"
    by (cases "wait_cqe lib c (ring w)") auto
  have e: "e = 0" using noerr wt by (metis fst_conv no_wait_error_def)
  from cq_contract_wait [OF cqc wt] e head obtain new where
    r: "cq r = q # qs @ new" "c1 = Some q" by (metis append_Cons list.inject)
  have Ir: "I (w\<lparr>ring := r\<rparr>)"
    using safe I wt unfolding dispatch_safe_def by (metis snd_conv)
  show ?thesis
  proof (cases "user_data q = Ud_completed")
    case True
    with wt e r(2) show ?thesis
      by (intro stop) (auto simp: loop_turn_def uring_resume_def)
  next
    case False
    from safe Ir r(1) False obtain w1 where
      res: "uring_resume invoke q (w\<lparr>ring := r\<rparr>) = Ret (True, w1)"
      and I1: "I (w1\<lparr>ring := cqe_seen lib q (ring w1)\<rparr>)"
      unfolding dispatch_safe_def by fastforce
    from uring_resume_effect(3) [OF inv res] r(1) obtain new2 where
      "cq (ring w1) = q # (qs @ new @ new2)" by auto
    from cq_contract_seen(2) [OF cqc this] I1 False wt e r(2) res show ?thesis
      by (intro go [where w' = "w1\<lparr>ring := cqe_seen lib q (ring w1)\<rparr>"
            and new = "new @ new2"]) (auto simp: loop_turn_def)
  qed
qed

lemma run_turns_stops:
  assumes cqc: "cq_contract lib consumed cq"
    and inv: "invoke_contract invoke consumed cq calls"
    and noerr: "no_wait_error lib"
    and safe: "dispatch_safe lib invoke cq I"
  shows "I w \<Longrightarrow> cq (ring w) = pre @ q # post \<Longrightarrow> user_data q = Ud_completed \<Longrightarrow>
    length pre < n \<Longrightarrow> \<exists>w'. run_turns n lib invoke c w = Some (Ret w')"
proof (induction pre arbitrary: w c n post)
  case Nil
  then have head: "cq (ring w) = q # post" by simp
  obtain k where n: "n = Suc k" using Nil.prems(4) by (cases n) auto
  show ?case
    by (rule loop_turn_head [OF cqc inv noerr safe Nil.prems(1) head, of c])
      (use Nil.prems(3) in \<open>auto simp: n\<close>)
next
  case (Cons p pre)
  then have head: "cq (ring w) = p # (pre @ q # post)" by simp
  obtain k where n: "n = Suc k" "length pre < k" using Cons.prems(4) by (cases n) auto
  show ?case
  proof (rule loop_turn_head [OF cqc inv noerr safe Cons.prems(1) head, of c])
    fix c' w' assume "loop_turn lib invoke c w = Ret (False, c', w')"
    then show ?thesis by (simp add: n)
  next
    fix c' w' new
    assume turn: "loop_turn lib invoke c w = Ret (True, c', w')" and I': "I w'"
      and cq': "cq (ring w') = (pre @ q # post) @ new"
    from Cons.IH [OF I' _ Cons.prems(3) n(2), of "post @ new" c'] cq'
    have "\<exists>w''. run_turns k lib invoke c' w' = Some (Ret w'')" by simp
    with turn show ?thesis by (simp add: n(1))
  qed
qed

lemma run_turns_more:
  "run_turns n lib invoke c w = Some x \<Longrightarrow> n \<le> m \<Longrightarrow> run_turns m lib invoke c w = Some x"
proof (induction n arbitrary: m c w)
  case 0
  then show ?case by simp
next
  case (Suc n)
  then obtain k where m: "m = Suc k" "n \<le> k" by (cases m) auto
  with Suc show ?case by (auto split: outcome.splits if_splits)
qed

subsection \<open>A concrete ring, for the witnesses\<close>

text \<open>
  Completions seen so far and completions posted; waiting on an empty queue sees the
  finish completion posted. A called handle is recorded in the world's extension.
\<close>

type_synonym lring = "cqe list \<times> cqe list"

definition fin_cqe :: cqe where
  "fin_cqe = \<lparr>user_data = Ud_completed, res = 0\<rparr>"

definition list_ring :: "lring uring_lib" where
  "list_ring = \<lparr>get_sqe = (\<lambda>r. (Some 0, r)), sqe_set_data = (\<lambda>s d r. r),
     sqe_prep = (\<lambda>s d r. r), ring_submit = (\<lambda>r. (1, r)),
     wait_cqe = (\<lambda>v r. (0, Some (case snd r of [] \<Rightarrow> fin_cqe | q # qs \<Rightarrow> q),
       fst r, case snd r of [] \<Rightarrow> [fin_cqe] | q # qs \<Rightarrow> q # qs)),
     cqe_seen = (\<lambda>c r. case snd r of [] \<Rightarrow> r | q # qs \<Rightarrow> (fst r @ [q], qs))\<rparr>"

definition log_call :: "(lring, coro list) invoke" where
  "log_call h w = Ret (uworld.more_update (\<lambda>l. l @ [h]) w)"

definition demo_world :: "cqe list \<Rightarrow> (lring, coro list) uworld_scheme" where
  "demo_world q = \<lparr>ring = ([], q),
     cells = [7 \<mapsto> \<lparr>io_handle = Some 5, io_result = 0\<rparr>], \<dots> = []\<rparr>"

definition cell_world :: "addr \<Rightarrow> io_data \<Rightarrow> coro list \<Rightarrow> (lring, coro list) uworld_scheme" where
  "cell_world a d l = \<lparr>ring = ([], []), cells = [a \<mapsto> d], \<dots> = l\<rparr>"

definition demo_cqe :: cqe where
  "demo_cqe = \<lparr>user_data = Ud_cell 7, res = 42\<rparr>"

lemmas demo_defs = list_ring_def log_call_def demo_world_def demo_cqe_def fin_cqe_def

lemma list_ring_contract: "cq_contract list_ring fst snd"
  unfolding cq_contract_def list_ring_def by (auto split: list.splits)

lemma log_call_contract: "invoke_contract log_call fst snd (\<lambda>z. z)"
  by (simp add: invoke_contract_def log_call_def)

lemma list_ring_no_error: "no_wait_error list_ring"
  by (simp add: no_wait_error_def list_ring_def)

subsection \<open>Properties\<close>

text \<open>
  C12: an awaiter whose submission entry was granted does not complete at once; suspending
  it submits an entry that carries the address of its cell; and the completion that brings
  that address back writes its result into the cell and calls the suspended coroutine,
  which then reads exactly the kernel's result.
\<close>

theorem await_delivers:
  assumes sqe: "get_sqe lib (ring w) = (Some sqe, r)"
    and new: "awaiter_new lib op a w = (aw, w1)"
    and susp: "await_suspend lib aw h w1 = Ret w2"
    and alive: "cells w3 a = cells w2 a"
    and comp: "user_data c = Ud_cell a"
    and w4: "w4 = w3\<lparr>cells := (cells w3)(a \<mapsto> \<lparr>io_handle = Some h, io_result = res c\<rparr>)\<rparr>"
  shows "\<not> await_ready aw \<and>
    ring w2 = snd (ring_submit lib (sqe_prep lib sqe op (sqe_set_data lib sqe (Ud_cell a) r))) \<and>
    awaiter_result aw w4 = Ret (res c) \<and>
    uring_resume invoke c w3 = obind (noexcept_ret (invoke h w4)) (\<lambda>w'. Ret (True, w'))"
proof -
  note aw = await_new_suspend [OF sqe new]
  have c2: "cells w2 a = Some \<lparr>io_handle = Some h, io_result = 0\<rparr>"
    and r2: "ring w2 = snd (ring_submit lib (ring w1))"
    using susp aw(1,4) by (auto simp: await_suspend_def)
  have "call_cell invoke a (res c) w3 = noexcept_ret (invoke h w4)"
    using c2 alive by (simp add: call_cell_def w4)
  then show ?thesis
    using aw r2 comp by (simp add: uring_resume_def awaiter_result_def w4)
qed

theorem await_delivers_witness:
  "uring_resume log_call \<lparr>user_data = Ud_cell 3, res = 9\<rparr>
     (cell_world 3 \<lparr>io_handle = Some 8, io_result = 0\<rparr> []) =
   Ret (True, cell_world 3 \<lparr>io_handle = Some 8, io_result = 9\<rparr> [8])"
proof -
  let ?w = "\<lparr>ring = ([], []), cells = Map.empty, \<dots> = []\<rparr> :: (lring, coro list) uworld_scheme"
  have new: "awaiter_new list_ring Op_nop 3 ?w =
      (\<lparr>aw_ring = True, aw_sqe = Some 0, aw_data = 3\<rparr>,
       cell_world 3 \<lparr>io_handle = None, io_result = 0\<rparr> [])"
    and susp: "await_suspend list_ring \<lparr>aw_ring = True, aw_sqe = Some 0, aw_data = 3\<rparr> 8
      (cell_world 3 \<lparr>io_handle = None, io_result = 0\<rparr> []) =
      Ret (cell_world 3 \<lparr>io_handle = Some 8, io_result = 0\<rparr> [])"
    by (simp_all add: list_ring_def cell_world_def awaiter_new_def await_suspend_def)
  have "get_sqe list_ring (ring ?w) = (Some 0, ([], []))" by (simp add: list_ring_def)
  from await_delivers [OF this new susp refl, of "\<lparr>user_data = Ud_cell 3, res = 9\<rparr>"
      "cell_world 3 \<lparr>io_handle = Some 8, io_result = 9\<rparr> []" log_call]
  show ?thesis by (simp add: cell_world_def log_call_def)
qed

text \<open>
  C11: when the loop returns, the completions it consumed are, in the order the kernel
  posted them and each once, some that are not the finish mark and then the finish mark
  itself; every I/O completion among them called exactly one coroutine; and nothing the
  kernel posted was lost: what was consumed followed by what is still queued extends the
  posted sequence.
\<close>

theorem loop_consumes_in_order:
  assumes "cq_contract lib consumed cq" and "invoke_contract invoke consumed cq calls"
    and "no_wait_error lib"
    and "uring_run n lib invoke w = Some (Ret w')"
  shows "\<exists>pre q new. consumed (ring w') = consumed (ring w) @ pre @ [q] \<and>
      user_data q = Ud_completed \<and> \<not> (\<exists>p \<in> set pre. user_data p = Ud_completed) \<and>
      consumed (ring w') @ cq (ring w') = consumed (ring w) @ cq (ring w) @ new \<and>
      length (calls (uworld.more w')) = length (calls (uworld.more w)) +
        length (filter (\<lambda>p. is_cell (user_data p)) pre)"
  using run_turns_trace [OF assms(1-3)] assms(4) by (fastforce simp: uring_run_def)

theorem loop_consumes_in_order_witness:
  "\<exists>pre q new. [demo_cqe, fin_cqe] = pre @ [q] \<and>
      user_data q = Ud_completed \<and> \<not> (\<exists>p \<in> set pre. user_data p = Ud_completed) \<and>
      [demo_cqe, fin_cqe, demo_cqe] = [demo_cqe, fin_cqe, demo_cqe] @ new \<and>
      length [5 :: coro] = length (filter (\<lambda>p. is_cell (user_data p)) pre)"
proof -
  have "uring_run 2 list_ring log_call (demo_world [demo_cqe, fin_cqe, demo_cqe]) =
    Some (Ret \<lparr>ring = ([demo_cqe, fin_cqe], [demo_cqe]),
      cells = [7 \<mapsto> \<lparr>io_handle = Some 5, io_result = 42\<rparr>], \<dots> = [5]\<rparr>)"
    by (simp add: uring_run_def numeral_2_eq_2 loop_turn_def uring_resume_def call_cell_def
        demo_defs)
  from loop_consumes_in_order [OF list_ring_contract log_call_contract list_ring_no_error this]
  show ?thesis by (simp add: demo_world_def)
qed

text \<open>
  C10: the loop returns. If a finish completion is in the queue and everything before it
  can be dispatched, one turn for each completion up to and including it is enough, and
  any larger number of turns gives the same result.
\<close>

theorem loop_stops_at_finish:
  assumes "cq_contract lib consumed cq" and "invoke_contract invoke consumed cq calls"
    and "no_wait_error lib" and "dispatch_safe lib invoke cq I" and "I w"
    and "cq (ring w) = pre @ q # post" and "user_data q = Ud_completed"
  shows "\<exists>w'. \<forall>k. uring_run (Suc (length pre + k)) lib invoke w = Some (Ret w')"
proof -
  from run_turns_stops [OF assms, of "Suc (length pre)" None] obtain w' where
    "run_turns (Suc (length pre)) lib invoke None w = Some (Ret w')" by auto
  from run_turns_more [OF this]
  have "\<forall>k. uring_run (Suc (length pre + k)) lib invoke w = Some (Ret w')"
    by (simp add: uring_run_def del: run_turns.simps)
  then show ?thesis ..
qed

definition demo_safe :: "(lring, coro list) uworld_scheme \<Rightarrow> bool" where
  "demo_safe w \<longleftrightarrow> (\<exists>r. cells w = [7 \<mapsto> \<lparr>io_handle = Some 5, io_result = r\<rparr>]) \<and>
     set (snd (ring w)) \<subseteq> {demo_cqe, fin_cqe}"

lemma demo_safe_dispatch: "dispatch_safe list_ring log_call snd demo_safe"
  unfolding dispatch_safe_def
proof (intro conjI allI impI)
  fix w :: "(lring, coro list) uworld_scheme" and v
  assume "demo_safe w"
  then show "demo_safe (w\<lparr>ring := snd (snd (wait_cqe list_ring v (ring w)))\<rparr>)"
    by (auto simp: demo_safe_def list_ring_def split: list.splits)
next
  fix w :: "(lring, coro list) uworld_scheme" and q qs
  assume a: "demo_safe w \<and> snd (ring w) = q # qs \<and> user_data q \<noteq> Ud_completed"
  then have q: "q = demo_cqe" by (auto simp: demo_safe_def fin_cqe_def)
  with a show "\<exists>w'. uring_resume log_call q w = Ret (True, w') \<and>
      demo_safe (w'\<lparr>ring := cqe_seen list_ring q (ring w')\<rparr>)"
    by (auto simp: uring_resume_def call_cell_def log_call_def demo_cqe_def demo_safe_def
        list_ring_def)
qed

theorem loop_stops_at_finish_witness:
  "\<exists>w'. \<forall>k. uring_run (Suc (length [demo_cqe, demo_cqe] + k)) list_ring log_call
     (demo_world [demo_cqe, demo_cqe, fin_cqe]) = Some (Ret w')"
  by (rule loop_stops_at_finish [OF list_ring_contract log_call_contract list_ring_no_error
        demo_safe_dispatch, of _ _ fin_cqe "[]"])
    (auto simp: demo_safe_def demo_world_def fin_cqe_def)



text \<open>
  When the submission queue is full, the awaiter submits nothing and is ready at once,
  so the coroutine does not suspend; every awaiter then reads \<open>-10086\<close>, which \<^verbatim>\<open>connect\<close>
  reports as the system error \<open>-10086\<close> and \<^verbatim>\<open>read\<close> and \<^verbatim>\<open>timeout\<close> as the system error
  \<open>10086\<close>: the number of \<^verbatim>\<open>E_TASK_FINISH\<close>, but never in the library's own category.
\<close>

lemma full_queue_reports_system_error:
  assumes "get_sqe lib (ring w) = (None, r)" and "awaiter_new lib op a w = (aw, w')"
  shows "await_ready aw \<and> ring w' = r \<and>
    (\<exists>x. awaiter_result aw w' = Ret x \<and>
       connect_resume x = Inl (Error_Code (- E_TASK_FINISH) System_category) \<and>
       read_resume x = Inl (Error_Code E_TASK_FINISH System_category) \<and>
       timeout_resume x = Inl (Error_Code E_TASK_FINISH System_category) \<and>
       recv_resume x < 0 \<and> send_resume x < 0 \<and> accept_resume x < 0 \<and> write_resume x < 0)"
  using assms
  by (intro conjI exI [of _ "- 10086"])
    (auto simp: awaiter_new_def await_ready_def awaiter_result_def connect_resume_def
      read_resume_def timeout_resume_def make_sys_error_def error_number_defs ETIME_def
      recv_resume_def send_resume_def accept_resume_def write_resume_def)

definition full_ring :: "lring uring_lib" where
  "full_ring = list_ring\<lparr>get_sqe := (\<lambda>r. (None, r))\<rparr>"

lemma full_queue_reports_system_error_example:
  "\<exists>x. awaiter_result \<lparr>aw_ring = True, aw_sqe = None, aw_data = 3\<rparr>
       (cell_world 3 \<lparr>io_handle = None, io_result = - 10086\<rparr> []) = Ret x \<and>
     read_resume x = Inl (Error_Code 10086 System_category)"
proof -
  let ?w = "\<lparr>ring = ([], []), cells = Map.empty, \<dots> = []\<rparr> :: (lring, coro list) uworld_scheme"
  have full: "get_sqe full_ring (ring ?w) = (None, ([], []))" by (simp add: full_ring_def)
  have "awaiter_new full_ring Op_nop 3 ?w =
      (\<lparr>aw_ring = True, aw_sqe = None, aw_data = 3\<rparr>,
       cell_world 3 \<lparr>io_handle = None, io_result = - 10086\<rparr> [])"
    by (simp add: full_ring_def cell_world_def awaiter_new_def)
  from full_queue_reports_system_error [OF full this] show ?thesis
    by (auto simp: error_number_defs)
qed


definition etime_ring :: "lring uring_lib" where
  "etime_ring = list_ring\<lparr>wait_cqe := (\<lambda>v r.
     (if v = None then - ETIME else 0,
      Some (case snd r of [] \<Rightarrow> fin_cqe | q # qs \<Rightarrow> q),
      fst r, case snd r of [] \<Rightarrow> [fin_cqe] | q # qs \<Rightarrow> q # qs))\<rparr>"

lemma etime_ring_contract: "cq_contract etime_ring fst snd"
  unfolding cq_contract_def etime_ring_def list_ring_def by (auto split: list.splits)


end
