(* ===== verification/Ownership.thy ===== *)
theory Ownership
  imports Prelude "HOL-Library.Multiset"
begin

section \<open>Unique ownership of a resource\<close>

text \<open>
  Several classes of the library are move-only owners of one resource that their
  destructor releases: \<^verbatim>\<open>coro::task\<close> (a coroutine frame), \<^verbatim>\<open>net::socket\<close>,
  \<^verbatim>\<open>net::server_socket\<close> and \<^verbatim>\<open>fs::file\<close> (a file descriptor). They share one contract,
  stated here once as the locale \<open>unique_owner\<close>: a move transfers the resource and
  empties the source, a move assignment releases what the target held, the destructor
  releases what the object holds. From the contract follows, for every sequence of these
  operations over any number of objects, that no resource is released twice and none is
  lost. Each class interprets the locale in its own theory.
\<close>

subsection \<open>Objects in their slots, and the operations on them\<close>

text \<open>
  A slot holds a living object or nothing. \<open>Move_construct i\<close> builds a new object from
  slot \<open>i\<close> in a new slot, \<open>Move_assign i j\<close> assigns slot \<open>j\<close> to slot \<open>i\<close> (the
  classes test \<^verbatim>\<open>this != &other\<close>, so nothing happens for \<open>i = j\<close>), \<open>Destroy i\<close> ends
  the life of the object in slot \<open>i\<close>. An operation on a slot without an object does
  nothing. The second component lists the release calls in the order they are made.
\<close>

datatype own_op = Move_construct nat | Move_assign nat nat | Destroy nat

definition slot :: "'h option list \<Rightarrow> nat \<Rightarrow> 'h option" where
  "slot pool i = (if i < length pool then pool ! i else None)"

fun pool_step ::
  "('h \<Rightarrow> 'h \<times> 'h) \<Rightarrow> ('h \<Rightarrow> 'h \<Rightarrow> 'h \<times> 'h \<times> 'r list) \<Rightarrow> ('h \<Rightarrow> 'r list) \<Rightarrow>
   own_op \<Rightarrow> 'h option list \<times> 'r list \<Rightarrow> 'h option list \<times> 'r list" where
  "pool_step mv asg drp (Move_construct i) (pool, rel) =
     (case slot pool i of None \<Rightarrow> (pool, rel)
      | Some h \<Rightarrow> let (fresh, old) = mv h in (pool[i := Some old] @ [Some fresh], rel))"
| "pool_step mv asg drp (Move_assign i j) (pool, rel) =
     (case (slot pool i, slot pool j) of
        (Some d, Some s) \<Rightarrow>
          (if i = j then (pool, rel)
           else let (d', s', r) = asg d s in (pool[i := Some d', j := Some s'], rel @ r))
      | _ \<Rightarrow> (pool, rel))"
| "pool_step mv asg drp (Destroy i) (pool, rel) =
     (case slot pool i of None \<Rightarrow> (pool, rel)
      | Some h \<Rightarrow> (pool[i := None], rel @ drp h))"

fun pool_run ::
  "('h \<Rightarrow> 'h \<times> 'h) \<Rightarrow> ('h \<Rightarrow> 'h \<Rightarrow> 'h \<times> 'h \<times> 'r list) \<Rightarrow> ('h \<Rightarrow> 'r list) \<Rightarrow>
   own_op list \<Rightarrow> 'h option list \<times> 'r list \<Rightarrow> 'h option list \<times> 'r list" where
  "pool_run mv asg drp [] st = st"
| "pool_run mv asg drp (x # xs) st = pool_run mv asg drp xs (pool_step mv asg drp x st)"

text \<open>What the living objects hold together.\<close>

definition held :: "('h \<Rightarrow> 'r list) \<Rightarrow> 'h option list \<Rightarrow> 'r multiset" where
  "held own pool = (\<Sum>x\<leftarrow>pool. case x of None \<Rightarrow> {#} | Some h \<Rightarrow> mset (own h))"

lemma held_append: "held own (p @ q) = held own p + held own q"
  by (simp add: held_def)

lemma held_single [simp]: "held own [Some h] = mset (own h)"
  by (simp add: held_def)

lemma held_Nil [simp]: "held own [] = {#}"
  by (simp add: held_def)

lemma held_Cons:
  "held own (x # p) = (case x of None \<Rightarrow> {#} | Some h \<Rightarrow> mset (own h)) + held own p"
  by (simp add: held_def)

lemma held_update:
  assumes "slot pool i = Some h"
  shows "held own (pool[i := x]) + mset (own h) =
         held own pool + (case x of None \<Rightarrow> {#} | Some g \<Rightarrow> mset (own g))"
  using assms
proof (induction pool arbitrary: i)
  case Nil
  then show ?case by (simp add: slot_def)
next
  case (Cons y pool)
  show ?case
  proof (cases i)
    case 0
    with Cons.prems show ?thesis by (simp add: slot_def held_Cons)
  next
    case (Suc k)
    with Cons.prems have "slot pool k = Some h" by (simp add: slot_def split: if_splits)
    from Cons.IH [OF this] show ?thesis by (simp add: Suc held_Cons ac_simps)
  qed
qed

lemma slot_update_other: "i \<noteq> j \<Longrightarrow> slot (pool[i := x]) j = slot pool j"
  by (simp add: slot_def)

lemma mset_exchange:
  fixes A :: "'a multiset"
  assumes "A + s = B" and "B + d = P + s"
  shows "A + d = P"
proof (rule multiset_eqI)
  fix x
  have "count A x + count s x = count B x" using assms(1) by (metis count_union)
  moreover have "count B x + count d x = count P x + count s x"
    using assms(2) by (metis count_union)
  ultimately show "count (A + d) x = count P x" by simp
qed

lemma distinct_if_count_le_1:
  assumes "\<And>r. count (mset xs) r \<le> 1"
  shows "distinct xs"
  using assms
proof (induction xs)
  case Nil
  then show ?case by simp
next
  case (Cons x xs)
  have "count (mset xs) r \<le> 1" for r
  proof -
    have "count (mset xs) r \<le> count (mset (x # xs)) r" by simp
    also have "\<dots> \<le> 1" by (rule Cons.prems)
    finally show ?thesis .
  qed
  moreover have "x \<notin> set xs"
  proof
    assume "x \<in> set xs"
    then have "1 \<le> count (mset xs) x" by (simp add: Suc_le_eq)
    with Cons.prems [of x] show False by simp
  qed
  ultimately show ?case using Cons.IH by simp
qed

subsection \<open>The contract and what follows from it\<close>

locale unique_owner =
  fixes valid :: "'r \<Rightarrow> bool"
    and owned :: "'h \<Rightarrow> 'r list"
    and move_from :: "'h \<Rightarrow> 'h \<times> 'h"
    and move_assign :: "'h \<Rightarrow> 'h \<Rightarrow> 'h \<times> 'h \<times> 'r list"
    and release :: "'h \<Rightarrow> 'r list"
  assumes move_fresh: "owned (fst (move_from h)) = owned h"
    and move_source: "owned (snd (move_from h)) = []"
    and assign_target: "owned (fst (move_assign d s)) = owned s"
    and assign_source: "owned (fst (snd (move_assign d s))) = []"
    and assign_releases: "mset (filter valid (snd (snd (move_assign d s)))) = mset (owned d)"
    and release_owned: "mset (filter valid (release h)) = mset (owned h)"
begin

lemma step_conserves:
  assumes step: "pool_step move_from move_assign release x (pool, rel) = (pool', rel')"
  shows "held owned pool' + mset (filter valid rel') = held owned pool + mset (filter valid rel)"
proof (cases x)
  case (Move_construct i)
  show ?thesis
  proof (cases "slot pool i")
    case None
    with step Move_construct show ?thesis by auto
  next
    case (Some h)
    obtain f old where mv: "move_from h = (f, old)" by (cases "move_from h")
    have "mset (owned f) = mset (owned h)" "owned old = []"
      using move_fresh [of h] move_source [of h] mv by auto
    with step Move_construct Some mv held_update [OF Some, of owned "Some old"]
    show ?thesis by (auto simp: held_append)
  qed
next
  case (Move_assign i j)
  show ?thesis
  proof (cases "i = j \<or> slot pool i = None \<or> slot pool j = None")
    case True
    with step Move_assign show ?thesis by (auto split: option.splits)
  next
    case False
    then obtain d s where ds: "slot pool i = Some d" "slot pool j = Some s" "i \<noteq> j" by auto
    obtain d' s' r where asg: "move_assign d s = (d', s', r)" by (cases "move_assign d s") auto
    have own: "owned d' = owned s" "owned s' = []" "mset (filter valid r) = mset (owned d)"
      using assign_target [of d s] assign_source [of d s] assign_releases [of d s] asg by auto
    have "slot (pool[i := Some d']) j = Some s" using ds by (simp add: slot_update_other)
    from held_update [OF this, of owned "Some s'"]
    have "held owned (pool[i := Some d', j := Some s']) + mset (owned s) =
          held owned (pool[i := Some d'])" using own by simp
    moreover have "held owned (pool[i := Some d']) + mset (owned d) =
          held owned pool + mset (owned s)"
      using held_update [OF ds(1), of owned "Some d'"] own by simp
    ultimately
    have "held owned (pool[i := Some d', j := Some s']) + mset (owned d) = held owned pool"
      by (rule mset_exchange)
    moreover have "pool' = pool[i := Some d', j := Some s']" "rel' = rel @ r"
      using step Move_assign ds asg by auto
    ultimately show ?thesis using own(3) by (simp add: ac_simps)
  qed
next
  case (Destroy i)
  show ?thesis
  proof (cases "slot pool i")
    case None
    with step Destroy show ?thesis by auto
  next
    case (Some h)
    then have st: "pool' = pool[i := None]" "rel' = rel @ release h"
      using step Destroy by auto
    have "held owned (pool[i := None]) + mset (owned h) = held owned pool"
      using held_update [OF Some, of owned None] by simp
    then show ?thesis
      using release_owned [of h] by (simp add: st ac_simps)
  qed
qed

lemma run_conserves:
  "pool_run move_from move_assign release xs (pool, rel) = (pool', rel') \<Longrightarrow>
   held owned pool' + mset (filter valid rel') = held owned pool + mset (filter valid rel)"
proof (induction xs arbitrary: pool rel)
  case Nil
  then show ?case by simp
next
  case (Cons x xs)
  obtain p r where st: "pool_step move_from move_assign release x (pool, rel) = (p, r)"
    by (cases "pool_step move_from move_assign release x (pool, rel)")
  with Cons.prems have "pool_run move_from move_assign release xs (p, r) = (pool', rel')"
    by simp
  with Cons.IH step_conserves [OF st] show ?case by metis
qed

text \<open>
  Objects that start out with distinct resources: whatever is done with them, a resource
  is released at most once, and none that a living object holds has been released.
\<close>

lemma never_released_twice:
  assumes run: "pool_run move_from move_assign release xs (pool, []) = (pool', rel)"
    and dist: "\<forall>r. count (held owned pool) r \<le> 1"
  shows "distinct (filter valid rel) \<and> (\<forall>r \<in># held owned pool'. r \<notin> set (filter valid rel))"
proof -
  have eq: "held owned pool' + mset (filter valid rel) = held owned pool"
    using run_conserves [OF run] by simp
  have le: "count (held owned pool') r + count (mset (filter valid rel)) r \<le> 1" for r
    using dist eq by (metis count_union)
  have "count (mset (filter valid rel)) r \<le> 1" for r using le [of r] by simp
  then have "distinct (filter valid rel)"
    by (rule distinct_if_count_le_1)
  moreover have "r \<notin> set (filter valid rel)" if "r \<in># held owned pool'" for r
  proof
    assume "r \<in> set (filter valid rel)"
    then have "r \<in># mset (filter valid rel)" by (simp only: set_mset_mset)
    then have "0 < count (mset (filter valid rel)) r" by (simp only: count_greater_zero_iff)
    moreover have "0 < count (held owned pool') r"
      using that by (simp only: count_greater_zero_iff)
    ultimately show False using le [of r] by linarith
  qed
  ultimately show ?thesis by blast
qed

text \<open>When every object is dead, exactly the initial resources have been released.\<close>

lemma all_released:
  assumes run: "pool_run move_from move_assign release xs (pool, []) = (pool', rel)"
    and dead: "\<forall>x \<in> set pool'. x = None"
  shows "mset (filter valid rel) = held owned pool"
proof -
  have "held owned pool' = {#}" using dead by (induction pool') (auto simp: held_Cons)
  with run_conserves [OF run] show ?thesis by simp
qed

end

text \<open>Classes that release only valid resources: the filter can be left out.\<close>

lemma pool_step_released:
  assumes asg: "\<And>d s. filter valid (snd (snd (asg d s))) = snd (snd (asg d s))"
    and drp: "\<And>h. filter valid (drp h) = drp h"
    and step: "pool_step mv asg drp x (pool, rel) = (pool', rel')"
    and rel: "filter valid rel = rel"
  shows "filter valid rel' = rel'"
proof (cases x)
  case (Move_assign i j)
  show ?thesis
  proof (cases "slot pool i")
    case None
    with Move_assign step rel show ?thesis by auto
  next
    case (Some d)
    then show ?thesis
    proof (cases "slot pool j")
      case None
      with Move_assign step rel Some show ?thesis by auto
    next
      case (Some s)
      obtain d' s' r where "asg d s = (d', s', r)" by (cases "asg d s") auto
      with Move_assign step rel Some \<open>slot pool i = Some d\<close> asg [of d s]
      show ?thesis by (auto split: if_splits)
    qed
  qed
qed (use step rel drp in \<open>auto split: option.splits prod.splits\<close>)

lemma pool_run_released:
  assumes asg: "\<And>d s. filter valid (snd (snd (asg d s))) = snd (snd (asg d s))"
    and drp: "\<And>h. filter valid (drp h) = drp h"
    and run: "pool_run mv asg drp xs (pool, []) = (pool', rel)"
  shows "filter valid rel = rel"
proof -
  have "filter valid rel0 = rel0 \<Longrightarrow> pool_run mv asg drp xs (pool, rel0) = (pool', rel) \<Longrightarrow>
      filter valid rel = rel" for rel0
  proof (induction xs arbitrary: pool rel0)
    case (Cons x xs)
    obtain p r where st: "pool_step mv asg drp x (pool, rel0) = (p, r)"
      by (cases "pool_step mv asg drp x (pool, rel0)")
    with Cons pool_step_released [OF asg drp st] show ?case by simp
  qed simp
  from this [of "[]"] run show ?thesis by simp
qed

end
