(* ===== verification/Coro_Task.thy ===== *)
theory Coro_Task
  imports Uring Coro_Flags Ownership
begin

section \<open>Coroutine tasks\<close>

text \<open>
  \<^verbatim>\<open>kkp-core/include/kkp/coro/task.hpp\<close>, \<^verbatim>\<open>kkp-core/src/coro/task.cpp\<close> and
  \<^verbatim>\<open>io_context::finish\<close>: the promise a coroutine frame holds, the move-only \<^verbatim>\<open>task\<close> that
  owns a frame, awaiting a task, and what happens when a coroutine reaches its final
  suspend point. Frames live in an explicit store; a handle is the address of a frame. The
  store, and the address of the one \<^verbatim>\<open>io_context\<close> of the world, extend the world of the
  event loop. Logging is left out.
\<close>

subsection \<open>Frames\<close>

text \<open>
  \<open>base_task_promise\<close> with the value of \<open>task_promise<T>\<close>; for \<^verbatim>\<open>task<void>\<close> the
  value type is \<open>unit\<close> and \<open>pvalue \<noteq> None\<close> is \<^verbatim>\<open>has_value_\<close>. \<open>at_end\<close> is
  \<^verbatim>\<open>handle.done()\<close>: the coroutine is suspended at its final suspend point.
\<close>

record 'v promise =
  caller :: "coro option"
  ex :: "exn option"
  context_ptr :: "addr option"
  flags :: u64
  pvalue :: "'v option"

record 'v frame =
  promise :: "'v promise"
  at_end :: bool

definition new_promise :: "'v promise" where
  "new_promise = \<lparr>caller = None, ex = None, context_ptr = None, flags = 0, pvalue = None\<rparr>"

record ('r, 'v) tworld = "'r uworld" +
  frames :: "coro \<rightharpoonup> 'v frame"
  this_ctx :: addr

definition with_frame ::
  "coro \<Rightarrow> ('r, 'v, 'z) tworld_scheme \<Rightarrow> ('v frame \<Rightarrow> 'a outcome) \<Rightarrow> 'a outcome" where
  "with_frame h w k = (case frames w h of None \<Rightarrow> Fault Dangling | Some f \<Rightarrow> k f)"

definition put_promise ::
  "coro \<Rightarrow> 'v frame \<Rightarrow> 'v promise \<Rightarrow> ('r, 'v, 'z) tworld_scheme \<Rightarrow> ('r, 'v, 'z) tworld_scheme"
where
  "put_promise h f p w = w\<lparr>frames := (frames w)(h \<mapsto> f\<lparr>promise := p\<rparr>)\<rparr>"

text \<open>
  The promise's \<^verbatim>\<open>operator new\<close> and \<^verbatim>\<open>operator delete\<close> report to the log and use the global
  ones: \<open>mem\<close> is what the global one gives, nothing for an allocation that fails.
\<close>

definition promise_allocate :: "coro option \<Rightarrow> coro outcome" where
  [simp]: "promise_allocate mem = (case mem of None \<Rightarrow> Thrown Bad_alloc | Some h \<Rightarrow> Ret h)"

definition promise_free ::
  "coro \<Rightarrow> ('r, 'v, 'z) tworld_scheme \<Rightarrow> ('r, 'v, 'z) tworld_scheme" where
  [simp]: "promise_free h w = w\<lparr>frames := (frames w)(h := None)\<rparr>"

text \<open>\<^verbatim>\<open>coroutine_handle::destroy\<close>.\<close>

definition destroy_frame ::
  "coro \<Rightarrow> ('r, 'v, 'z) tworld_scheme \<Rightarrow> ('r, 'v, 'z) tworld_scheme outcome" where
  "destroy_frame h w = with_frame h w (\<lambda>f. Ret (promise_free h w))"

subsection \<open>The move-only owner\<close>

record task =
  t_handle :: "coro option"

definition task_of :: "coro option \<Rightarrow> task" where
  [simp]: "task_of h = \<lparr>t_handle = h\<rparr>"

definition get_return_object :: "coro \<Rightarrow> task" where
  [simp]: "get_return_object h = task_of (Some h)"

text \<open>
  Calling a coroutine function: \<^verbatim>\<open>operator new\<close> gives the frame's address or fails, the
  promise is built, and \<^verbatim>\<open>get_return_object\<close> makes the task.
\<close>

definition task_new ::
  "coro option \<Rightarrow> ('r, 'v, 'z) tworld_scheme \<Rightarrow> (task \<times> ('r, 'v, 'z) tworld_scheme) outcome"
where
  "task_new mem w =
     obind (promise_allocate mem) (\<lambda>h.
       Ret (get_return_object h,
            w\<lparr>frames := (frames w)(h \<mapsto> \<lparr>promise = new_promise, at_end = False\<rparr>)\<rparr>))"

definition task_move :: "task \<Rightarrow> task \<times> task" where
  "task_move other = (\<lparr>t_handle = t_handle other\<rparr>, other\<lparr>t_handle := None\<rparr>)"

text \<open>
  Move assignment from another object and the destructor; the third component lists the
  frames \<^verbatim>\<open>destroy()\<close> is called on.
\<close>

definition task_assign :: "task \<Rightarrow> task \<Rightarrow> task \<times> task \<times> coro list" where
  "task_assign this other =
     (this\<lparr>t_handle := t_handle other\<rparr>, other\<lparr>t_handle := None\<rparr>,
      (case t_handle this of None \<Rightarrow> [] | Some h \<Rightarrow> [h]))"

definition task_drop :: "task \<Rightarrow> coro list" where
  "task_drop t = (case t_handle t of None \<Rightarrow> [] | Some h \<Rightarrow> [h])"

definition task_handle :: "task \<Rightarrow> coro option" where
  [simp]: "task_handle t = t_handle t"

definition task_take_handle :: "task \<Rightarrow> coro option \<times> task" where
  "task_take_handle t = (t_handle t, t\<lparr>t_handle := None\<rparr>)"

text \<open>The setters dereference the handle.\<close>

definition with_promise ::
  "task \<Rightarrow> ('r, 'v, 'z) tworld_scheme \<Rightarrow> ('v promise \<Rightarrow> 'v promise) \<Rightarrow>
   ('r, 'v, 'z) tworld_scheme outcome" where
  "with_promise t w g =
     (case t_handle t of
        None \<Rightarrow> Fault Null_deref
      | Some h \<Rightarrow> with_frame h w (\<lambda>f. Ret (put_promise h f (g (promise f)) w)))"

definition task_set_context ::
  "task \<Rightarrow> addr option \<Rightarrow> ('r, 'v, 'z) tworld_scheme \<Rightarrow> ('r, 'v, 'z) tworld_scheme outcome" where
  "task_set_context t c w = with_promise t w (\<lambda>p. p\<lparr>context_ptr := c\<rparr>)"

definition task_set_daemon ::
  "task \<Rightarrow> bool \<Rightarrow> ('r, 'v, 'z) tworld_scheme \<Rightarrow> ('r, 'v, 'z) tworld_scheme outcome" where
  "task_set_daemon t b w = with_promise t w (\<lambda>p. p\<lparr>flags := set_daemon (flags p) b\<rparr>)"

definition task_set_sub_job ::
  "task \<Rightarrow> bool \<Rightarrow> ('r, 'v, 'z) tworld_scheme \<Rightarrow> ('r, 'v, 'z) tworld_scheme outcome" where
  "task_set_sub_job t b w = with_promise t w (\<lambda>p. p\<lparr>flags := set_sub_job (flags p) b\<rparr>)"

subsection \<open>Results\<close>

definition check_error :: "'v promise \<Rightarrow> unit outcome" where
  "check_error p = (case ex p of Some e \<Rightarrow> Thrown e | None \<Rightarrow> Ret ())"

definition get_value :: "'v promise \<Rightarrow> 'v outcome" where
  "get_value p =
     obind (check_error p)
       (\<lambda>_. case pvalue p of Some v \<Rightarrow> Ret v | None \<Rightarrow> Thrown Bad_optional_access)"

definition get_value_void :: "unit promise \<Rightarrow> unit outcome" where
  "get_value_void p = check_error p"

definition has_value :: "'v promise \<Rightarrow> bool" where
  "has_value p \<longleftrightarrow> pvalue p \<noteq> None"

definition has_value_void :: "unit promise \<Rightarrow> bool" where
  "has_value_void p \<longleftrightarrow> pvalue p = Some ()"

definition return_value :: "'v \<Rightarrow> 'v promise \<Rightarrow> 'v promise" where
  [simp]: "return_value v p = p\<lparr>pvalue := Some v\<rparr>"

definition return_void :: "unit promise \<Rightarrow> unit promise" where
  [simp]: "return_void p = p\<lparr>pvalue := Some ()\<rparr>"

definition unhandled_exception :: "exn \<Rightarrow> 'v promise \<Rightarrow> 'v promise" where
  [simp]: "unhandled_exception e p = p\<lparr>ex := Some e\<rparr>"

lemma void_promise:
  "return_void p = return_value () p" "get_value_void (return_void p) = check_error p"
  "has_value_void (return_void p)" "has_value (return_value v q)"
  "ex p = None \<Longrightarrow> pvalue p = Some () \<Longrightarrow> get_value_void p = get_value p"
  by (simp_all add: get_value_void_def has_value_void_def has_value_def get_value_def check_error_def)

subsection \<open>Awaiting a task\<close>

text \<open>
  \<^verbatim>\<open>await_transform\<close> of an rvalue takes the handle out of the task, of an lvalue leaves
  it: the awaiter's callee, and the task afterwards.
\<close>

definition await_transform_rvalue :: "task \<Rightarrow> coro option \<times> task" where
  "await_transform_rvalue t = task_take_handle t"

definition await_transform_lvalue :: "task \<Rightarrow> coro option \<times> task" where
  "await_transform_lvalue t = (task_handle t, t)"

definition task_await_ready ::
  "coro option \<Rightarrow> ('r, 'v, 'z) tworld_scheme \<Rightarrow> bool outcome" where
  "task_await_ready callee w =
     (case callee of None \<Rightarrow> Ret True | Some h \<Rightarrow> with_frame h w (\<lambda>f. Ret (at_end f)))"

text \<open>Symmetric transfer: the coroutine to run next, or none.\<close>

datatype transfer = Resume coro | Noop_coroutine

definition task_await_suspend ::
  "coro option \<Rightarrow> coro \<Rightarrow> ('r, 'v, 'z) tworld_scheme \<Rightarrow>
   (transfer \<times> ('r, 'v, 'z) tworld_scheme) outcome" where
  "task_await_suspend callee caller_h w =
     (case callee of
        None \<Rightarrow> Fault Null_deref
      | Some h \<Rightarrow>
          with_frame h w (\<lambda>f. with_frame caller_h w (\<lambda>g.
            let p = (promise f)\<lparr>caller := Some caller_h, context_ptr := context_ptr (promise g)\<rparr>
            in Ret (if is_daemon (flags (promise f)) then Noop_coroutine else Resume h,
                    put_promise h f p w))))"

definition task_await_resume ::
  "coro option \<Rightarrow> ('r, 'v, 'z) tworld_scheme \<Rightarrow> 'v outcome" where
  "task_await_resume callee w =
     (case callee of
        None \<Rightarrow> Fault Null_deref
      | Some h \<Rightarrow> with_frame h w (\<lambda>f. get_value (promise f)))"

text \<open>\<^verbatim>\<open>co_await this_context\<close> never suspends and gives the promise's context.\<close>

definition context_await ::
  "coro \<Rightarrow> ('r, 'v, 'z) tworld_scheme \<Rightarrow> addr option outcome" where
  "context_await h w = with_frame h w (\<lambda>f. Ret (context_ptr (promise f)))"

subsection \<open>Completion\<close>

text \<open>
  \<^verbatim>\<open>io_context::finish\<close> submits a no-op whose user data is the address of
  \<^verbatim>\<open>io_data_completed\<close>; the entry is dereferenced without a test.
\<close>

definition io_context_finish ::
  "'r uring_lib \<Rightarrow> ('r, 'z) uworld_scheme \<Rightarrow> ('r, 'z) uworld_scheme outcome" where
  "io_context_finish lib w =
     (case get_sqe lib (ring w) of
        (None, r) \<Rightarrow> Fault Null_deref
      | (Some sqe, r) \<Rightarrow>
          Ret (w\<lparr>ring := snd (ring_submit lib
                 (sqe_prep lib sqe Op_nop (sqe_set_data lib sqe Ud_completed r)))\<rparr>))"

definition task_finish ::
  "'r uring_lib \<Rightarrow> addr option \<Rightarrow> ('r, 'v, 'z) tworld_scheme \<Rightarrow>
   ('r, 'v, 'z) tworld_scheme outcome" where
  "task_finish lib c w =
     (case c of
        None \<Rightarrow> Ret w
      | Some a \<Rightarrow> if a = this_ctx w then io_context_finish lib w else Fault Dangling)"

text \<open>
  \<^verbatim>\<open>final_task_awaiter::await_suspend\<close>: a caller is resumed; without one the exception is
  only logged, a daemon's frame stays, and any other task finishes its context and
  destroys its own frame.
\<close>

definition final_await_suspend ::
  "'r uring_lib \<Rightarrow> coro \<Rightarrow> ('r, 'v, 'z) tworld_scheme \<Rightarrow>
   (transfer \<times> ('r, 'v, 'z) tworld_scheme) outcome" where
  "final_await_suspend lib callee w =
     with_frame callee w (\<lambda>f.
       case caller (promise f) of
         Some c \<Rightarrow> Ret (Resume c, w)
       | None \<Rightarrow>
           if is_daemon (flags (promise f)) then Ret (Noop_coroutine, w)
           else obind (task_finish lib (context_ptr (promise f)) w) (\<lambda>w1.
                obind (destroy_frame callee w1) (\<lambda>w2. Ret (Noop_coroutine, w2))))"

text \<open>
  The body ends with a value (\<^verbatim>\<open>return_value\<close>, \<^verbatim>\<open>return_void\<close>) or with an exception
  (\<^verbatim>\<open>unhandled_exception\<close>); then the final suspend point is reached.
\<close>

definition task_complete ::
  "'r uring_lib \<Rightarrow> coro \<Rightarrow> exn + 'v \<Rightarrow> ('r, 'v, 'z) tworld_scheme \<Rightarrow>
   (transfer \<times> ('r, 'v, 'z) tworld_scheme) outcome" where
  "task_complete lib h r w =
     with_frame h w (\<lambda>f.
       let p = (case r of Inl e \<Rightarrow> unhandled_exception e (promise f)
                        | Inr v \<Rightarrow> return_value v (promise f))
       in final_await_suspend lib h
            (w\<lparr>frames := (frames w)(h \<mapsto> \<lparr>promise = p, at_end = True\<rparr>)\<rparr>))"

lemma with_frame_Ret [outcome_simps]:
  "with_frame h w k = Ret x \<longleftrightarrow> (\<exists>f. frames w h = Some f \<and> k f = Ret x)"
  by (auto simp: with_frame_def split: option.splits)

lemma with_frame_Some [simp]: "frames w h = Some f \<Longrightarrow> with_frame h w k = k f"
  by (simp add: with_frame_def)

lemma frames_put_promise [simp]:
  "frames (put_promise h f p w) = (frames w)(h \<mapsto> f\<lparr>promise := p\<rparr>)"
  by (simp add: put_promise_def)

lemma ring_put_promise [simp]: "ring (put_promise h f p w) = ring w"
  by (simp add: put_promise_def)

subsection \<open>Tasks own their frames uniquely\<close>

definition task_owned :: "task \<Rightarrow> coro list" where
  "task_owned t = (case t_handle t of None \<Rightarrow> [] | Some h \<Rightarrow> [h])"

interpretation task_owner: unique_owner "\<lambda>_. True" task_owned task_move task_assign task_drop
  by unfold_locales
    (simp_all add: task_owned_def task_move_def task_assign_def task_drop_def)

lemma root_complete_eq:
  assumes f: "frames w t = Some f" "caller (promise f) = None" "\<not> is_daemon (flags (promise f))"
      "context_ptr (promise f) = Some (this_ctx w)"
    and sqe: "get_sqe lib (ring w) = (Some sqe, r1)"
  shows "task_complete lib t r w = Ret (Noop_coroutine,
    w\<lparr>frames := (frames w)(t := None),
      ring := snd (ring_submit lib
        (sqe_prep lib sqe Op_nop (sqe_set_data lib sqe Ud_completed r1)))\<rparr>)"
  using assms
  by (cases r) (auto simp: task_complete_def final_await_suspend_def task_finish_def
      io_context_finish_def destroy_frame_def Let_def)

subsection \<open>Properties\<close>

text \<open>
  C22: however the objects of type \<^verbatim>\<open>task\<close> are move-constructed, move-assigned and
  destroyed, no coroutine frame is destroyed twice, no living task holds a destroyed frame,
  and once every task is dead exactly the frames they held at the start were destroyed.
\<close>

theorem task_frames_destroyed_once:
  assumes run: "pool_run task_move task_assign task_drop ops (pool, []) = (pool', rel)"
    and dist: "\<And>h. count (held task_owned pool) h \<le> 1"
  shows "distinct rel \<and> set_mset (held task_owned pool') \<inter> set rel = {} \<and>
    (set pool' \<subseteq> {None} \<longrightarrow> mset rel = held task_owned pool)"
proof -
  have d: "\<forall>h. count (held task_owned pool) h \<le> 1" using dist by simp
  from task_owner.never_released_twice [OF run d] task_owner.all_released [OF run]
  show ?thesis by auto
qed

theorem task_frames_destroyed_once_witness:
  "pool_run task_move task_assign task_drop
     [Move_construct 0, Move_assign 1 2, Destroy 1, Destroy 0, Destroy 2]
     ([Some \<lparr>t_handle = Some 4\<rparr>, Some \<lparr>t_handle = Some 9\<rparr>], []) = ([None, None, None], [9, 4]) \<and>
   distinct [9, 4 :: coro]"
proof -
  have run: "pool_run task_move task_assign task_drop
     [Move_construct 0, Move_assign 1 2, Destroy 1, Destroy 0, Destroy 2]
     ([Some \<lparr>t_handle = Some 4\<rparr>, Some \<lparr>t_handle = Some 9\<rparr>], []) = ([None, None, None], [9, 4])"
    by (simp add: slot_def task_move_def task_assign_def task_drop_def)
  from task_frames_destroyed_once [OF this] run show ?thesis
    by (simp add: held_Cons task_owned_def)
qed

text \<open>
  Awaiting a task hands its outcome to the awaiting coroutine. A lazy task runs next
  (a task already started as a daemon keeps running), it inherits the caller's context,
  and when its body ends the caller is resumed and \<^verbatim>\<open>co_await\<close> gives the value, or
  rethrows the exception that left the body; nothing is submitted to the ring.
\<close>

lemma awaited_task_outcome:
  assumes f: "frames w t = Some f" and fresh: "ex (promise f) = None"
    and susp: "task_await_suspend (Some t) c w = Ret (tr, w1)"
    and keep: "frames w2 t = frames w1 t"
    and compl: "task_complete lib t r w2 = Ret (tr2, w3)"
  shows "tr = (if is_daemon (flags (promise f)) then Noop_coroutine else Resume t) \<and>
    context_await t w1 = context_await c w \<and>
    tr2 = Resume c \<and> ring w3 = ring w2 \<and> task_await_ready (Some t) w3 = Ret True \<and>
    task_await_resume (Some t) w3 = (case r of Inl e \<Rightarrow> Thrown e | Inr v \<Rightarrow> Ret v)"
proof -
  from susp f obtain g where g: "frames w c = Some g"
    and tr: "tr = (if is_daemon (flags (promise f)) then Noop_coroutine else Resume t)"
    and w1: "frames w1 t = Some (f\<lparr>promise := (promise f)\<lparr>caller := Some c,
               context_ptr := context_ptr (promise g)\<rparr>\<rparr>)"
    by (auto simp: task_await_suspend_def Let_def outcome_simps)
  from compl keep w1 fresh show ?thesis
    by (auto simp: g tr task_complete_def final_await_suspend_def Let_def context_await_def
        task_await_ready_def task_await_resume_def get_value_def check_error_def
        split: sum.splits)
qed

definition demo_promise :: "nat promise" where
  "demo_promise = new_promise\<lparr>context_ptr := Some 1\<rparr>"

definition demo_tworld :: "(lring, nat) tworld" where
  "demo_tworld = \<lparr>ring = ([], []), cells = Map.empty,
     frames = [1 \<mapsto> \<lparr>promise = demo_promise, at_end = False\<rparr>,
               2 \<mapsto> \<lparr>promise = new_promise, at_end = False\<rparr>],
     this_ctx = 1\<rparr>"

definition demo_awaited :: "(lring, nat) tworld" where
  "demo_awaited = demo_tworld\<lparr>frames := (frames demo_tworld)
     (2 \<mapsto> \<lparr>promise = demo_promise\<lparr>caller := Some 1\<rparr>, at_end = False\<rparr>)\<rparr>"

definition demo_completed :: "exn + nat \<Rightarrow> (lring, nat) tworld" where
  "demo_completed r = demo_tworld\<lparr>frames := (frames demo_tworld)
     (2 \<mapsto> \<lparr>promise = (case r of Inl e \<Rightarrow> demo_promise\<lparr>caller := Some 1, ex := Some e\<rparr>
          | Inr v \<Rightarrow> demo_promise\<lparr>caller := Some 1, pvalue := Some v\<rparr>), at_end = True\<rparr>)\<rparr>"

lemma demo_await: "task_await_suspend (Some 2) 1 demo_tworld = Ret (Resume 2, demo_awaited)"
  by (simp add: task_await_suspend_def demo_tworld_def demo_awaited_def demo_promise_def
      new_promise_def put_promise_def)

lemma demo_complete:
  "task_complete list_ring 2 r demo_awaited = Ret (Resume 1, demo_completed r)"
  by (cases r) (simp_all add: task_complete_def final_await_suspend_def demo_awaited_def
      demo_tworld_def demo_completed_def demo_promise_def new_promise_def Let_def)

lemma awaited_task_outcome_example:
  "task_await_resume (Some 2) (demo_completed (Inl (Runtime_error ''x''))) =
     Thrown (Runtime_error ''x'') \<and>
   task_await_resume (Some 2) (demo_completed (Inr 22)) = Ret 22"
proof -
  have f: "frames demo_tworld 2 = Some \<lparr>promise = new_promise, at_end = False\<rparr>"
    by (simp add: demo_tworld_def)
  have fresh: "ex (promise \<lparr>promise = new_promise :: nat promise, at_end = False\<rparr>) = None"
    by (simp add: new_promise_def)
  note awaited_task_outcome [OF f fresh demo_await refl demo_complete]
  from this [of "Inl (Runtime_error ''x'')"] this [of "Inr 22"] show ?thesis by simp
qed

text \<open>
  The frame of a task awaited as an rvalue (\<^verbatim>\<open>co_await f()\<close>) is never destroyed. The
  await takes the handle out of the task, so the task's destructor releases nothing; the
  awaiter has no destructor; and a task with a caller does not destroy itself at its final
  suspend point: after it completed, its frame is still there and done.
\<close>

lemma awaited_rvalue_frame_leaks:
  assumes take: "await_transform_rvalue tk = (Some t, tk')"
    and susp: "task_await_suspend (Some t) c w = Ret (tr, w1)"
    and keep: "frames w2 t = frames w1 t"
    and compl: "task_complete lib t r w2 = Ret (tr2, w3)"
  shows "task_drop tk = [t] \<and> task_drop tk' = [] \<and>
    (\<exists>f. frames w3 t = Some f \<and> at_end f) \<and> dom (frames w3) = dom (frames w2)"
proof -
  from susp obtain f where "frames w1 t = Some f" and "caller (promise f) = Some c"
    by (auto simp: task_await_suspend_def Let_def outcome_simps)
  with compl keep take show ?thesis
    by (auto simp: task_complete_def final_await_suspend_def Let_def task_drop_def
        await_transform_rvalue_def task_take_handle_def split: sum.splits if_splits)
qed

lemma awaited_rvalue_frame_leaks_example:
  "task_drop \<lparr>t_handle = None\<rparr> = [] \<and> (\<exists>f. frames (demo_completed (Inr 22)) 2 = Some f \<and> at_end f)"
  using awaited_rvalue_frame_leaks [OF _ demo_await refl demo_complete,
      of "\<lparr>t_handle = Some 2\<rparr>" "\<lparr>t_handle = None\<rparr>" "Inr 22"]
  by (simp add: await_transform_rvalue_def task_take_handle_def)

text \<open>
  A root task (no caller, not a daemon) that completes, with a value or with an
  exception alike, submits one no-op that carries the finish mark to its context's ring,
  destroys its own frame and no other, and resumes nothing; a failed root task is not
  reported to anyone.
\<close>

lemma root_task_completion:
  assumes f: "frames w t = Some f" "caller (promise f) = None" "\<not> is_daemon (flags (promise f))"
      "context_ptr (promise f) = Some (this_ctx w)"
    and sqe: "get_sqe lib (ring w) = (Some sqe, r1)"
  shows "task_complete lib t r w = Ret (Noop_coroutine,
    w\<lparr>frames := (frames w)(t := None),
      ring := snd (ring_submit lib
        (sqe_prep lib sqe Op_nop (sqe_set_data lib sqe Ud_completed r1)))\<rparr>)"
  using assms by (rule root_complete_eq)

lemma root_task_completion_example:
  "task_complete list_ring 1 (Inl Unknown_exn) demo_tworld =
     Ret (Noop_coroutine, demo_tworld\<lparr>frames := (frames demo_tworld)(1 := None), ring := ([], [])\<rparr>)"
  using root_task_completion [of demo_tworld 1 "\<lparr>promise = demo_promise, at_end = False\<rparr>"
      list_ring 0 "([], [])" "Inl Unknown_exn"]
  by (simp add: demo_tworld_def demo_promise_def new_promise_def list_ring_def)

text \<open>
  A daemon task that completes without having been awaited leaves the world as it is
  but for its own frame, which stays allocated: no finish mark, no destruction. It is the
  owner returned by \<^verbatim>\<open>launch\<close> that must destroy it.
\<close>

lemma daemon_completion_keeps_frame:
  assumes f: "frames w t = Some f" "caller (promise f) = None" "is_daemon (flags (promise f))"
    and compl: "task_complete lib t r w = Ret (tr, w')"
  shows "tr = Noop_coroutine \<and> ring w' = ring w \<and> cells w' = cells w \<and>
    (\<exists>g. frames w' = (frames w)(t \<mapsto> g) \<and> at_end g \<and>
       (case r of Inl e \<Rightarrow> ex (promise g) = Some e | Inr v \<Rightarrow> pvalue (promise g) = Some v))"
  using assms
  by (auto simp: task_complete_def final_await_suspend_def Let_def split: sum.splits)

lemma daemon_completion_keeps_frame_example:
  "\<exists>w'. task_complete list_ring 1 (Inr 3) (demo_tworld\<lparr>frames :=
       [1 \<mapsto> \<lparr>promise = demo_promise\<lparr>flags := 1\<rparr>, at_end = False\<rparr>]\<rparr>) = Ret (Noop_coroutine, w') \<and>
     1 \<in> dom (frames w')"
proof -
  let ?f = "\<lparr>promise = demo_promise\<lparr>flags := 1\<rparr>, at_end = False\<rparr>"
  let ?w = "demo_tworld\<lparr>frames := [1 \<mapsto> ?f]\<rparr>"
  have f: "frames ?w 1 = Some ?f" and nc: "caller (promise ?f) = None"
    and d: "is_daemon (flags (promise ?f))"
    by (simp_all add: demo_promise_def new_promise_def is_daemon_bit)
  obtain tr w' where r: "task_complete list_ring 1 (Inr 3) ?w = Ret (tr, w')"
    using d by (simp add: task_complete_def final_await_suspend_def demo_promise_def new_promise_def)
  from daemon_completion_keeps_frame [OF f nc d r] r show ?thesis by auto
qed

end
