(* ===== verification/Io_Context.thy ===== *)
theory Io_Context
  imports Coro_Task
begin

section \<open>The I/O context\<close>

text \<open>
  \<^verbatim>\<open>kkp-core/include/kkp/io_context.hpp\<close>: starting a root task and running the loop until
  it finishes (\<^verbatim>\<open>block_run\<close>), and starting daemon tasks (\<^verbatim>\<open>launch\<close>, \<^verbatim>\<open>launch_detached\<close>).
  Calling a handle is the parameter \<open>invoke\<close>, as in the loop. \<^verbatim>\<open>io_context::finish\<close> is in
  \<open>Coro_Task\<close>, whose final suspend point calls it.
\<close>

text \<open>
  The constructor: \<open>queue_init\<close> is \<^verbatim>\<open>io_uring_queue_init\<close>, whose result is not looked at, so a ring
  that could not be made is used all the same. \<open>at\<close> is the address of the context.
\<close>

definition io_context_new ::
  "(nat \<Rightarrow> 'r \<Rightarrow> int \<times> 'r) \<Rightarrow> 'r \<Rightarrow> addr \<Rightarrow> ('r, 'v) tworld" where
  "io_context_new queue_init r at =
     (let (ret, r') = queue_init 1024 r in
      \<lparr>ring = r', cells = Map.empty, frames = Map.empty, this_ctx = at\<rparr>)"

definition io_context_ring :: "('r, 'v, 'z) tworld_scheme \<Rightarrow> 'r" where
  "io_context_ring w = ring w"

text \<open>The two lines the three functions begin with.\<close>

definition task_setup ::
  "task \<Rightarrow> bool \<Rightarrow> ('r, 'v, 'z) tworld_scheme \<Rightarrow> ('r, 'v, 'z) tworld_scheme outcome" where
  "task_setup tk d w =
     obind (task_set_context tk (Some (this_ctx w)) w) (task_set_daemon tk d)"

text \<open>\<^verbatim>\<open>take_handle()()\<close>: the moved-from task and the world after the call.\<close>

definition start_task ::
  "(coro \<Rightarrow> ('r, 'v, 'z) tworld_scheme \<Rightarrow> ('r, 'v, 'z) tworld_scheme outcome) \<Rightarrow> task \<Rightarrow>
   ('r, 'v, 'z) tworld_scheme \<Rightarrow> (coro \<times> task \<times> ('r, 'v, 'z) tworld_scheme) outcome" where
  "start_task invoke tk w =
     (case task_take_handle tk of
        (None, tk') \<Rightarrow> Fault Null_deref
      | (Some h, tk') \<Rightarrow> obind (invoke h w) (\<lambda>w'. Ret (h, tk', w')))"

definition block_run ::
  "nat \<Rightarrow> 'r uring_lib \<Rightarrow>
   (coro \<Rightarrow> ('r, 'v, 'z) tworld_scheme \<Rightarrow> ('r, 'v, 'z) tworld_scheme outcome) \<Rightarrow> task \<Rightarrow>
   ('r, 'v, 'z) tworld_scheme \<Rightarrow> ('r, 'v, 'z) tworld_scheme outcome option" where
  "block_run n lib invoke tk w =
     (case obind (task_setup tk False w) (start_task invoke tk) of
        Thrown e \<Rightarrow> Some (Thrown e)
      | Fault u \<Rightarrow> Some (Fault u)
      | Ret (h, tk', w') \<Rightarrow> uring_run n lib invoke w')"

text \<open>The result task is a new owner of the frame.\<close>

definition launch ::
  "(coro \<Rightarrow> ('r, 'v, 'z) tworld_scheme \<Rightarrow> ('r, 'v, 'z) tworld_scheme outcome) \<Rightarrow> task \<Rightarrow>
   ('r, 'v, 'z) tworld_scheme \<Rightarrow> (task \<times> task \<times> ('r, 'v, 'z) tworld_scheme) outcome" where
  "launch invoke tk w =
     obind (obind (task_setup tk True w) (start_task invoke tk))
       (\<lambda>(h, tk', w'). Ret (\<lparr>t_handle = Some h\<rparr>, tk', w'))"

definition launch_detached ::
  "(coro \<Rightarrow> ('r, 'v, 'z) tworld_scheme \<Rightarrow> ('r, 'v, 'z) tworld_scheme outcome) \<Rightarrow> task \<Rightarrow>
   ('r, 'v, 'z) tworld_scheme \<Rightarrow> (task \<times> ('r, 'v, 'z) tworld_scheme) outcome" where
  "launch_detached invoke tk w =
     obind (obind (task_setup tk True w) (start_task invoke tk)) (\<lambda>(h, tk', w'). Ret (tk', w'))"

subsection \<open>What the setup writes\<close>

definition setup_promise :: "addr \<Rightarrow> bool \<Rightarrow> 'v promise \<Rightarrow> 'v promise" where
  "setup_promise c d p = p\<lparr>context_ptr := Some c, flags := set_daemon (flags p) d\<rparr>"

lemma task_setup_eq:
  assumes "t_handle tk = Some t" and "frames w t = Some f"
  shows "task_setup tk d w = Ret (put_promise t f (setup_promise (this_ctx w) d (promise f)) w)"
  using assms
  by (simp add: task_setup_def task_set_context_def task_set_daemon_def with_promise_def
      setup_promise_def put_promise_def)

lemma start_task_eq:
  "t_handle tk = Some t \<Longrightarrow>
   start_task invoke tk w = obind (invoke t w) (\<lambda>w'. Ret (t, tk\<lparr>t_handle := None\<rparr>, w'))"
  by (simp add: start_task_def task_take_handle_def)

lemma setup_promise_simps [simp]:
  "caller (setup_promise c d p) = caller p" "ex (setup_promise c d p) = ex p"
  "context_ptr (setup_promise c d p) = Some c" "is_daemon (flags (setup_promise c d p)) = d"
  "pvalue (setup_promise c d p) = pvalue p"
  by (simp_all add: setup_promise_def)

text \<open>
  The documented behaviour of a no-op submission: a completion with the entry's user data
  is posted after what was already in the queue.
\<close>

definition nop_contract :: "'r uring_lib \<Rightarrow> ('r \<Rightarrow> cqe list) \<Rightarrow> bool" where
  "nop_contract lib cq \<longleftrightarrow>
     (\<forall>r sqe r1. get_sqe lib r = (Some sqe, r1) \<longrightarrow>
        (\<exists>mid q. user_data q = Ud_completed \<and>
           cq (snd (ring_submit lib (sqe_prep lib sqe Op_nop
             (sqe_set_data lib sqe Ud_completed r1)))) = cq r @ mid @ [q]))"

lemma root_complete_posts_mark:
  assumes nop: "nop_contract lib cq"
    and f: "frames w t = Some f" "caller (promise f) = None" "\<not> is_daemon (flags (promise f))"
      "context_ptr (promise f) = Some (this_ctx w)"
    and compl: "task_complete lib t r w = Ret (tr, w')"
  shows "\<exists>mid q. user_data q = Ud_completed \<and> cq (ring w') = cq (ring w) @ mid @ [q]"
    and "frames w' = (frames w)(t := None)" and "tr = Noop_coroutine"
proof -
  obtain s r1 where s: "get_sqe lib (ring w) = (s, r1)" by (cases "get_sqe lib (ring w)")
  have "s \<noteq> None"
    using compl f s by (auto simp: task_complete_def final_await_suspend_def task_finish_def
        io_context_finish_def Let_def split: sum.splits option.splits)
  with s obtain sqe where sqe: "get_sqe lib (ring w) = (Some sqe, r1)" by auto
  from root_complete_eq [OF f sqe, of r] compl
  show "frames w' = (frames w)(t := None)" "tr = Noop_coroutine" by auto
  from root_complete_eq [OF f sqe, of r] compl have "ring w' = snd (ring_submit lib
      (sqe_prep lib sqe Op_nop (sqe_set_data lib sqe Ud_completed r1)))" by auto
  with nop sqe show "\<exists>mid q. user_data q = Ud_completed \<and>
      cq (ring w') = cq (ring w) @ mid @ [q]"
    unfolding nop_contract_def by metis
qed

lemma block_run_eq:
  assumes "t_handle tk = Some t" and "frames w t = Some f"
    and "invoke t (put_promise t f (setup_promise (this_ctx w) False (promise f)) w) = Ret w3"
  shows "block_run n lib invoke tk w = uring_run n lib invoke w3"
  using assms by (simp add: block_run_def task_setup_eq start_task_eq)

subsection \<open>Properties\<close>

text \<open>
  \<^verbatim>\<open>block_run\<close> returns once its root task has completed. When the root's body ends
  during its first run, with a value or an exception, its final suspend point posts the
  finish mark; if what is in the queue before the mark can be dispatched, the loop comes to
  it and returns, for every sufficiently large number of turns with the same result, and
  the root's frame is gone.
\<close>

lemma block_run_returns:
  assumes "cq_contract lib consumed cq" and "invoke_contract invoke consumed cq calls"
    and "no_wait_error lib" and "nop_contract lib cq"
    and tk: "t_handle tk = Some t" and f: "frames w t = Some f" "caller (promise f) = None"
    and w2: "w2 = put_promise t f (setup_promise (this_ctx w) False (promise f)) w"
    and body: "invoke t w2 = Ret w3"
    and run: "frames wb t = frames w2 t" "this_ctx wb = this_ctx w2"
    and compl: "task_complete lib t r wb = Ret (tr, w3)"
    and safe: "dispatch_safe lib invoke cq I" and I: "I w3"
  shows "frames w3 t = None \<and>
    (\<exists>m w'. \<forall>k. block_run (m + k) lib invoke tk w = Some (Ret w'))"
proof -
  let ?g = "f\<lparr>promise := setup_promise (this_ctx w) False (promise f)\<rparr>"
  have g: "frames wb t = Some ?g" "caller (promise ?g) = None"
    "\<not> is_daemon (flags (promise ?g))" "context_ptr (promise ?g) = Some (this_ctx wb)"
    using run f(2) by (simp_all add: w2 put_promise_def)
  note root = root_complete_posts_mark [OF assms(4) g compl]
  from root(1) obtain mid q where q: "user_data q = Ud_completed"
    "cq (ring w3) = (cq (ring wb) @ mid) @ q # []" by auto
  let ?m = "Suc (length (cq (ring wb) @ mid))"
  from run_turns_stops [OF assms(1-3) safe I q(2) q(1), of ?m None] obtain w' where
    "run_turns ?m lib invoke None w3 = Some (Ret w')" by auto
  from run_turns_more [OF this] have "\<forall>k. uring_run (?m + k) lib invoke w3 = Some (Ret w')"
    by (simp add: uring_run_def del: run_turns.simps)
  with block_run_eq [OF tk f(1), of invoke w3] body
  have "\<forall>k. block_run (?m + k) lib invoke tk w = Some (Ret w')" by (simp add: w2)
  then have "\<exists>m w'. \<forall>k. block_run (m + k) lib invoke tk w = Some (Ret w')"
    by (intro exI)
  moreover have "frames w3 t = None" by (simp add: root(2))
  ultimately show ?thesis by blast
qed

subsection \<open>A concrete runtime, for the witnesses\<close>

text \<open>
  Submitting posts the finish completion; a called handle is logged, and its coroutine
  ends at once with the value 3.
\<close>

definition nop_ring :: "lring uring_lib" where
  "nop_ring = list_ring\<lparr>ring_submit := (\<lambda>r. (1, (fst r, snd r @ [fin_cqe])))\<rparr>"

type_synonym lworld = "(lring, nat, coro list) tworld_scheme"

definition run_body :: "coro \<Rightarrow> lworld \<Rightarrow> lworld outcome" where
  "run_body h w =
     obind (task_complete nop_ring h (Inr 3) (tworld.more_update (\<lambda>l. l @ [h]) w))
       (\<lambda>(tr, w'). Ret w')"

definition logged :: "(nat, coro list) tworld_ext \<Rightarrow> coro list" where
  "logged z = tworld.more (uworld.extend \<lparr>ring = (([], []) :: lring), cells = Map.empty\<rparr> z)"

lemma logged_more [simp]: "logged (uworld.more (w :: lworld)) = tworld.more w"
  by (cases w) (simp add: logged_def uworld.extend_def)

lemma nop_ring_contract: "cq_contract nop_ring fst snd"
  unfolding cq_contract_def nop_ring_def list_ring_def by (auto split: list.splits)

lemma nop_ring_no_error: "no_wait_error nop_ring"
  by (simp add: no_wait_error_def nop_ring_def list_ring_def)

lemma nop_ring_nop: "nop_contract nop_ring snd"
  by (auto simp: nop_contract_def nop_ring_def list_ring_def fin_cqe_def)

lemma run_body_contract: "invoke_contract run_body fst snd logged"
  unfolding invoke_contract_def
  by (auto simp: run_body_def outcome_simps task_complete_def final_await_suspend_def
      task_finish_def io_context_finish_def destroy_frame_def nop_ring_def list_ring_def Let_def
      split: sum.splits option.splits if_splits)

definition only_marks :: "lworld \<Rightarrow> bool" where
  "only_marks w \<longleftrightarrow> set (snd (ring w)) \<subseteq> {fin_cqe}"

lemma only_marks_safe: "dispatch_safe nop_ring run_body snd only_marks"
  unfolding dispatch_safe_def only_marks_def nop_ring_def list_ring_def
  by (auto simp: fin_cqe_def split: list.splits)

definition root_world :: lworld where
  "root_world = \<lparr>ring = ([], []), cells = Map.empty,
     frames = [6 \<mapsto> \<lparr>promise = new_promise, at_end = False\<rparr>], this_ctx = 1, \<dots> = []\<rparr>"

lemma block_run_returns_example:
  "\<exists>m w'. \<forall>k. block_run (m + k) nop_ring run_body \<lparr>t_handle = Some 6\<rparr> root_world = Some (Ret w')"
proof -
  let ?f = "\<lparr>promise = new_promise :: nat promise, at_end = False\<rparr>"
  define w2 where "w2 = put_promise 6 ?f (setup_promise (this_ctx root_world) False (promise ?f)) root_world"
  define wb where "wb = tworld.more_update (\<lambda>l. l @ [6]) w2"
  have tk: "t_handle \<lparr>t_handle = Some 6\<rparr> = Some 6" by simp
  have f: "frames root_world 6 = Some ?f" by (simp add: root_world_def)
  have nc: "caller (promise ?f) = None" by (simp add: new_promise_def)
  obtain w3 where w3: "task_complete nop_ring 6 (Inr 3) wb = Ret (Noop_coroutine, w3)"
    and m: "only_marks w3"
    by (simp add: wb_def w2_def root_world_def task_complete_def final_await_suspend_def
        put_promise_def task_finish_def io_context_finish_def destroy_frame_def nop_ring_def
        list_ring_def only_marks_def new_promise_def Let_def)
  then have body: "run_body 6 w2 = Ret w3" by (simp add: run_body_def wb_def)
  have run: "frames wb 6 = frames w2 6" "this_ctx wb = this_ctx w2" by (simp_all add: wb_def)
  from block_run_returns [OF nop_ring_contract run_body_contract nop_ring_no_error nop_ring_nop
      tk f nc w2_def body run w3 only_marks_safe m]
  show ?thesis by blast
qed



end
