(* ===== verification/Coro_Program.thy ===== *)
theory Coro_Program
  imports Io_Context
begin

section \<open>Programs of coroutines\<close>

text \<open>
  What client code is to the runtime, and what it means without one. A coroutine body is a
  value of the type \<open>body\<close>: what it does next, and how it goes on with the result. The
  specification \<open>direct\<close> runs a body as a function whose I/O calls block; the machine
  \<open>astep\<close> does the same in steps, with the stack of the bodies that wait for a callee, and
  is exact for \<open>direct\<close>. A program is a number of such machines (fibers) that the steps
  \<open>gstep\<close> interleave: the root, and every body that was launched.
\<close>

subsection \<open>Bodies\<close>

text \<open>
  The calls a body makes without suspending: system calls, OpenSSL, the work of
  \<^verbatim>\<open>ssl_stream\<close> on its vector \<^verbatim>\<open>leftover_\<close>, and writing the timespec of a timeout awaiter. Pointers are addresses; a session is named by its
  number. Every one of them answers with a number; what it does to memory and to objects is
  its effect on the environment.
\<close>

datatype sync_call =
    Sc_open string int
  | Sc_socket int int int
  | Sc_bind int u16
  | Sc_listen int int
  | Sc_close int
  | Sc_set_connect_state nat
  | Sc_set_accept_state nat
  | Sc_ssl_connect nat
  | Sc_ssl_accept nat
  | Sc_ssl_get_error nat int
  | Sc_err_get_error
  | Sc_err_print
  | Sc_ssl_write nat addr int
  | Sc_ssl_read nat addr int
  | Sc_bio_pending_read nat
  | Sc_bio_pending_write nat
  | Sc_bio_write nat addr nat
  | Sc_bio_read nat addr nat
  | Sc_read_leftover nat addr nat
  | Sc_fill_leftover nat
  | Sc_put_timespec addr int int
  | Sc_copy_timespec addr addr
  | Sc_lib string "int list"

text \<open>
  \<^verbatim>\<open>co_return\<close>, an exception that leaves the body, \<^verbatim>\<open>co_await\<close> of a submission,
  \<^verbatim>\<open>co_await f()\<close> of a new task, \<^verbatim>\<open>co_await this_context\<close>, \<^verbatim>\<open>context.launch(f())\<close> (which
  gives the handle of the task, or the exception of its allocation; \<^verbatim>\<open>launch_detached\<close>
  differs in that the handle is not used), \<^verbatim>\<open>co_await std::move(p)\<close> of a launched task, and
  a call that does not suspend.
\<close>

codatatype 'v body =
    Co_return 'v
  | Co_throw exn
  | Co_io uring_op "int \<Rightarrow> 'v body"
  | Co_call "'v body" "exn + 'v \<Rightarrow> 'v body"
  | Co_context "addr option \<Rightarrow> 'v body"
  | Co_launch "'v body" "exn + coro \<Rightarrow> 'v body"
  | Co_join coro "exn + 'v \<Rightarrow> 'v body"
  | Co_sync sync_call "int \<Rightarrow> 'v body"

definition result_body :: "exn + 'v \<Rightarrow> 'v body" where
  "result_body r = (case r of Inl e \<Rightarrow> Co_throw e | Inr v \<Rightarrow> Co_return v)"

lemma result_body_simps [simp]:
  "result_body (Inl e) = Co_throw e" "result_body (Inr v) = Co_return v"
  "result_body r = Co_return v \<longleftrightarrow> r = Inr v" "result_body r = Co_throw e \<longleftrightarrow> r = Inl e"
  "Co_return v = result_body r \<longleftrightarrow> r = Inr v" "Co_throw e = result_body r \<longleftrightarrow> r = Inl e"
  by (auto simp: result_body_def split: sum.splits)

lemma result_body_distinct [simp]:
  "result_body r \<noteq> Co_io op k" "result_body r \<noteq> Co_call b k'" "result_body r \<noteq> Co_context kc"
  "result_body r \<noteq> Co_launch b kl" "result_body r \<noteq> Co_join t k'"
  "Co_io op k \<noteq> result_body r" "Co_call b k' \<noteq> result_body r" "Co_context kc \<noteq> result_body r"
  "Co_launch b kl \<noteq> result_body r" "Co_join t k' \<noteq> result_body r"
  "result_body r \<noteq> Co_sync c ks" "Co_sync c ks \<noteq> result_body r"
  by (auto simp: result_body_def split: sum.splits)

lemma result_body_inject [simp]: "result_body r = result_body r' \<longleftrightarrow> r = r'"
  by (auto simp: result_body_def split: sum.splits)

text \<open>What a fiber does that can be seen from outside.\<close>

datatype 'v event =
    Io uring_op int
  | Launch coro "'v body"
  | Join coro "exn + 'v"
  | Sync sync_call int
  | Done "exn + 'v"

subsection \<open>The specification: blocking calls\<close>

text \<open>
  \<open>direct ctx b es r\<close>: run as an ordinary function whose I/O calls and joins block, the body
  does \<open>es\<close> and ends with \<open>r\<close>. A call or a launch whose frame cannot be allocated fails with
  the exception of the allocation; \<^verbatim>\<open>this_context\<close> is the program's context.
\<close>

inductive direct :: "addr \<Rightarrow> 'v body \<Rightarrow> 'v event list \<Rightarrow> exn + 'v \<Rightarrow> bool" for ctx where
  d_end: "direct ctx (result_body r) [] r"
| d_io: "direct ctx (k i) es r \<Longrightarrow> direct ctx (Co_io op k) (Io op i # es) r"
| d_call: "direct ctx b es1 r1 \<Longrightarrow> direct ctx (k r1) es2 r2 \<Longrightarrow>
     direct ctx (Co_call b k) (es1 @ es2) r2"
| d_call_fails: "direct ctx (k (Inl Bad_alloc)) es r \<Longrightarrow> direct ctx (Co_call b k) es r"
| d_context: "direct ctx (kc (Some ctx)) es r \<Longrightarrow> direct ctx (Co_context kc) es r"
| d_launch: "direct ctx (kl (Inr t)) es r \<Longrightarrow> direct ctx (Co_launch b kl) (Launch t b # es) r"
| d_launch_fails: "direct ctx (kl (Inl Bad_alloc)) es r \<Longrightarrow> direct ctx (Co_launch b kl) es r"
| d_join: "direct ctx (k r1) es r \<Longrightarrow> direct ctx (Co_join t k) (Join t r1 # es) r"
| d_sync: "direct ctx (ks i) es r \<Longrightarrow> direct ctx (Co_sync c ks) (Sync c i # es) r"

subsection \<open>One fiber in steps\<close>

datatype 'v astate =
    A_run "'v body" "(exn + 'v \<Rightarrow> 'v body) list"
  | A_wait uring_op "int \<Rightarrow> 'v body" "(exn + 'v \<Rightarrow> 'v body) list"
  | A_join coro "exn + 'v \<Rightarrow> 'v body" "(exn + 'v \<Rightarrow> 'v body) list"
  | A_finished "exn + 'v"

fun stack_of :: "'v astate \<Rightarrow> (exn + 'v \<Rightarrow> 'v body) list" where
  "stack_of (A_run b ks) = ks"
| "stack_of (A_wait op k ks) = ks"
| "stack_of (A_join t k ks) = ks"
| "stack_of (A_finished r) = []"

inductive astep :: "addr \<Rightarrow> 'v astate \<Rightarrow> 'v event list \<Rightarrow> 'v astate \<Rightarrow> bool" for ctx where
  a_io_ready: "astep ctx (A_run (Co_io op k) ks) [Io op i] (A_run (k i) ks)"
| a_io: "astep ctx (A_run (Co_io op k) ks) [] (A_wait op k ks)"
| a_io_done: "astep ctx (A_wait op k ks) [Io op i] (A_run (k i) ks)"
| a_call: "astep ctx (A_run (Co_call b kr) ks) [] (A_run b (kr # ks))"
| a_call_fails: "astep ctx (A_run (Co_call b kr) ks) [] (A_run (kr (Inl Bad_alloc)) ks)"
| a_context: "astep ctx (A_run (Co_context kc) ks) [] (A_run (kc (Some ctx)) ks)"
| a_launch: "astep ctx (A_run (Co_launch b kl) ks) [Launch t b] (A_run (kl (Inr t)) ks)"
| a_launch_fails: "astep ctx (A_run (Co_launch b kl) ks) [] (A_run (kl (Inl Bad_alloc)) ks)"
| a_join: "astep ctx (A_run (Co_join t kr) ks) [] (A_join t kr ks)"
| a_join_ready: "astep ctx (A_run (Co_join t kr) ks) [Join t r] (A_run (kr r) ks)"
| a_joined: "astep ctx (A_join t kr ks) [Join t r] (A_run (kr r) ks)"
| a_sync: "astep ctx (A_run (Co_sync c kc) ks) [Sync c i] (A_run (kc i) ks)"
| a_return: "astep ctx (A_run (result_body r) (kr # ks)) [] (A_run (kr r) ks)"
| a_finish: "astep ctx (A_run (result_body r) []) [Done r] (A_finished r)"

inductive asteps :: "addr \<Rightarrow> 'v astate \<Rightarrow> 'v event list \<Rightarrow> 'v astate \<Rightarrow> bool" for ctx where
  as_refl: "asteps ctx st [] st"
| as_step: "astep ctx st es st' \<Longrightarrow> asteps ctx st' es' st'' \<Longrightarrow> asteps ctx st (es @ es') st''"

inductive_simps astep_finished [simp]: "astep ctx (A_finished r) es st"

lemma asteps_trans: "asteps ctx a es b \<Longrightarrow> asteps ctx b es' c \<Longrightarrow> asteps ctx a (es @ es') c"
  by (induction rule: asteps.induct) (auto intro: asteps.intros)

lemma asteps_one: "astep ctx a es b \<Longrightarrow> asteps ctx a es b"
  using as_step [OF _ as_refl] by fastforce

text \<open>What a state may still do, by the specification.\<close>

fun unwind ::
  "addr \<Rightarrow> 'v body \<Rightarrow> (exn + 'v \<Rightarrow> 'v body) list \<Rightarrow> 'v event list \<Rightarrow> exn + 'v \<Rightarrow> bool"
where
  "unwind ctx b [] es r \<longleftrightarrow> direct ctx b es r"
| "unwind ctx b (k # ks) es r \<longleftrightarrow>
     (\<exists>es1 r1 es2. es = es1 @ es2 \<and> direct ctx b es1 r1 \<and> unwind ctx (k r1) ks es2 r)"

fun future :: "addr \<Rightarrow> 'v astate \<Rightarrow> 'v event list \<Rightarrow> bool" where
  "future ctx (A_run b ks) ls \<longleftrightarrow> (\<exists>es r. ls = es @ [Done r] \<and> unwind ctx b ks es r)"
| "future ctx (A_wait op k ks) ls \<longleftrightarrow>
     (\<exists>i es r. ls = Io op i # es @ [Done r] \<and> unwind ctx (k i) ks es r)"
| "future ctx (A_join t k ks) ls \<longleftrightarrow>
     (\<exists>i es r. ls = Join t i # es @ [Done r] \<and> unwind ctx (k i) ks es r)"
| "future ctx (A_finished r) ls \<longleftrightarrow> ls = []"

lemma unwind_step:
  assumes "\<And>es r. direct ctx b' es r \<Longrightarrow> direct ctx b (es0 @ es) r"
    and "unwind ctx b' ks es r"
  shows "unwind ctx b ks (es0 @ es) r"
proof (cases ks)
  case Nil
  with assms show ?thesis by simp
next
  case (Cons k ks')
  with assms(2) obtain es1 r1 es2 where
    "es = es1 @ es2" "direct ctx b' es1 r1" "unwind ctx (k r1) ks' es2 r" by auto
  moreover from this(2) have "direct ctx b (es0 @ es1) r1" by (rule assms(1))
  ultimately show ?thesis using Cons by (metis append.assoc unwind.simps(2))
qed

lemma unwind_call:
  assumes "unwind ctx b (k # ks) es r"
  shows "unwind ctx (Co_call b k) ks es r"
proof -
  from assms obtain es1 r1 es2 where
    u: "es = es1 @ es2" "direct ctx b es1 r1" "unwind ctx (k r1) ks es2 r" by auto
  from unwind_step [of ctx "k r1" "Co_call b k" es1, OF _ u(3)] u(1,2)
  show ?thesis by (auto intro: direct.intros)
qed

text \<open>A step that does \<open>es0\<close> and leaves the stack alone.\<close>

lemma future_run:
  assumes "future ctx (A_run b' ks) ls"
    and "\<And>es r. direct ctx b' es r \<Longrightarrow> direct ctx b (es0 @ es) r"
  shows "future ctx (A_run b ks) (es0 @ ls)"
proof -
  from assms(1) obtain es r where "ls = es @ [Done r]" "unwind ctx b' ks es r" by auto
  with unwind_step [of ctx b' b es0, OF assms(2)] show ?thesis by fastforce
qed

lemma astep_future:
  "astep ctx st es st' \<Longrightarrow> future ctx st' ls \<Longrightarrow> future ctx st (es @ ls)"
proof (induction rule: astep.induct)
  case (a_io op k ks)
  then obtain i es r where f: "ls = Io op i # es @ [Done r]" "unwind ctx (k i) ks es r" by auto
  then have "future ctx (A_run (k i) ks) (es @ [Done r])" by auto
  from future_run [OF this, of "Co_io op k" "[Io op i]"] f(1) show ?case by (auto intro: direct.intros)
next
  case (a_join t kr ks)
  then obtain i es r where f: "ls = Join t i # es @ [Done r]" "unwind ctx (kr i) ks es r" by auto
  then have "future ctx (A_run (kr i) ks) (es @ [Done r])" by auto
  from future_run [OF this, of "Co_join t kr" "[Join t i]"] f(1) show ?case by (auto intro: direct.intros)
next
  case (a_call b k ks)
  then show ?case by (auto simp del: unwind.simps intro: unwind_call)
next
  case (a_return r kr ks)
  then show ?case by (fastforce intro: direct.intros)
next
  case (a_finish r)
  then show ?case by (auto intro: direct.intros)
next
  case (a_call_fails b kr ks)
  from future_run [OF this, of "Co_call b kr" "[]"] show ?case by (auto intro: direct.intros)
next
  case (a_context kc ks)
  from future_run [OF this, of "Co_context kc" "[]"] show ?case by (auto intro: direct.intros)
next
  case (a_launch_fails b kl ks)
  from future_run [OF this, of "Co_launch b kl" "[]"] show ?case by (auto intro: direct.intros)
next
  case (a_io_ready op k ks i)
  from future_run [OF this, of "Co_io op k" "[Io op i]"] show ?case by (auto intro: direct.intros)
next
  case (a_launch b kl ks t)
  from future_run [OF this, of "Co_launch b kl" "[Launch t b]"] show ?case
    by (auto intro: direct.intros)
next
  case (a_join_ready t kr ks r)
  from future_run [OF this, of "Co_join t kr" "[Join t r]"] show ?case by (auto intro: direct.intros)
next
  case (a_sync c kc ks i)
  from future_run [OF this, of "Co_sync c kc" "[Sync c i]"] show ?case by (auto intro: direct.intros)
qed auto

lemma asteps_future:
  "asteps ctx st es st' \<Longrightarrow> st' = A_finished r \<Longrightarrow> future ctx st es"
  by (induction rule: asteps.induct) (auto intro: astep_future)


text \<open>And back: every outcome of the specification is a run of the machine.\<close>

lemma direct_asteps:
  "direct ctx b es r \<Longrightarrow> asteps ctx (A_run b ks) es (A_run (result_body r) ks)"
proof (induction arbitrary: ks rule: direct.induct)
  case (d_call b es1 r1 k es2 r2)
  have "asteps ctx (A_run (Co_call b k) ks) ([] @ es1 @ [] @ es2) (A_run (result_body r2) ks)"
    by (rule as_step [OF a_call])
      (rule asteps_trans [OF d_call.IH(1)], rule as_step, rule a_return, rule d_call.IH(2))
  then show ?case by simp
qed (auto intro: as_refl as_step [OF a_io_ready, simplified] as_step [OF a_call_fails, simplified]
    as_step [OF a_context, simplified] as_step [OF a_launch, simplified]
    as_step [OF a_launch_fails, simplified] as_step [OF a_join_ready, simplified]
    as_step [OF a_sync, simplified])

inductive_cases astep_to_finishedE: "astep ctx st es (A_finished r)"

lemma asteps_finished:
  "asteps ctx st es st' \<Longrightarrow> st' = A_finished r \<Longrightarrow>
   st = A_finished r \<and> es = [] \<or> es \<noteq> [] \<and> last es = Done r"
  by (induction rule: asteps.induct) (auto elim: astep_to_finishedE)

lemma abstract_machine_exact:
  "asteps ctx (A_run b []) es (A_finished r) \<longleftrightarrow> (\<exists>es'. es = es' @ [Done r] \<and> direct ctx b es' r)"
proof
  assume *: "asteps ctx (A_run b []) es (A_finished r)"
  have "\<exists>es' r'. es = es' @ [Done r'] \<and> direct ctx b es' r'"
    using asteps_future [OF * refl] by simp
  with asteps_finished [OF * refl] show "\<exists>es'. es = es' @ [Done r] \<and> direct ctx b es' r" by auto
next
  assume "\<exists>es'. es = es' @ [Done r] \<and> direct ctx b es' r"
  then obtain es' where es: "es = es' @ [Done r]" and d: "direct ctx b es' r" by blast
  from asteps_trans [OF direct_asteps [OF d] asteps_one [OF a_finish]] es
  show "asteps ctx (A_run b []) es (A_finished r)" by simp
qed

subsection \<open>Many fibers\<close>

text \<open>
  Fiber \<open>None\<close> is the root, fiber \<open>Some t\<close> the body launched in the frame at \<open>t\<close>. One fiber
  moves at a time; a launch adds a fiber, and a join gives the outcome of a fiber that has
  ended. \<open>Called t\<close> is no event: it tells that the frame at \<open>t\<close> was made for a call.
\<close>

type_synonym fid = "coro option"

datatype 'v label = Event fid "'v event" | Called coro

fun own :: "'v event \<Rightarrow> bool" where
  "own (Launch t b) = False"
| "own (Join t r) = False"
| "own e = True"

inductive gstep ::
  "addr \<Rightarrow> (fid \<rightharpoonup> 'v astate) \<Rightarrow> 'v label list \<Rightarrow> (fid \<rightharpoonup> 'v astate) \<Rightarrow> bool" for ctx where
  g_own: "S f = Some st \<Longrightarrow> astep ctx st es st' \<Longrightarrow> list_all own es \<Longrightarrow>
     gstep ctx S (map (Event f) es) (S(f \<mapsto> st'))"
| g_launch: "S f = Some st \<Longrightarrow> astep ctx st [Launch t b] st' \<Longrightarrow> S (Some t) = None \<Longrightarrow>
     gstep ctx S [Event f (Launch t b)] (S(f \<mapsto> st', Some t \<mapsto> A_run b []))"
| g_join: "S f = Some st \<Longrightarrow> astep ctx st [Join t r] st' \<Longrightarrow> S (Some t) = Some (A_finished r) \<Longrightarrow>
     gstep ctx S [Event f (Join t r)] (S(f \<mapsto> st'))"

inductive gsteps ::
  "addr \<Rightarrow> (fid \<rightharpoonup> 'v astate) \<Rightarrow> 'v label list \<Rightarrow> (fid \<rightharpoonup> 'v astate) \<Rightarrow> bool" for ctx where
  gs_refl: "gsteps ctx S [] S"
| gs_step: "gsteps ctx S ls S' \<Longrightarrow> gstep ctx S' l S'' \<Longrightarrow> gsteps ctx S (ls @ l) S''"

lemma gsteps_one: "gstep ctx S l S' \<Longrightarrow> gsteps ctx S l S'"
  using gs_step [OF gs_refl] by fastforce

lemma gsteps_trans: "gsteps ctx S' ls' S'' \<Longrightarrow> gsteps ctx S ls S' \<Longrightarrow> gsteps ctx S (ls @ ls') S''"
  by (induction rule: gsteps.induct) (auto simp flip: append_assoc intro: gs_step)

text \<open>At least one step.\<close>

inductive gmoves ::
  "addr \<Rightarrow> (fid \<rightharpoonup> 'v astate) \<Rightarrow> 'v label list \<Rightarrow> (fid \<rightharpoonup> 'v astate) \<Rightarrow> bool" for ctx where
  gm_one: "gstep ctx S l S' \<Longrightarrow> gmoves ctx S l S'"
| gm_step: "gmoves ctx S ls S' \<Longrightarrow> gstep ctx S' l S'' \<Longrightarrow> gmoves ctx S (ls @ l) S''"

lemma gmoves_gsteps: "gmoves ctx S ls S' \<Longrightarrow> gsteps ctx S ls S'"
  by (induction rule: gmoves.induct) (auto intro: gsteps_one gs_step)

text \<open>What one fiber did in a run.\<close>

fun event_of :: "fid \<Rightarrow> 'v label \<Rightarrow> 'v event list" where
  "event_of f (Event g e) = (if g = f then [e] else [])"
| "event_of f (Called t) = []"

definition trace :: "fid \<Rightarrow> 'v label list \<Rightarrow> 'v event list" where
  "trace f ls = concat (map (event_of f) ls)"

lemma trace_simps [simp]:
  "trace f [] = []" "trace f (l # ls) = event_of f l @ trace f ls"
  "trace f (ls @ ls') = trace f ls @ trace f ls'"
  by (simp_all add: trace_def)

lemma trace_map_Event [simp]: "trace f (map (Event g) es) = (if g = f then es else [])"
  by (induction es) auto

lemma in_event_of: "e \<in> set (event_of f l) \<longleftrightarrow> l = Event f e"
  by (cases l) auto

lemma in_trace [simp]: "e \<in> set (trace f ls) \<longleftrightarrow> Event f e \<in> set ls"
  by (induction ls) (auto simp: in_event_of)

definition seen :: "'v label list \<Rightarrow> 'v label list" where
  "seen ls = filter (\<lambda>l. case l of Called t \<Rightarrow> False | Event f e \<Rightarrow> True) ls"

lemma seen_simps [simp]:
  "seen [] = []" "seen (Called t # ls) = seen ls" "seen (Event f e # ls) = Event f e # seen ls"
  "seen (ls @ ls') = seen ls @ seen ls'"
  by (simp_all add: seen_def)

lemma trace_seen [simp]: "trace f (seen ls) = trace f ls"
  by (induction ls) (auto simp: seen_def split: label.splits)

lemma in_seen [simp]: "Event f e \<in> set (seen ls) \<longleftrightarrow> Event f e \<in> set ls"
  by (simp add: seen_def)

text \<open>The body a fiber runs.\<close>

definition fiber_body :: "'v body \<Rightarrow> 'v label list \<Rightarrow> fid \<Rightarrow> 'v body \<Rightarrow> bool" where
  "fiber_body b0 ls f b \<longleftrightarrow>
     (case f of None \<Rightarrow> b = b0 | Some t \<Rightarrow> (\<exists>g. Event g (Launch t b) \<in> set ls))"

text \<open>
  A run of fibers, seen from each fiber: it runs its own body, starting with nothing; every
  launch made one fiber, and every join got the outcome of the fiber it names.
\<close>

definition fibers_ok :: "addr \<Rightarrow> 'v body \<Rightarrow> 'v label list \<Rightarrow> (fid \<rightharpoonup> 'v astate) \<Rightarrow> bool" where
  "fibers_ok ctx b0 ls S \<longleftrightarrow>
     (\<forall>f b. fiber_body b0 ls f b \<longrightarrow> (\<exists>st. S f = Some st \<and> asteps ctx (A_run b []) (trace f ls) st)) \<and>
     (\<forall>f. S f \<noteq> None \<longrightarrow> (\<exists>b. fiber_body b0 ls f b)) \<and>
     (\<forall>f. S f = None \<longrightarrow> trace f ls = []) \<and>
     (\<forall>g t r. Event g (Join t r) \<in> set ls \<longrightarrow> Event (Some t) (Done r) \<in> set ls)"

lemma asteps_snoc: "asteps ctx a es b \<Longrightarrow> astep ctx b es' c \<Longrightarrow> asteps ctx a (es @ es') c"
  by (rule asteps_trans [OF _ asteps_one])

lemma fibers_okD:
  assumes "fibers_ok ctx b0 ls S"
  shows "fiber_body b0 ls f b \<Longrightarrow> \<exists>st. S f = Some st \<and> asteps ctx (A_run b []) (trace f ls) st"
    and "S f \<noteq> None \<Longrightarrow> \<exists>b. fiber_body b0 ls f b"
    and "S f = None \<Longrightarrow> trace f ls = []"
    and "Event g (Join t r) \<in> set ls \<Longrightarrow> Event (Some t) (Done r) \<in> set ls"
  using assms unfolding fibers_ok_def by blast+

text \<open>A fiber that moves and makes no fiber.\<close>

lemma fibers_ok_move:
  assumes ok: "fibers_ok ctx b0 ls S" and f: "S f = Some st" "astep ctx st es st'"
    and es: "\<And>t b. Launch t b \<notin> set es"
    and join: "\<And>t r. Join t r \<in> set es \<Longrightarrow> Event (Some t) (Done r) \<in> set ls"
  shows "fibers_ok ctx b0 (ls @ map (Event f) es) (S(f \<mapsto> st'))"
proof -
  have l: "fiber_body b0 (ls @ map (Event f) es) g b = fiber_body b0 ls g b" for g b
    using es by (auto simp: fiber_body_def split: option.splits)
  have "asteps ctx (A_run b []) (trace f ls @ es) st'" if "fiber_body b0 ls f b" for b
    using fibers_okD(1) [OF ok that] f by (auto intro: asteps_snoc)
  moreover have "\<exists>st. S g = Some st \<and> asteps ctx (A_run b []) (trace g ls) st"
    if "fiber_body b0 ls g b" for g b using fibers_okD(1) [OF ok that] .
  moreover have "Event (Some t) (Done r) \<in> set (ls @ map (Event f) es)"
    if "Event g (Join t r) \<in> set (ls @ map (Event f) es)" for g t r
    using that fibers_okD(4) [OF ok] join by auto
  ultimately show ?thesis
    unfolding fibers_ok_def l using fibers_okD(2,3) [OF ok] f(1) by auto
qed

lemma gstep_ok:
  assumes "gstep ctx S l S'" and ok: "fibers_ok ctx b0 ls S"
  shows "fibers_ok ctx b0 (ls @ l) S'"
  using assms(1)
proof cases
  case (g_own f st es st')
  then have "Launch t b \<notin> set es" "Join t r \<notin> set es" for t b r by (auto simp: list_all_iff)
  with g_own show ?thesis by (auto intro!: fibers_ok_move [OF ok])
next
  case (g_launch f st t b st')
  have ft: "Some t \<noteq> f" using g_launch(3,5) by auto
  have new: "\<not> fiber_body b0 ls (Some t) b'" for b'
    using fibers_okD(1) [OF ok, of "Some t"] g_launch(5) by auto
  have l: "fiber_body b0 (ls @ l) g b' \<longleftrightarrow> fiber_body b0 ls g b' \<or> g = Some t \<and> b' = b" for g b'
    using g_launch(1) by (auto simp: fiber_body_def split: option.splits)
  have tr: "trace g (ls @ l) = trace g ls @ (if g = f then [Launch t b] else [])" for g
    using g_launch(1) by simp
  have "asteps ctx (A_run b' []) (trace f ls @ [Launch t b]) st'" if "fiber_body b0 ls f b'" for b'
    using fibers_okD(1) [OF ok that] g_launch(3,4) by (auto intro: asteps_snoc)
  moreover have "asteps ctx (A_run b []) (trace (Some t) ls) (A_run b [])"
    using fibers_okD(3) [OF ok g_launch(5)] by (simp add: as_refl)
  moreover have "\<exists>st. S g = Some st \<and> asteps ctx (A_run b []) (trace g ls) st"
    if "fiber_body b0 ls g b" for g b using fibers_okD(1) [OF ok that] .
  moreover have "Event (Some t') (Done r) \<in> set (ls @ l)"
    if "Event g (Join t' r) \<in> set (ls @ l)" for g t' r
    using that fibers_okD(4) [OF ok] g_launch(1) by auto
  ultimately show ?thesis
    unfolding fibers_ok_def l tr using fibers_okD(2,3) [OF ok] g_launch(2,3) ft new by auto
next
  case (g_join f st t r st')
  then obtain b where b: "fiber_body b0 ls (Some t) b" using fibers_okD(2) [OF ok, of "Some t"] by auto
  from fibers_okD(1) [OF ok b] g_join(5) have "asteps ctx (A_run b []) (trace (Some t) ls) (A_finished r)"
    by auto
  from asteps_finished [OF this refl] have "Done r \<in> set (trace (Some t) ls)"
    by (metis astate.distinct(5) last_in_set)
  then have "Event (Some t) (Done r) \<in> set ls" by simp
  with g_join fibers_ok_move [OF ok g_join(3,4)] show ?thesis by auto
qed

lemma gsteps_ok:
  assumes "gsteps ctx S ls S'" and "S = [None \<mapsto> A_run b0 []]"
  shows "fibers_ok ctx b0 ls S'"
  using assms
proof (induction rule: gsteps.induct)
  case (gs_refl S)
  then show ?case
    by (auto simp: fibers_ok_def fiber_body_def as_refl split: option.splits if_splits)
next
  case (gs_step S ls S' l S'')
  from gstep_ok [OF gs_step.hyps(2) gs_step.IH [OF gs_step.prems]] show ?case .
qed

text \<open>Seen from one fiber, a run that ended it is a direct execution of its body.\<close>

lemma fibers_ok_done:
  assumes ok: "fibers_ok ctx b0 ls S" and b: "fiber_body b0 ls f b" and "Event f (Done r) \<in> set ls"
  shows "\<exists>es. trace f ls = es @ [Done r] \<and> direct ctx b es r"
proof -
  from fibers_okD(1) [OF ok b] obtain st where st: "S f = Some st"
    "asteps ctx (A_run b []) (trace f ls) st" by blast
  have "asteps ctx a es c \<Longrightarrow> Done r \<in> set es \<Longrightarrow> c = A_finished r" for a es c
  proof (induction rule: asteps.induct)
    case (as_step a es c es' d)
    show ?case
    proof (cases "Done r \<in> set es")
      case True
      with as_step(1) have "c = A_finished r" by cases auto
      with as_step(2) show ?thesis by cases auto
    next
      case False
      with as_step show ?thesis by auto
    qed
  qed simp
  from this [OF st(2)] assms(3) have "st = A_finished r" by simp
  with st(2) abstract_machine_exact show ?thesis by blast
qed

end
