(* ===== verification/Runtime.thy ===== *)
theory Runtime
  imports Coro_Program
begin

section \<open>The runtime\<close>

text \<open>
  What a program of coroutines does under the event loop, from the operations of \<open>Uring\<close>,
  \<open>Coro_Task\<close> and \<open>Io_Context\<close>. The step relation \<open>rstep\<close> runs bodies the way the compiler
  expands \<^verbatim>\<open>co_await\<close>: construction of the awaiter, \<^verbatim>\<open>await_ready\<close>, \<^verbatim>\<open>await_suspend\<close>, and
  \<^verbatim>\<open>await_resume\<close> when the handle is called. The awaiter lives to the end of the full
  expression, so its cell is freed after \<^verbatim>\<open>await_resume\<close>. Addresses of new frames and cells
  are any that are not in use.
\<close>

subsection \<open>Worlds\<close>

text \<open>Where a suspended coroutine waits, and how it goes on.\<close>

datatype 'v cont =
    Cont_io addr uring_op "int \<Rightarrow> 'v body"
  | Cont_call coro "exn + 'v \<Rightarrow> 'v body"

text \<open>
  \<open>conts\<close> is what the frames hold besides their promise. Two fields record facts about the
  program: the fiber a coroutine belongs to, and the launched tasks whose owner (the
  move-only \<^verbatim>\<open>task\<close> that \<^verbatim>\<open>launch\<close> returned) has not been moved into a \<^verbatim>\<open>co_await\<close> yet.
\<close>

record ('r, 'v) rworld = "('r, 'v) tworld" +
  conts :: "coro \<rightharpoonup> 'v cont"
  fib :: "coro \<Rightarrow> fid"
  owned :: "coro set"

text \<open>
  \<open>Run s stk h b\<close>: coroutine \<open>h\<close> executes \<open>b\<close>. It was called for the completion \<open>s\<close>, which the
  loop marks as seen when the call returns (none for the call in \<^verbatim>\<open>block_run\<close>). Below it on
  the call stack are the coroutines that are in a call of \<^verbatim>\<open>launch\<close>, which calls the handle
  of the new task: each with what it does when that call returns. \<open>Idle\<close>: the loop is about
  to wait. \<open>Halted\<close>: the loop has returned.
\<close>

datatype 'v control = Run "cqe option" "(coro \<times> 'v body) list" coro "'v body" | Idle | Halted

fun active :: "'v control \<Rightarrow> (coro \<times> 'v body) list" where
  "active (Run s stk h b) = (h, b) # stk"
| "active _ = []"

definition leave :: "'r uring_lib \<Rightarrow> cqe option \<Rightarrow> ('r, 'v) rworld \<Rightarrow> ('r, 'v) rworld" where
  "leave lib s w = (case s of None \<Rightarrow> w | Some q \<Rightarrow> w\<lparr>ring := cqe_seen lib q (ring w)\<rparr>)"

text \<open>A coroutine suspended, or transferred to no other: the call of its handle returns.\<close>

definition return_to ::
  "'r uring_lib \<Rightarrow> cqe option \<Rightarrow> (coro \<times> 'v body) list \<Rightarrow> ('r, 'v) rworld \<Rightarrow>
   'v control \<times> ('r, 'v) rworld" where
  "return_to lib s stk w =
     (case stk of [] \<Rightarrow> (Idle, leave lib s w) | (h, b) # stk' \<Rightarrow> (Run s stk' h b, w))"

text \<open>What \<^verbatim>\<open>await_resume\<close> of a task gives its caller: a value, or the exception.\<close>

fun to_sum :: "'v outcome \<Rightarrow> (exn + 'v) option" where
  "to_sum (Ret v) = Some (Inr v)"
| "to_sum (Thrown e) = Some (Inl e)"
| "to_sum (Fault u) = None"

subsection \<open>Steps\<close>

text \<open>
  A body ends by symmetric transfer to the coroutine that awaited it (\<open>finish_awaited\<close> for a
  callee, \<open>finish_joined\<close> for a launched task), or to none (\<open>finish_alone\<close>: the root, or a
  launched task nobody awaits). Only a task that is owned can be awaited, and the await
  takes it.
\<close>

inductive rstep ::
  "'r uring_lib \<Rightarrow> 'v control \<times> ('r, 'v) rworld \<Rightarrow> 'v label list \<Rightarrow>
   'v control \<times> ('r, 'v) rworld \<Rightarrow> bool" for lib where
  io_ready:
    "cells w a = None \<Longrightarrow> awaiter_new lib op a w = (aw, w1) \<Longrightarrow> await_ready aw \<Longrightarrow>
     awaiter_result aw w1 = Ret i \<Longrightarrow>
     rstep lib (Run s stk h (Co_io op k), w) [Event (fib w h) (Io op i)]
       (Run s stk h (k i), w1\<lparr>cells := (cells w1)(a := None)\<rparr>)"
| io_suspend:
    "cells w a = None \<Longrightarrow> awaiter_new lib op a w = (aw, w1) \<Longrightarrow> \<not> await_ready aw \<Longrightarrow>
     await_suspend lib aw h w1 = Ret w2 \<Longrightarrow>
     rstep lib (Run s stk h (Co_io op k), w) []
       (return_to lib s stk (w2\<lparr>conts := (conts w2)(h \<mapsto> Cont_io a op k)\<rparr>))"
| call:
    "frames w t = None \<Longrightarrow> task_new (Some t) w = Ret (tk, w1) \<Longrightarrow>
     await_transform_rvalue tk = (callee, tk') \<Longrightarrow> task_await_ready callee w1 = Ret False \<Longrightarrow>
     task_await_suspend callee h w1 = Ret (Resume t, w2) \<Longrightarrow>
     rstep lib (Run s stk h (Co_call b kr), w) [Called t]
       (Run s stk t b, w2\<lparr>conts := (conts w2)(h \<mapsto> Cont_call t kr), fib := (fib w2)(t := fib w h)\<rparr>)"
| call_fails:
    "task_new None w = Thrown e \<Longrightarrow>
     rstep lib (Run s stk h (Co_call b kr), w) [] (Run s stk h (kr (Inl e)), w)"
| ctx:
    "context_await h w = Ret c \<Longrightarrow>
     rstep lib (Run s stk h (Co_context kc), w) [] (Run s stk h (kc c), w)"
| sync: "rstep lib (Run s stk h (Co_sync c kc), w) [Event (fib w h) (Sync c i)] (Run s stk h (kc i), w)"
| launch:
    "frames w t = None \<Longrightarrow> task_new (Some t) w = Ret (tk, w1) \<Longrightarrow> task_setup tk True w1 = Ret w2 \<Longrightarrow>
     task_take_handle tk = (Some t, tk') \<Longrightarrow>
     rstep lib (Run s stk h (Co_launch b kl), w) [Event (fib w h) (Launch t b)]
       (Run s ((h, kl (Inr t)) # stk) t b,
        w2\<lparr>fib := (fib w2)(t := Some t), owned := insert t (owned w2)\<rparr>)"
| launch_fails:
    "task_new None w = Thrown e \<Longrightarrow>
     rstep lib (Run s stk h (Co_launch b kl), w) [] (Run s stk h (kl (Inl e)), w)"
| join_ready:
    "t \<in> owned w \<Longrightarrow> await_transform_rvalue \<lparr>t_handle = Some t\<rparr> = (callee, tk') \<Longrightarrow>
     task_await_ready callee w = Ret True \<Longrightarrow> to_sum (task_await_resume callee w) = Some r \<Longrightarrow>
     rstep lib (Run s stk h (Co_join t kr), w) [Event (fib w h) (Join t r)]
       (Run s stk h (kr r), w\<lparr>owned := owned w - {t}\<rparr>)"
| join_suspend:
    "t \<in> owned w \<Longrightarrow> await_transform_rvalue \<lparr>t_handle = Some t\<rparr> = (callee, tk') \<Longrightarrow>
     task_await_ready callee w = Ret False \<Longrightarrow>
     task_await_suspend callee h w = Ret (Noop_coroutine, w1) \<Longrightarrow>
     rstep lib (Run s stk h (Co_join t kr), w) []
       (return_to lib s stk
          (w1\<lparr>conts := (conts w1)(h \<mapsto> Cont_call t kr), owned := owned w1 - {t}\<rparr>))"
| finish_awaited:
    "task_complete lib h r w = Ret (Resume c, w1) \<Longrightarrow> fib w h = fib w c \<Longrightarrow>
     conts w1 c = Some (Cont_call t kr) \<Longrightarrow> to_sum (task_await_resume (Some t) w1) = Some r' \<Longrightarrow>
     rstep lib (Run s stk h (result_body r), w) []
       (Run s stk c (kr r'), w1\<lparr>conts := (conts w1)(c := None)\<rparr>)"
| finish_joined:
    "task_complete lib h r w = Ret (Resume c, w1) \<Longrightarrow> fib w h \<noteq> fib w c \<Longrightarrow>
     conts w1 c = Some (Cont_call t kr) \<Longrightarrow> to_sum (task_await_resume (Some t) w1) = Some r' \<Longrightarrow>
     rstep lib (Run s stk h (result_body r), w)
       [Event (fib w h) (Done r), Event (fib w c) (Join t r')]
       (Run s stk c (kr r'), w1\<lparr>conts := (conts w1)(c := None)\<rparr>)"
| finish_alone:
    "task_complete lib h r w = Ret (Noop_coroutine, w1) \<Longrightarrow>
     rstep lib (Run s stk h (result_body r), w) [Event (fib w h) (Done r)]
       (return_to lib s stk w1)"
| loop_cell:
    "wait_cqe lib c (ring w) = (0, Some q, rg) \<Longrightarrow> user_data q = Ud_cell a \<Longrightarrow>
     cells w a = Some d \<Longrightarrow> io_handle d = Some h \<Longrightarrow> conts w h = Some (Cont_io a op k) \<Longrightarrow>
     rstep lib (Idle, w) [Event (fib w h) (Io op (res q))]
       (Run (Some q) [] h (k (res q)),
        w\<lparr>ring := rg, cells := (cells w)(a := None), conts := (conts w)(h := None)\<rparr>)"
| loop_null:
    "wait_cqe lib c (ring w) = (0, Some q, rg) \<Longrightarrow> user_data q = Ud_null \<Longrightarrow>
     rstep lib (Idle, w) [] (Idle, w\<lparr>ring := cqe_seen lib q rg\<rparr>)"
| loop_done:
    "wait_cqe lib c (ring w) = (0, Some q, rg) \<Longrightarrow> user_data q = Ud_completed \<Longrightarrow>
     rstep lib (Idle, w) [] (Halted, w\<lparr>ring := cqe_seen lib q rg\<rparr>)"

inductive_simps rstep_halted [simp]: "rstep lib (Halted, w) l cfg"

text \<open>Runs with the labels they produced.\<close>

inductive rsteps ::
  "'r uring_lib \<Rightarrow> 'v control \<times> ('r, 'v) rworld \<Rightarrow> 'v label list \<Rightarrow>
   'v control \<times> ('r, 'v) rworld \<Rightarrow> bool" for lib where
  rs_refl: "rsteps lib cfg [] cfg"
| rs_step: "rsteps lib cfg ls cfg' \<Longrightarrow> rstep lib cfg' l cfg'' \<Longrightarrow> rsteps lib cfg (ls @ l) cfg''"

lemma rsteps_one: "rstep lib cfg l cfg' \<Longrightarrow> rsteps lib cfg l cfg'"
  using rs_step [OF rs_refl] by fastforce

lemma rsteps_trans:
  "rsteps lib cfg' ls' cfg'' \<Longrightarrow> rsteps lib cfg ls cfg' \<Longrightarrow> rsteps lib cfg (ls @ ls') cfg''"
  by (induction rule: rsteps.induct) (auto simp flip: append_assoc intro: rs_step)

text \<open>The program starts as \<^verbatim>\<open>block_run\<close> starts its root task.\<close>

definition program_start ::
  "task \<Rightarrow> 'v body \<Rightarrow> ('r, 'v) rworld \<Rightarrow> ('v control \<times> ('r, 'v) rworld) outcome" where
  "program_start tk b w =
     obind (task_setup tk False w) (\<lambda>w'.
       case task_take_handle tk of
         (None, tk') \<Rightarrow> Fault Null_deref
       | (Some h, tk') \<Rightarrow> Ret (Run None [] h b, w'))"

end
