(* ===== verification/Runtime_Sim.thy ===== *)
theory Runtime_Sim
  imports Runtime
begin

section \<open>The runtime simulates the interleaving of its fibers\<close>

text \<open>
  The invariant that relates a configuration of the runtime to the states of the fibers:
  each unfinished fiber is a chain of frames from the coroutine that runs or waits to the
  frame the fiber began with, and waits for exactly one thing; the ring holds one pending
  entry for each cell, and the finish mark once the root has ended. A step of one fiber
  keeps the part of the invariant that belongs to the others (\<open>fiber_ok_cong\<close>).
\<close>

subsection \<open>The ring\<close>

text \<open>
  \<open>pend\<close> are the user data of the entries that were prepared and whose completion has not
  been marked as seen. A completion belongs to a pending entry.
\<close>

definition pend_contract :: "'r uring_lib \<Rightarrow> ('r \<Rightarrow> udata multiset) \<Rightarrow> bool" where
  "pend_contract lib pend \<longleftrightarrow>
     (\<forall>r op ud n r'. get_sqe lib r = (Some n, r') \<longrightarrow>
        pend (sqe_prep lib n op (sqe_set_data lib n ud r')) = pend r + {#ud#}) \<and>
     (\<forall>r r'. get_sqe lib r = (None, r') \<longrightarrow> pend r' = pend r) \<and>
     (\<forall>r. pend (snd (ring_submit lib r)) = pend r) \<and>
     (\<forall>c r q r'. wait_cqe lib c r = (0, Some q, r') \<longrightarrow> pend r' = pend r \<and> user_data q \<in># pend r) \<and>
     (\<forall>q r. pend (cqe_seen lib q r) = pend r - {#user_data q#})"

lemma pend_get_sqe:
  assumes "pend_contract lib pend"
  shows "get_sqe lib r = (Some n, r') \<Longrightarrow>
      pend (sqe_prep lib n op (sqe_set_data lib n ud r')) = pend r + {#ud#}"
    and "get_sqe lib r = (None, r') \<Longrightarrow> pend r' = pend r"
    and "pend (snd (ring_submit lib r)) = pend r"
    and "pend (cqe_seen lib q r) = pend r - {#user_data q#}"
  using assms unfolding pend_contract_def by blast+

lemma pend_wait:
  assumes "pend_contract lib pend" and "wait_cqe lib c r = (0, Some q, r')"
  shows "pend r' = pend r \<and> user_data q \<in># pend r"
  using assms unfolding pend_contract_def by blast

definition seen_pend :: "cqe option \<Rightarrow> udata multiset" where
  "seen_pend s = (case s of None \<Rightarrow> {#} | Some q \<Rightarrow> {#user_data q#})"

text \<open>What is pending: an entry for each cell, and the finish mark.\<close>

definition ended_root :: "(fid \<rightharpoonup> 'v astate) \<Rightarrow> bool" where
  "ended_root S \<longleftrightarrow> (\<exists>r. S None = Some (A_finished r))"

definition pending :: "(addr \<rightharpoonup> io_data) \<Rightarrow> bool \<Rightarrow> udata multiset" where
  "pending cs fin = image_mset Ud_cell (mset_set (dom cs)) + (if fin then {#Ud_completed#} else {#})"

lemma in_pending:
  assumes "finite (dom cs)" and "u \<in># pending cs fin"
  shows "(\<exists>a. u = Ud_cell a \<and> cs a \<noteq> None) \<or> u = Ud_completed \<and> fin"
  using assms by (auto simp: pending_def split: if_splits)

lemma pending_upd:
  "finite (dom cs) \<Longrightarrow> cs a = None \<Longrightarrow> pending (cs(a \<mapsto> d)) fin = pending cs fin + {#Ud_cell a#}"
  by (simp add: pending_def domIff)

lemma pending_del:
  assumes "finite (dom cs)" and "cs a = Some d"
  shows "pending cs fin = pending (cs(a := None)) fin + {#Ud_cell a#}"
proof -
  have "cs = (cs(a := None))(a \<mapsto> d)" using assms(2) by auto
  moreover have "finite (dom (cs(a := None)))" using assms(1) by simp
  ultimately show ?thesis using pending_upd [of "cs(a := None)" a d fin] by simp
qed

lemma pending_put: "cs a = Some d \<Longrightarrow> pending (cs(a \<mapsto> d')) fin = pending cs fin"
  by (simp add: pending_def domIff insert_absorb)

lemma pending_fin: "pending cs True = pending cs False + {#Ud_completed#}"
  by (simp add: pending_def)

subsection \<open>Fibers\<close>

text \<open>A callee that runs or waits, with its caller.\<close>

definition inner :: "('r, 'v) rworld \<Rightarrow> fid \<Rightarrow> coro \<Rightarrow> coro \<Rightarrow> bool" where
  "inner w f h c \<longleftrightarrow>
     (\<exists>fr. frames w h = Some fr \<and> \<not> at_end fr \<and> ex (promise fr) = None \<and>
        context_ptr (promise fr) = Some (this_ctx w) \<and> caller (promise fr) = Some c \<and>
        \<not> is_daemon (flags (promise fr))) \<and> fib w h = f"

text \<open>The frame a fiber began with.\<close>

definition base :: "('r, 'v) rworld \<Rightarrow> fid \<Rightarrow> coro \<Rightarrow> bool" where
  "base w f h \<longleftrightarrow>
     (\<exists>fr. frames w h = Some fr \<and> \<not> at_end fr \<and> ex (promise fr) = None \<and>
        context_ptr (promise fr) = Some (this_ctx w) \<and>
        (case f of None \<Rightarrow> caller (promise fr) = None \<and> \<not> is_daemon (flags (promise fr))
                 | Some t \<Rightarrow> h = t \<and> is_daemon (flags (promise fr)))) \<and> fib w h = f"

fun chain ::
  "('r, 'v) rworld \<Rightarrow> fid \<Rightarrow> coro \<Rightarrow> coro list \<Rightarrow> (exn + 'v \<Rightarrow> 'v body) list \<Rightarrow> bool" where
  "chain w f h [] [] \<longleftrightarrow> base w f h"
| "chain w f h (c # cs) (k # ks) \<longleftrightarrow>
     inner w f h c \<and> conts w c = Some (Cont_call h k) \<and> chain w f c cs ks"
| "chain w f h _ _ \<longleftrightarrow> False"

text \<open>A launched task that has ended keeps its outcome; one that is awaited knows by whom.\<close>

definition kept :: "'v promise \<Rightarrow> exn + 'v \<Rightarrow> bool" where
  "kept p r \<longleftrightarrow> (case r of Inl e \<Rightarrow> ex p = Some e | Inr v \<Rightarrow> ex p = None \<and> pvalue p = Some v)"

definition ended :: "('r, 'v) rworld \<Rightarrow> fid \<Rightarrow> exn + 'v \<Rightarrow> bool" where
  "ended w f r \<longleftrightarrow>
     (\<forall>t. f = Some t \<longrightarrow> fib w t = f \<and>
        (\<exists>fr. frames w t = Some fr \<and> at_end fr \<and> is_daemon (flags (promise fr)) \<and> kept (promise fr) r))"

definition awaited :: "('r, 'v) rworld \<Rightarrow> coro \<Rightarrow> coro \<Rightarrow> bool" where
  "awaited w t h \<longleftrightarrow> t \<notin> owned w \<and> fib w t = Some t \<and>
     (\<exists>fr. frames w t = Some fr \<and> \<not> at_end fr \<and> is_daemon (flags (promise fr)) \<and>
        caller (promise fr) = Some h)"

text \<open>What the coroutine on top of a fiber is doing.\<close>

fun top_ok :: "('r, 'v) rworld \<Rightarrow> (coro \<times> 'v body) list \<Rightarrow> 'v astate \<Rightarrow> coro \<Rightarrow> bool" where
  "top_ok w act (A_run b ks) h \<longleftrightarrow> (h, b) \<in> set act"
| "top_ok w act (A_wait op k ks) h \<longleftrightarrow>
     (\<exists>a d. conts w h = Some (Cont_io a op k) \<and> cells w a = Some d \<and> io_handle d = Some h)"
| "top_ok w act (A_join t k ks) h \<longleftrightarrow> conts w h = Some (Cont_call t k) \<and> awaited w t h"
| "top_ok w act (A_finished r) h \<longleftrightarrow> False"

definition fiber_ok ::
  "('r, 'v) rworld \<Rightarrow> (coro \<times> 'v body) list \<Rightarrow> fid \<Rightarrow> 'v astate \<Rightarrow> coro \<times> coro list \<Rightarrow> bool" where
  "fiber_ok w act f st p \<longleftrightarrow>
     (case st of
        A_finished r \<Rightarrow> ended w f r
      | _ \<Rightarrow> (case p of (h, cs) \<Rightarrow>
          chain w f h cs (stack_of st) \<and> distinct (h # cs) \<and> top_ok w act st h))"

lemma fiber_ok_simps [simp]:
  "fiber_ok w act f (A_finished r) p \<longleftrightarrow> ended w f r"
  "fiber_ok w act f (A_run b ks) p \<longleftrightarrow>
     chain w f (fst p) (snd p) ks \<and> distinct (fst p # snd p) \<and> (fst p, b) \<in> set act"
  "fiber_ok w act f (A_wait op k ks) p \<longleftrightarrow>
     chain w f (fst p) (snd p) ks \<and> distinct (fst p # snd p) \<and> top_ok w act (A_wait op k ks) (fst p)"
  "fiber_ok w act f (A_join t kr ks) p \<longleftrightarrow>
     chain w f (fst p) (snd p) ks \<and> distinct (fst p # snd p) \<and> top_ok w act (A_join t kr ks) (fst p)"
  by (auto simp: fiber_ok_def split: prod.splits)

lemma chain_fib: "chain w f h cs ks \<Longrightarrow> x \<in> set (h # cs) \<Longrightarrow> fib w x = f \<and> frames w x \<noteq> None"
  by (induction w f h cs ks rule: chain.induct) (auto simp: inner_def base_def)

lemma chain_base: "chain w f h cs ks \<Longrightarrow> base w f (last (h # cs))"
  by (induction w f h cs ks rule: chain.induct) auto

lemma chain_length: "chain w f h cs ks \<Longrightarrow> length cs = length ks"
  by (induction w f h cs ks rule: chain.induct) auto

lemma chain_head:
  assumes "chain w f h cs ks"
  obtains fr where "frames w h = Some fr" "\<not> at_end fr" "ex (promise fr) = None"
    "context_ptr (promise fr) = Some (this_ctx w)" "fib w h = f"
  using assms by (cases "(w, f, h, cs, ks)" rule: chain.cases) (auto simp: inner_def base_def)

text \<open>
  What a step of another fiber leaves alone: frames may only get a new caller, and only
  those of launched tasks.
\<close>

definition same_frame :: "('r, 'v) rworld \<Rightarrow> ('r, 'v) rworld \<Rightarrow> coro \<Rightarrow> bool" where
  "same_frame w w' x \<longleftrightarrow>
     frames w' x = frames w x \<or>
     (\<exists>fr c. frames w x = Some fr \<and> is_daemon (flags (promise fr)) \<and>
        frames w' x = Some (fr\<lparr>promise := (promise fr)\<lparr>caller := c\<rparr>\<rparr>))"

lemma same_frame_refl [simp]: "frames w' x = frames w x \<Longrightarrow> same_frame w w' x"
  by (simp add: same_frame_def)

lemma inner_cong:
  "inner w f h c \<Longrightarrow> same_frame w w' h \<Longrightarrow> fib w' h = fib w h \<Longrightarrow> this_ctx w' = this_ctx w \<Longrightarrow>
   inner w' f h c"
  by (auto simp: inner_def same_frame_def)

lemma base_cong:
  "base w f h \<Longrightarrow> same_frame w w' h \<Longrightarrow> fib w' h = fib w h \<Longrightarrow> this_ctx w' = this_ctx w \<Longrightarrow>
   base w' f h"
  by (auto simp: base_def same_frame_def split: option.splits)

lemma chain_cong:
  assumes "chain w f h cs ks"
    and "\<And>x. x \<in> set (h # cs) \<Longrightarrow> same_frame w w' x \<and> fib w' x = fib w x"
    and "\<And>x. x \<in> set cs \<Longrightarrow> conts w' x = conts w x" and "this_ctx w' = this_ctx w"
  shows "chain w' f h cs ks"
  using assms
  by (induction w f h cs ks rule: chain.induct) (auto intro: inner_cong base_cong)

lemma fiber_ok_cong:
  assumes ok: "fiber_ok w act f st p"
    and x: "\<And>x. fib w x = f \<Longrightarrow> frames w x \<noteq> None \<Longrightarrow>
      same_frame w w' x \<and> fib w' x = fib w x \<and> conts w' x = conts w x"
    and cell: "\<And>a d h. cells w a = Some d \<Longrightarrow> io_handle d = Some h \<Longrightarrow> fib w h = f \<Longrightarrow>
      cells w' a = Some d"
    and aw: "\<And>t h. awaited w t h \<Longrightarrow> fib w h = f \<Longrightarrow> awaited w' t h"
    and act: "\<And>h b. (h, b) \<in> set act \<Longrightarrow> fib w h = f \<Longrightarrow> (h, b) \<in> set act'"
    and ctx: "this_ctx w' = this_ctx w"
  shows "fiber_ok w' act' f st p"
proof (cases "\<exists>r. st = A_finished r")
  case True
  then obtain r where st: "st = A_finished r" by blast
  with ok have e: "ended w f r" by simp
  have "ended w' f r" unfolding ended_def
  proof (intro allI impI)
    fix t
    assume t: "f = Some t"
    with e obtain fr where fr: "fib w t = f" "frames w t = Some fr" "at_end fr"
      "is_daemon (flags (promise fr))" "kept (promise fr) r" by (auto simp: ended_def)
    from x [of t] fr(1,2) have "same_frame w w' t" "fib w' t = f" by auto
    with fr show "fib w' t = f \<and> (\<exists>fr. frames w' t = Some fr \<and> at_end fr \<and>
        is_daemon (flags (promise fr)) \<and> kept (promise fr) r)"
      by (auto simp: same_frame_def kept_def split: sum.splits)
  qed
  with st show ?thesis by simp
next
  case False
  obtain h cs where p: "p = (h, cs)" by (cases p)
  from ok False p have c: "chain w f h cs (stack_of st)" and d: "distinct (h # cs)"
    and t: "top_ok w act st h" by (auto simp: fiber_ok_def split: astate.splits)
  have fx: "fib w z = f \<and> frames w z \<noteq> None" if "z \<in> set (h # cs)" for z
    using chain_fib [OF c that] .
  from fx [of h] have h: "fib w h = f" "frames w h \<noteq> None" by auto
  have "chain w' f h cs (stack_of st)"
    using chain_cong [OF c _ _ ctx] x fx by auto
  moreover have "top_ok w' act' st h"
    using t x [OF h] h(1) by (cases st) (auto dest: cell aw act)
  ultimately show ?thesis using d p False by (auto simp: fiber_ok_def split: astate.splits)
qed

subsection \<open>The invariant\<close>

text \<open>
  \<open>P f\<close> is the coroutine on top of fiber \<open>f\<close> and its callers. Every active coroutine, every
  cell and every awaited task belongs to the fiber that says so; a task that is owned has
  been launched and is awaited by nobody.
\<close>

definition good ::
  "('r, 'v) rworld \<Rightarrow> (coro \<times> 'v body) list \<Rightarrow> (fid \<rightharpoonup> 'v astate) \<Rightarrow>
   (fid \<Rightarrow> coro \<times> coro list) \<Rightarrow> bool" where
  "good w act S P \<longleftrightarrow>
     (\<forall>f st. S f = Some st \<longrightarrow> fiber_ok w act f st (P f)) \<and>
     distinct (map fst act) \<and>
     (\<forall>h b. (h, b) \<in> set act \<longrightarrow> (\<exists>ks. S (fib w h) = Some (A_run b ks) \<and> fst (P (fib w h)) = h)) \<and>
     finite (dom (cells w)) \<and>
     (\<forall>a. cells w a \<noteq> None \<longrightarrow>
        (\<exists>f op k ks. S f = Some (A_wait op k ks) \<and> conts w (fst (P f)) = Some (Cont_io a op k))) \<and>
     (\<forall>t c. awaited w t c \<longrightarrow>
        S (Some t) \<noteq> None \<and> (\<exists>kr ks. S (fib w c) = Some (A_join t kr ks) \<and> fst (P (fib w c)) = c)) \<and>
     (\<forall>t. t \<in> owned w \<longrightarrow>
        S (Some t) \<noteq> None \<and> (\<forall>fr. frames w t = Some fr \<longrightarrow> caller (promise fr) = None)) \<and>
     S None \<noteq> None"

lemma goodD:
  assumes "good w act S P"
  shows "S f = Some st \<Longrightarrow> fiber_ok w act f st (P f)"
    and "distinct (map fst act)"
    and "(h, b) \<in> set act \<Longrightarrow> \<exists>ks. S (fib w h) = Some (A_run b ks) \<and> fst (P (fib w h)) = h"
    and "finite (dom (cells w))"
    and "cells w a \<noteq> None \<Longrightarrow>
      \<exists>f op k ks. S f = Some (A_wait op k ks) \<and> conts w (fst (P f)) = Some (Cont_io a op k)"
    and "awaited w t c \<Longrightarrow> S (Some t) \<noteq> None"
    and "awaited w t c \<Longrightarrow> \<exists>kr ks. S (fib w c) = Some (A_join t kr ks) \<and> fst (P (fib w c)) = c"
    and "t \<in> owned w \<Longrightarrow> S (Some t) \<noteq> None"
    and "t \<in> owned w \<Longrightarrow> frames w t = Some fr \<Longrightarrow> caller (promise fr) = None"
    and "S None \<noteq> None"
  using assms unfolding good_def by blast+

text \<open>The top of an unfinished fiber is a coroutine of that fiber.\<close>

lemma top_fiber:
  assumes "good w act S P" and "S f = Some st" and "\<And>r. st \<noteq> A_finished r"
  shows "fib w (fst (P f)) = f" and "frames w (fst (P f)) \<noteq> None"
    and "chain w f (fst (P f)) (snd (P f)) (stack_of st)" and "distinct (fst (P f) # snd (P f))"
proof -
  from goodD(1) [OF assms(1,2)] assms(3)
  show c: "chain w f (fst (P f)) (snd (P f)) (stack_of st)" and "distinct (fst (P f) # snd (P f))"
    by (auto simp: fiber_ok_def split: astate.splits)
  from chain_fib [OF c] show "fib w (fst (P f)) = f" "frames w (fst (P f)) \<noteq> None" by auto
qed

lemma launched_frame:
  assumes "good w act S P" and "S (Some t) \<noteq> None"
  shows "\<exists>fr. frames w t = Some fr \<and> is_daemon (flags (promise fr)) \<and> fib w t = Some t \<and>
    (if at_end fr then \<exists>r. S (Some t) = Some (A_finished r) \<and> kept (promise fr) r
     else ex (promise fr) = None \<and> context_ptr (promise fr) = Some (this_ctx w) \<and>
       (\<forall>r. S (Some t) \<noteq> Some (A_finished r)))"
proof -
  from assms(2) obtain st where st: "S (Some t) = Some st" by blast
  show ?thesis
  proof (cases "\<exists>r. st = A_finished r")
    case True
    with goodD(1) [OF assms(1) st] st show ?thesis by (auto simp: ended_def)
  next
    case False
    then have "base w (Some t) (last (fst (P (Some t)) # snd (P (Some t))))"
      by (intro chain_base [OF top_fiber(3) [OF assms(1) st]]) simp
    with False st show ?thesis by (auto simp: base_def)
  qed
qed

text \<open>The fiber of a cell's handle waits for the cell.\<close>

lemma cell_fiber:
  assumes G: "good w act S P" and d: "cells w a = Some d"
  shows "\<exists>f op k ks h. S f = Some (A_wait op k ks) \<and> P f = (h, snd (P f)) \<and> io_handle d = Some h \<and>
    fib w h = f \<and> conts w h = Some (Cont_io a op k)"
proof -
  from goodD(5) [OF G, of a] d obtain f op k ks where
    f: "S f = Some (A_wait op k ks)" "conts w (fst (P f)) = Some (Cont_io a op k)" by auto
  from goodD(1) [OF G f(1)] f(2) d have "io_handle d = Some (fst (P f))" by auto
  moreover have "fib w (fst (P f)) = f" by (rule top_fiber [OF G f(1)]) simp
  ultimately show ?thesis using f by (metis surjective_pairing)
qed

text \<open>One fiber moves.\<close>

lemma good_step:
  assumes G: "good w act S P" and Sg: "S g = Some st"
    and own: "fiber_ok w' act' g st' p'"
    and act1: "\<And>h b. (h, b) \<in> set act \<Longrightarrow> fib w h \<noteq> g \<Longrightarrow> (h, b) \<in> set act'"
    and act2: "\<And>h b. (h, b) \<in> set act' \<Longrightarrow>
      (h, b) \<in> set act \<and> fib w h \<noteq> g \<or> (\<exists>ks. st' = A_run b ks \<and> fst p' = h \<and> fib w' h = g)"
    and dist: "distinct (map fst act')"
    and x: "\<And>x. frames w x \<noteq> None \<Longrightarrow> fib w x \<noteq> g \<Longrightarrow> same_frame w w' x \<and> conts w' x = conts w x"
    and fb: "\<And>x. frames w x \<noteq> None \<Longrightarrow> fib w' x = fib w x"
    and ctx: "this_ctx w' = this_ctx w"
    and fin: "finite (dom (cells w'))"
    and cell1: "\<And>a d h. cells w a = Some d \<Longrightarrow> io_handle d = Some h \<Longrightarrow> fib w h \<noteq> g \<Longrightarrow>
      cells w' a = Some d"
    and cell2: "\<And>a. cells w' a \<noteq> None \<Longrightarrow>
      (\<exists>d h. cells w a = Some d \<and> io_handle d = Some h \<and> fib w h \<noteq> g) \<or>
      (\<exists>op k ks. st' = A_wait op k ks \<and> conts w' (fst p') = Some (Cont_io a op k))"
    and aw1: "\<And>t c. awaited w t c \<Longrightarrow> fib w c \<noteq> g \<Longrightarrow> awaited w' t c"
    and aw2: "\<And>t c. awaited w' t c \<Longrightarrow>
      awaited w t c \<and> fib w c \<noteq> g \<or> 
      (\<exists>kr ks. st' = A_join t kr ks \<and> fst p' = c \<and> fib w' c = g) \<and> S (Some t) \<noteq> None"
    and ow: "\<And>t fr'. t \<in> owned w' \<Longrightarrow> frames w' t = Some fr' \<Longrightarrow>
      \<exists>fr. frames w t = Some fr \<and> caller (promise fr') = caller (promise fr)"
    and ow': "owned w' \<subseteq> owned w"
  shows "good w' act' (S(g \<mapsto> st')) (P(g := p'))"
proof -
  have top: "fib w' (fst (P f)) = f \<and> conts w' (fst (P f)) = conts w (fst (P f))"
    if "S f = Some st" "f \<noteq> g" "\<And>r. st \<noteq> A_finished r" for f st
    using top_fiber(1,2) [OF G that(1,3)] fb x that(2) by auto
  show ?thesis unfolding good_def
  proof (intro conjI allI impI)
    fix f s
    assume f: "(S(g \<mapsto> st')) f = Some s"
    show "fiber_ok w' act' f s ((P(g := p')) f)"
    proof (cases "f = g")
      case True
      with f own show ?thesis by simp
    next
      case False
      with f have "fiber_ok w act f s (P f)" using goodD(1) [OF G] by simp
      from fiber_ok_cong [OF this, of w' act'] x fb cell1 aw1 act1 ctx False show ?thesis by auto
    qed
  next
    fix h b
    assume "(h, b) \<in> set act'"
    from act2 [OF this] show "\<exists>ks. (S(g \<mapsto> st')) (fib w' h) = Some (A_run b ks) \<and>
        fst ((P(g := p')) (fib w' h)) = h"
    proof
      assume *: "(h, b) \<in> set act \<and> fib w h \<noteq> g"
      with goodD(3) [OF G] obtain ks where ks: "S (fib w h) = Some (A_run b ks)" "fst (P (fib w h)) = h"
        by blast
      from top [OF ks(1)] * ks show ?thesis by auto
    qed auto
  next
    fix a
    assume "cells w' a \<noteq> None"
    from cell2 [OF this] show "\<exists>f op k ks. (S(g \<mapsto> st')) f = Some (A_wait op k ks) \<and>
        conts w' (fst ((P(g := p')) f)) = Some (Cont_io a op k)"
    proof
      assume "\<exists>d h. cells w a = Some d \<and> io_handle d = Some h \<and> fib w h \<noteq> g"
      then obtain d h where d: "cells w a = Some d" "io_handle d = Some h" "fib w h \<noteq> g" by blast
      from cell_fiber [OF G d(1)] d(2) obtain f op k ks where f: "S f = Some (A_wait op k ks)"
        "P f = (h, snd (P f))" "fib w h = f" "conts w h = Some (Cont_io a op k)" by auto
      from f(2) have "fst (P f) = h" by (metis fst_conv)
      with top [OF f(1)] f d(3) show ?thesis by (metis astate.distinct(9) fun_upd_apply)
    qed auto
  next
    fix t c
    assume "awaited w' t c"
    from aw2 [OF this] show "(S(g \<mapsto> st')) (Some t) \<noteq> None" using goodD(6) [OF G] by auto
  next
    fix t c
    assume "awaited w' t c"
    from aw2 [OF this] show "\<exists>kr ks. (S(g \<mapsto> st')) (fib w' c) = Some (A_join t kr ks) \<and>
        fst ((P(g := p')) (fib w' c)) = c"
    proof
      assume *: "awaited w t c \<and> fib w c \<noteq> g"
      with goodD(7) [OF G] obtain kr ks where ks: "S (fib w c) = Some (A_join t kr ks)"
        "fst (P (fib w c)) = c" by blast
      from top [OF ks(1)] * ks show ?thesis by auto
    qed auto
  next
    fix t fr'
    assume "t \<in> owned w'" "frames w' t = Some fr'"
    from ow [OF this] obtain fr where "frames w t = Some fr" "caller (promise fr') = caller (promise fr)"
      by blast
    with goodD(9) [OF G] \<open>t \<in> owned w'\<close> ow' show "caller (promise fr') = None" by auto
  next
    fix t
    assume "t \<in> owned w'"
    with ow' goodD(8) [OF G] show "(S(g \<mapsto> st')) (Some t) \<noteq> None" by auto
  next
    show "(S(g \<mapsto> st')) None \<noteq> None" using goodD(10) [OF G] by auto
  qed (use dist fin in auto)
qed

text \<open>The running fiber, and what it has nothing to do with.\<close>

lemma running:
  assumes G: "good w ((h, b) # stk) S P"
  obtains ks where "S (fib w h) = Some (A_run b ks)" and "fst (P (fib w h)) = h"
    and "chain w (fib w h) h (snd (P (fib w h))) ks" and "distinct (h # snd (P (fib w h)))"
proof -
  from goodD(3) [OF G, of h b] obtain ks where ks: "S (fib w h) = Some (A_run b ks)"
    "fst (P (fib w h)) = h" by auto
  from top_fiber(3,4) [OF G ks(1)] ks that show thesis by auto
qed

lemma not_running:
  assumes G: "good w ((h, b) # stk) S P"
  shows "(h', b') \<in> set stk \<Longrightarrow> fib w h' \<noteq> fib w h \<and> frames w h' \<noteq> None"
    and "cells w a = Some d \<Longrightarrow> \<exists>h'. io_handle d = Some h' \<and> fib w h' \<noteq> fib w h"
    and "awaited w t c \<Longrightarrow> fib w c \<noteq> fib w h"
proof -
  obtain ks where ks: "S (fib w h) = Some (A_run b ks)" "fst (P (fib w h)) = h"
    using running [OF G] by metis
  show "fib w h' \<noteq> fib w h \<and> frames w h' \<noteq> None" if "(h', b') \<in> set stk"
  proof -
    from that goodD(3) [OF G, of h' b'] obtain ks' where ks': "S (fib w h') = Some (A_run b' ks')"
      "fst (P (fib w h')) = h'" by auto
    have "h' \<noteq> h" using that goodD(2) [OF G] by (auto simp: image_iff)
    with ks ks' top_fiber(2) [OF G ks'(1)] show ?thesis by auto
  qed
  show "\<exists>h'. io_handle d = Some h' \<and> fib w h' \<noteq> fib w h" if "cells w a = Some d"
    using cell_fiber [OF G that] ks by auto
  show "fib w c \<noteq> fib w h" if "awaited w t c"
  proof
    assume "fib w c = fib w h"
    with goodD(7) [OF G that] ks(1) show False by simp
  qed
qed

lemma good_run:
  assumes G: "good w ((h, b) # stk) S P" and g: "g = fib w h"
    and own: "fiber_ok w' act' g st' p'"
    and act': "act' = stk \<or>
      (\<exists>h' b' ks. act' = (h', b') # stk \<and> st' = A_run b' ks \<and> fst p' = h' \<and> fib w' h' = g)"
    and x: "\<And>x. frames w x \<noteq> None \<Longrightarrow> fib w x \<noteq> g \<Longrightarrow> same_frame w w' x \<and> conts w' x = conts w x"
    and fb: "\<And>x. frames w x \<noteq> None \<Longrightarrow> fib w' x = fib w x"
    and ctx: "this_ctx w' = this_ctx w"
    and fin: "finite (dom (cells w'))"
    and cell1: "\<And>a d. cells w a = Some d \<Longrightarrow> cells w' a = Some d"
    and cell2: "\<And>a. cells w' a \<noteq> None \<Longrightarrow> cells w a \<noteq> None \<or>
      (\<exists>op k ks. st' = A_wait op k ks \<and> conts w' (fst p') = Some (Cont_io a op k))"
    and aw1: "\<And>t c. awaited w t c \<Longrightarrow> awaited w' t c"
    and aw2: "\<And>t c. awaited w' t c \<Longrightarrow>
      awaited w t c \<or> 
      (\<exists>kr ks. st' = A_join t kr ks \<and> fst p' = c \<and> fib w' c = g) \<and> S (Some t) \<noteq> None"
    and ow: "\<And>t fr'. t \<in> owned w' \<Longrightarrow> frames w' t = Some fr' \<Longrightarrow>
      \<exists>fr. frames w t = Some fr \<and> caller (promise fr') = caller (promise fr)"
    and ow': "owned w' \<subseteq> owned w"
  shows "good w' act' (S(g \<mapsto> st')) (P(g := p'))"
proof -
  obtain ks where ks: "S g = Some (A_run b ks)" using running [OF G] g by metis
  note nr = not_running [OF G, folded g]
  have dist: "distinct (map fst act')"
  proof -
    have "h' \<notin> fst ` set stk" if "fib w' h' = g" for h' using nr(1) fb that by fastforce
      then have "distinct (map fst ((h', b') # stk))" if "fib w' h' = g" for h' b'
      using that goodD(2) [OF G] by simp
    with act' goodD(2) [OF G] show ?thesis by (elim disjE exE conjE) simp_all
  qed
  show ?thesis
  proof (rule good_step [OF G ks own])
    show "(h', b') \<in> set act'" if "(h', b') \<in> set ((h, b) # stk)" "fib w h' \<noteq> g" for h' b'
      using that act' g by auto
    show "(h', b') \<in> set ((h, b) # stk) \<and> fib w h' \<noteq> g \<or>
        (\<exists>ks. st' = A_run b' ks \<and> fst p' = h' \<and> fib w' h' = g)" if "(h', b') \<in> set act'" for h' b'
      using that act' nr(1) by auto
    show "(\<exists>d h. cells w a = Some d \<and> io_handle d = Some h \<and> fib w h \<noteq> g) \<or>
        (\<exists>op k ks. st' = A_wait op k ks \<and> conts w' (fst p') = Some (Cont_io a op k))"
      if "cells w' a \<noteq> None" for a using cell2 [OF that] nr(2) by blast
    show "awaited w t c \<and> fib w c \<noteq> g \<or> 
        (\<exists>kr ks. st' = A_join t kr ks \<and> fst p' = c \<and> fib w' c = g) \<and> S (Some t) \<noteq> None"
      if "awaited w' t c" for t c using aw2 [OF that] nr(3) by blast
  qed (rule dist, erule (1) x, erule fb, rule ctx, rule fin, erule cell1, erule aw1, erule (1) ow, rule ow')
qed

text \<open>The ring is no part of \<open>good\<close>.\<close>

lemma good_ring: "good w act S P \<Longrightarrow> good (w\<lparr>ring := r\<rparr>) act S P"
proof -
  assume G: "good w act S P"
  have aw: "awaited (w\<lparr>ring := r\<rparr>) t c \<longleftrightarrow> awaited w t c" for t c by (simp add: awaited_def)
  have "fiber_ok (w\<lparr>ring := r\<rparr>) act f st p" if "fiber_ok w act f st p" for f st p
    using that by (rule fiber_ok_cong) (simp_all add: aw)
  with G show ?thesis unfolding good_def aw by simp
qed

lemma good_leave: "good w act S P \<Longrightarrow> good (leave lib s w) act S P"
  by (auto simp: leave_def good_ring split: option.splits)

lemma leave_simps [simp]:
  "frames (leave lib s w) = frames w" "conts (leave lib s w) = conts w"
  "cells (leave lib s w) = cells w" "this_ctx (leave lib s w) = this_ctx w"
  "fib (leave lib s w) = fib w" "owned (leave lib s w) = owned w"
  by (simp_all add: leave_def split: option.splits)

text \<open>The relation between a configuration and the states of the fibers.\<close>

fun seen_of :: "'v control \<Rightarrow> udata multiset" where
  "seen_of (Run s stk h b) = seen_pend s"
| "seen_of _ = {#}"

definition sim ::
  "('r \<Rightarrow> udata multiset) \<Rightarrow> 'v control \<times> ('r, 'v) rworld \<Rightarrow> (fid \<rightharpoonup> 'v astate) \<Rightarrow> bool" where
  "sim pend cfg S \<longleftrightarrow>
     (case cfg of (ctl, w) \<Rightarrow>
        (\<exists>P. good w (active ctl) S P) \<and>
        (if ctl = Halted then ended_root S \<and> pend (ring w) = pending (cells w) False
         else pend (ring w) = pending (cells w) (ended_root S) + seen_of ctl))"

lemma sim_runI:
  "good w ((h, b) # stk) S P \<Longrightarrow> pend (ring w) = pending (cells w) (ended_root S) + seen_pend s \<Longrightarrow>
   sim pend (Run s stk h b, w) S"
  by (auto simp: sim_def)

lemma sim_runE:
  assumes "sim pend (Run s stk h b, w) S"
  obtains P where "good w ((h, b) # stk) S P"
    and "pend (ring w) = pending (cells w) (ended_root S) + seen_pend s"
  using assms by (auto simp: sim_def)

lemma sim_return_to:
  assumes p: "pend_contract lib pend" and G: "good w stk S P"
    and r: "pend (ring w) = pending (cells w) (ended_root S) + seen_pend s"
  shows "sim pend (return_to lib s stk w) S"
proof (cases stk)
  case Nil
  have "pend (ring (leave lib s w)) = pending (cells w) (ended_root S)"
    using r by (auto simp: leave_def seen_pend_def pend_get_sqe [OF p] split: option.splits)
  with G Nil show ?thesis by (auto simp: sim_def return_to_def intro: good_leave)
next
  case (Cons a stk')
  with G r show ?thesis by (cases a) (auto simp: return_to_def intro: sim_runI)
qed

text \<open>A running fiber does not make the root end.\<close>

lemma ended_root_upd:
  "S f = Some (A_run b ks) \<Longrightarrow> (\<And>r. st' \<noteq> A_finished r) \<Longrightarrow> ended_root (S(f \<mapsto> st')) = ended_root S"
  by (auto simp: ended_root_def)

end
