(* ===== verification/Runtime_Steps.thy ===== *)
theory Runtime_Steps
  imports Runtime_Sim
begin

section \<open>Each step of the runtime is a step of its fibers\<close>

text \<open>One lemma for each rule of \<open>rstep\<close>, and the simulation they add up to.\<close>

subsection \<open>Steps that keep the coroutine running\<close>

lemma good_body:
  assumes G: "good w ((h, b) # stk) S P" and "S (fib w h) = Some (A_run b ks)"
  shows "good w ((h, b') # stk) (S(fib w h \<mapsto> A_run b' ks)) P"
proof -
  obtain ks' where ks: "S (fib w h) = Some (A_run b ks')" "fst (P (fib w h)) = h"
    "chain w (fib w h) h (snd (P (fib w h))) ks'" "distinct (h # snd (P (fib w h)))"
    using running [OF G] by metis
  have "good w ((h, b') # stk) (S(fib w h \<mapsto> A_run b' ks)) (P(fib w h := P (fib w h)))"
    by (rule good_run [OF G refl]) (use ks assms(2) goodD(4) [OF G] in auto)
  then show ?thesis by simp
qed

lemma sim_body:
  assumes sim: "sim pend (Run s stk h b, w) S"
    and step: "\<And>ks. astep (this_ctx w) (A_run b ks) es (A_run b' ks)" and es: "list_all own es"
  shows "\<exists>S'. gmoves (this_ctx w) S (map (Event (fib w h)) es) S' \<and> sim pend (Run s stk h b', w) S'"
proof -
  from sim obtain P where G: "good w ((h, b) # stk) S P"
    and r: "pend (ring w) = pending (cells w) (ended_root S) + seen_pend s" by (rule sim_runE)
  obtain ks where ks: "S (fib w h) = Some (A_run b ks)" using running [OF G] by metis
  from gm_one [OF g_own [of S, OF ks step es]] sim_runI [OF good_body [OF G ks, of b'], of pend s] r ks
  show ?thesis by (auto simp: ended_root_upd)
qed

lemma sim_ring:
  assumes "sim pend (Run s stk h b, w) S" and "pend rg = pend (ring w)"
  shows "sim pend (Run s stk h b, w\<lparr>ring := rg\<rparr>) S"
proof -
  from assms(1) obtain P where G: "good w ((h, b) # stk) S P"
    and r: "pend (ring w) = pending (cells w) (ended_root S) + seen_pend s" by (rule sim_runE)
  from good_ring [OF G] r assms(2) show ?thesis by (intro sim_runI [of _ _ _ _ _ P]) simp_all
qed

lemma sim_io_ready:
  assumes p: "pend_contract lib pend" and sim: "sim pend (Run s stk h (Co_io op k), w) S"
    and a: "cells w a = None" and new: "awaiter_new lib op a w = (aw, w1)" and rd: "await_ready aw"
  shows "\<exists>S'. gmoves (this_ctx w) S [Event (fib w h) (Io op i)] S' \<and>
    sim pend (Run s stk h (k i), w1\<lparr>cells := (cells w1)(a := None)\<rparr>) S'"
proof -
  obtain rg where g: "get_sqe lib (ring w) = (None, rg)"
    using new rd
    by (cases "get_sqe lib (ring w)") (auto simp: awaiter_new_def await_ready_def split: option.splits)
  have w': "w1\<lparr>cells := (cells w1)(a := None)\<rparr> = w\<lparr>ring := rg\<rparr>"
    using new g a by (auto simp: awaiter_new_def fun_upd_idem)
  from sim_body [OF sim a_io_ready, of i] obtain S' where
    "gmoves (this_ctx w) S [Event (fib w h) (Io op i)] S'" "sim pend (Run s stk h (k i), w) S'" by auto
  with sim_ring [OF this(2), of rg] pend_get_sqe(2) [OF p g] show ?thesis unfolding w' by auto
qed

lemma sim_context:
  assumes sim: "sim pend (Run s stk h (Co_context kc), w) S" and c: "context_await h w = Ret c"
  shows "\<exists>S'. gmoves (this_ctx w) S [] S' \<and> sim pend (Run s stk h (kc c), w) S'"
proof -
  from sim obtain P where G: "good w ((h, Co_context kc) # stk) S P" by (rule sim_runE)
  obtain ks where "chain w (fib w h) h (snd (P (fib w h))) ks" using running [OF G] by metis
  then obtain fr where "frames w h = Some fr" "context_ptr (promise fr) = Some (this_ctx w)"
    by (rule chain_head)
  with c have "c = Some (this_ctx w)" by (auto simp: context_await_def)
  with sim_body [OF sim a_context] show ?thesis by auto
qed

subsection \<open>Calls\<close>

lemma sim_call:
  assumes sim: "sim pend (Run s stk h (Co_call b kr), w) S" and fresh: "frames w t = None"
    and new: "task_new (Some t) w = Ret (tk, w1)"
    and tr: "await_transform_rvalue tk = (callee, tk')"
    and susp: "task_await_suspend callee h w1 = Ret (Resume t, w2)"
  shows "\<exists>S'. gmoves (this_ctx w) S [] S' \<and>
    sim pend (Run s stk t b, w2\<lparr>conts := (conts w2)(h \<mapsto> Cont_call t kr), fib := (fib w2)(t := fib w h)\<rparr>) S'"
proof -
  from sim obtain P where G: "good w ((h, Co_call b kr) # stk) S P"
    and r: "pend (ring w) = pending (cells w) (ended_root S) + seen_pend s" by (rule sim_runE)
  obtain ks where ks: "S (fib w h) = Some (A_run (Co_call b kr) ks)" "fst (P (fib w h)) = h"
    "chain w (fib w h) h (snd (P (fib w h))) ks" "distinct (h # snd (P (fib w h)))"
    using running [OF G] by metis
  obtain fr where fr: "frames w h = Some fr" "context_ptr (promise fr) = Some (this_ctx w)"
    using chain_head [OF ks(3)] by metis
  have ht: "h \<noteq> t" using fr fresh by auto
  have callee: "callee = Some t" using new tr
    by (auto simp: task_new_def await_transform_rvalue_def task_take_handle_def)
  have w1: "w1 = w\<lparr>frames := (frames w)(t \<mapsto> \<lparr>promise = new_promise, at_end = False\<rparr>)\<rparr>"
    using new by (simp add: task_new_def)
  let ?p = "new_promise\<lparr>caller := Some h, context_ptr := context_ptr (promise fr)\<rparr>"
  have w2: "w2 = put_promise t \<lparr>promise = new_promise, at_end = False\<rparr> ?p w1"
    using susp callee fr ht
    by (auto simp: task_await_suspend_def w1 Let_def new_promise_def split: if_splits)
  let ?w = "w2\<lparr>conts := (conts w2)(h \<mapsto> Cont_call t kr), fib := (fib w2)(t := fib w h)\<rparr>"
  let ?g = "fib w h"
  have f: "frames ?w = (frames w)(t \<mapsto> \<lparr>promise = ?p, at_end = False\<rparr>)"
    "conts ?w = (conts w)(h \<mapsto> Cont_call t kr)" "this_ctx ?w = this_ctx w" "owned ?w = owned w"
    "cells ?w = cells w" "ring ?w = ring w" "fib ?w = (fib w)(t := ?g)"
    by (simp_all add: w2 w1 put_promise_def)
  have tcs: "t \<notin> set (h # snd (P ?g))" using chain_fib [OF ks(3), of t] fresh by auto
  have "chain ?w ?g h (snd (P ?g)) ks"
    by (rule chain_cong [OF ks(3)]) (use tcs ks(4) f in \<open>auto intro!: same_frame_refl\<close>)
  moreover have "inner ?w ?g t h" using fr(2) by (simp add: inner_def f new_promise_def is_daemon_bit)
  ultimately have ch: "chain ?w ?g t (h # snd (P ?g)) (kr # ks)" using ht f(2) by simp
  have aw: "awaited ?w t' c \<longleftrightarrow> awaited w t' c" for t' c
    using fresh by (auto simp: awaited_def f new_promise_def is_daemon_bit)
  have "good ?w ((t, b) # stk) (S(?g \<mapsto> A_run b (kr # ks))) (P(?g := (t, h # snd (P ?g))))"
  proof (rule good_run [OF G refl])
    show "fiber_ok ?w ((t, b) # stk) ?g (A_run b (kr # ks)) (t, h # snd (P ?g))"
      using ch tcs ks(4) by auto
    show "\<exists>fr. frames w t' = Some fr \<and> caller (promise fr') = caller (promise fr)"
      if "t' \<in> owned ?w" "frames ?w t' = Some fr'" for t' fr'
      using that launched_frame [OF G goodD(8) [OF G], of t'] fresh f by (auto split: if_splits)
    show "same_frame w ?w x \<and> conts ?w x = conts w x" if "frames w x \<noteq> None" "fib w x \<noteq> ?g" for x
      using that fresh by (auto simp: f intro!: same_frame_refl)
  qed (use aw f goodD(4) [OF G] fresh in auto)
  from sim_runI [OF this, of pend s] gm_one [OF g_own [of S, OF ks(1) a_call]] r ks(1) f(5,6)
  show ?thesis by (auto simp: ended_root_upd)
qed

subsection \<open>Waiting for a submission\<close>

lemma sim_io_suspend:
  assumes p: "pend_contract lib pend" and sim: "sim pend (Run s stk h (Co_io op k), w) S"
    and a: "cells w a = None" and new: "awaiter_new lib op a w = (aw, w1)" and nr: "\<not> await_ready aw"
    and susp: "await_suspend lib aw h w1 = Ret w2"
  shows "\<exists>S'. gmoves (this_ctx w) S [] S' \<and>
    sim pend (return_to lib s stk (w2\<lparr>conts := (conts w2)(h \<mapsto> Cont_io a op k)\<rparr>)) S'"
proof -
  from sim obtain P where G: "good w ((h, Co_io op k) # stk) S P"
    and r: "pend (ring w) = pending (cells w) (ended_root S) + seen_pend s" by (rule sim_runE)
  obtain ks where ks: "S (fib w h) = Some (A_run (Co_io op k) ks)" "fst (P (fib w h)) = h"
    "chain w (fib w h) h (snd (P (fib w h))) ks" "distinct (h # snd (P (fib w h)))"
    using running [OF G] by metis
  obtain n rg where g: "get_sqe lib (ring w) = (Some n, rg)"
    using new nr
    by (cases "get_sqe lib (ring w)") (auto simp: awaiter_new_def await_ready_def split: option.splits)
  let ?r = "snd (ring_submit lib (sqe_prep lib n op (sqe_set_data lib n (Ud_cell a) rg)))"
  let ?d = "\<lparr>io_handle = Some h, io_result = 0\<rparr>"
  let ?w = "w2\<lparr>conts := (conts w2)(h \<mapsto> Cont_io a op k)\<rparr>"
  let ?g = "fib w h"
  have f: "frames ?w = frames w" "conts ?w = (conts w)(h \<mapsto> Cont_io a op k)" "owned ?w = owned w"
    "this_ctx ?w = this_ctx w" "cells ?w = (cells w)(a \<mapsto> ?d)" "ring ?w = ?r" "fib ?w = fib w"
    using new g susp by (auto simp: awaiter_new_def await_suspend_def)
  have aw: "awaited ?w t' c \<longleftrightarrow> awaited w t' c" for t' c by (simp add: awaited_def f)
  have ch: "chain ?w ?g h (snd (P ?g)) ks"
    by (rule chain_cong [OF ks(3)]) (use ks(4) f in \<open>auto intro!: same_frame_refl\<close>)
  have "good ?w stk (S(?g \<mapsto> A_wait op k ks)) (P(?g := P ?g))"
  proof (rule good_run [OF G refl])
    show "fiber_ok ?w stk ?g (A_wait op k ks) (P ?g)" using ch ks(2,4) f by auto
    show "same_frame w ?w x \<and> conts ?w x = conts w x" if "frames w x \<noteq> None" "fib w x \<noteq> ?g" for x
      using that by (auto simp: f intro!: same_frame_refl)
    show "cells ?w a' = Some d" if "cells w a' = Some d" for a' d using that a f(5) by auto
    show "cells w a' \<noteq> None \<or> (\<exists>op' k' ks'. A_wait op k ks = A_wait op' k' ks' \<and>
        conts ?w (fst (P ?g)) = Some (Cont_io a' op' k'))" if "cells ?w a' \<noteq> None" for a'
      using that f(2,5) ks(2) by (auto split: if_splits)
  qed (use aw f goodD(4) [OF G] in auto)
  then have G': "good ?w stk (S(?g \<mapsto> A_wait op k ks)) P" by simp
  have "pend ?r = pend (ring w) + {#Ud_cell a#}"
    using pend_get_sqe(1) [OF p g] pend_get_sqe(3) [OF p] by simp
  then have "pend (ring ?w) = pending (cells ?w) (ended_root (S(?g \<mapsto> A_wait op k ks))) + seen_pend s"
    using r pending_upd [of "cells w" a ?d, OF goodD(4) [OF G] a] ended_root_upd [of S, OF ks(1)]
    by (simp add: f)
  note S' = sim_return_to [OF p G' this]
  have "gmoves (this_ctx w) S [] (S(?g \<mapsto> A_wait op k ks))"
    using gm_one [OF g_own [of S, OF ks(1) a_io]] by simp
  with S' show ?thesis by blast
qed

subsection \<open>Launching a task\<close>

lemma good_spawn:
  assumes G: "good w act S P" and fresh: "frames w t = None"
    and w': "w' = w\<lparr>frames := (frames w)(t \<mapsto> fr), fib := (fib w)(t := Some t),
      owned := insert t (owned w)\<rparr>"
    and fr: "\<not> at_end fr" "ex (promise fr) = None" "context_ptr (promise fr) = Some (this_ctx w)"
      "caller (promise fr) = None" "is_daemon (flags (promise fr))"
  shows "good w' ((t, b) # act) (S(Some t \<mapsto> A_run b [])) (P(Some t := (t, [])))"
    and "S (Some t) = None"
proof -
  show none: "S (Some t) = None"
  proof (rule ccontr)
    assume "S (Some t) \<noteq> None"
    from launched_frame [OF G this] fresh show False by auto
  qed
  have f: "frames w' = (frames w)(t \<mapsto> fr)" "fib w' = (fib w)(t := Some t)" "conts w' = conts w"
    "cells w' = cells w" "owned w' = insert t (owned w)" "this_ctx w' = this_ctx w" by (simp_all add: w')
  have aw: "awaited w' t' c \<longleftrightarrow> awaited w t' c" for t' c
    using fresh fr(4) by (auto simp: awaited_def f)
  have top: "fst (P f) \<noteq> t \<and> fib w (fst (P f)) = f"
    if "S f = Some st" "\<And>r. st \<noteq> A_finished r" for f st
    using top_fiber(1,2) [OF G that] fresh by auto
  have act: "h \<noteq> t" if "(h, b') \<in> set act" for h b' using goodD(3) [OF G that] top by force
  show "good w' ((t, b) # act) (S(Some t \<mapsto> A_run b [])) (P(Some t := (t, [])))"
    unfolding good_def
  proof (intro conjI allI impI)
    fix g st
    assume g: "(S(Some t \<mapsto> A_run b [])) g = Some st"
    show "fiber_ok w' ((t, b) # act) g st ((P(Some t := (t, []))) g)"
    proof (cases "g = Some t")
      case True
      with g fr show ?thesis by (auto simp: base_def f)
    next
      case False
      with g have "fiber_ok w act g st (P g)" using goodD(1) [OF G] by simp
      then have "fiber_ok w' ((t, b) # act) g st (P g)"
      proof (rule fiber_ok_cong)
        show "same_frame w w' x \<and> fib w' x = fib w x \<and> conts w' x = conts w x"
          if "fib w x = g" "frames w x \<noteq> None" for x
          using that fresh f by (auto intro!: same_frame_refl)
      qed (use aw f in auto)
      with False show ?thesis by simp
    qed
  next
    show "distinct (map fst ((t, b) # act))" using goodD(2) [OF G] by (auto dest: act)
  next
    fix h b'
    assume "(h, b') \<in> set ((t, b) # act)"
    then show "\<exists>ks. (S(Some t \<mapsto> A_run b [])) (fib w' h) = Some (A_run b' ks) \<and>
        fst ((P(Some t := (t, []))) (fib w' h)) = h"
      using goodD(3) [OF G, of h b'] act [of h b'] none f by (cases "(h, b') \<in> set act") auto
  next
    fix a
    assume "cells w' a \<noteq> None"
    with goodD(5) [OF G, of a] f none show "\<exists>g op k ks. (S(Some t \<mapsto> A_run b [])) g = Some (A_wait op k ks) \<and>
        conts w' (fst ((P(Some t := (t, []))) g)) = Some (Cont_io a op k)" by (metis fun_upd_apply option.discI)
  next
    fix t' c
    assume "awaited w' t' c"
    with goodD(6) [OF G, of t' c] aw show "(S(Some t \<mapsto> A_run b [])) (Some t') \<noteq> None" by auto
  next
    fix t' c
    assume "awaited w' t' c"
    with goodD(7) [OF G, of t' c] aw obtain kr ks where
      c: "S (fib w c) = Some (A_join t' kr ks)" "fst (P (fib w c)) = c" by blast
    with top [OF c(1)] have "c \<noteq> t" by auto
    with c none f show "\<exists>kr ks. (S(Some t \<mapsto> A_run b [])) (fib w' c) = Some (A_join t' kr ks) \<and>
        fst ((P(Some t := (t, []))) (fib w' c)) = c" by auto
  next
    fix t'
    assume "t' \<in> owned w'"
    then show "(S(Some t \<mapsto> A_run b [])) (Some t') \<noteq> None" using goodD(8) [OF G, of t'] f by auto
  next
    fix t' fr'
    assume "t' \<in> owned w'" "frames w' t' = Some fr'"
    then show "caller (promise fr') = None" using goodD(9) [OF G, of t'] f fr(4) by (auto split: if_splits)
  qed (use goodD(4,10) [OF G] f in auto)
qed

lemma sim_launch:
  fixes w :: "('r, 'v) rworld"
  assumes sim: "sim pend (Run s stk h (Co_launch b kl), w) S" and fresh: "frames w t = None"
    and new: "task_new (Some t) w = Ret (tk, w1)" and start: "task_setup tk True w1 = Ret w2"
  shows "\<exists>S'. gmoves (this_ctx w) S [Event (fib w h) (Launch t b)] S' \<and>
    sim pend (Run s ((h, kl (Inr t)) # stk) t b,
      w2\<lparr>fib := (fib w2)(t := Some t), owned := insert t (owned w2)\<rparr>) S'"
proof -
  from sim obtain P where G: "good w ((h, Co_launch b kl) # stk) S P"
    and r: "pend (ring w) = pending (cells w) (ended_root S) + seen_pend s" by (rule sim_runE)
  obtain ks where ks: "S (fib w h) = Some (A_run (Co_launch b kl) ks)" using running [OF G] by metis
  let ?w = "w2\<lparr>fib := (fib w2)(t := Some t), owned := insert t (owned w2)\<rparr>"
  let ?fr = "\<lparr>promise = setup_promise (this_ctx w) True new_promise, at_end = False\<rparr> :: 'v frame"
  let ?S = "S(fib w h \<mapsto> A_run (kl (Inr t)) ks)"
  have tk: "t_handle tk = Some t" and
    w1: "w1 = w\<lparr>frames := (frames w)(t \<mapsto> \<lparr>promise = new_promise, at_end = False\<rparr>)\<rparr>"
    using new by (auto simp: task_new_def)
  have w2: "w2 = w\<lparr>frames := (frames w)(t \<mapsto> ?fr)\<rparr>"
    using start task_setup_eq [OF tk, of w1 "\<lparr>promise = new_promise, at_end = False\<rparr>" True]
    by (simp add: w1 put_promise_def)
  note G1 = good_body [OF G ks, of "kl (Inr t)"]
  have w': "?w = w\<lparr>frames := (frames w)(t \<mapsto> ?fr), fib := (fib w)(t := Some t),
      owned := insert t (owned w)\<rparr>" by (simp add: w2)
  from good_spawn(1) [OF G1 fresh w', of b] good_spawn(2) [OF G1 fresh w'] have
    G2: "good ?w ((t, b) # (h, kl (Inr t)) # stk) (?S(Some t \<mapsto> A_run b [])) (P(Some t := (t, [])))"
    and none: "?S (Some t) = None" by (simp_all add: new_promise_def)
  have "ended_root (?S(Some t \<mapsto> A_run b [])) = ended_root S" using ks by (auto simp: ended_root_def)
  with sim_runI [OF G2, of pend s] r w2 have
    "sim pend (Run s ((h, kl (Inr t)) # stk) t b, ?w) (?S(Some t \<mapsto> A_run b []))" by simp
  moreover have "gstep (this_ctx w) S [Event (fib w h) (Launch t b)] (?S(Some t \<mapsto> A_run b []))"
    using none by (intro g_launch [of S, OF ks a_launch]) (auto split: if_splits)
  ultimately show ?thesis using gm_one by blast
qed

subsection \<open>Awaiting a launched task\<close>

lemma await_resume_kept:
  "frames w t = Some fr \<Longrightarrow> kept (promise fr) r \<Longrightarrow> to_sum (task_await_resume (Some t) w) = Some r"
  by (auto simp: kept_def task_await_resume_def get_value_def check_error_def split: sum.splits)

lemma sim_join_ready:
  assumes sim: "sim pend (Run s stk h (Co_join t kr), w) S" and t: "t \<in> owned w"
    and ready: "task_await_ready (Some t) w = Ret True"
    and res: "to_sum (task_await_resume (Some t) w) = Some r"
  shows "\<exists>S'. gmoves (this_ctx w) S [Event (fib w h) (Join t r)] S' \<and>
    sim pend (Run s stk h (kr r), w\<lparr>owned := owned w - {t}\<rparr>) S'"
proof -
  from sim obtain P where G: "good w ((h, Co_join t kr) # stk) S P"
    and rg: "pend (ring w) = pending (cells w) (ended_root S) + seen_pend s" by (rule sim_runE)
  obtain ks where ks: "S (fib w h) = Some (A_run (Co_join t kr) ks)" "fst (P (fib w h)) = h"
    "chain w (fib w h) h (snd (P (fib w h))) ks" "distinct (h # snd (P (fib w h)))"
    using running [OF G] by metis
  from launched_frame [OF G goodD(8) [OF G t]] ready obtain fr r0 where fr: "frames w t = Some fr"
    "at_end fr" "S (Some t) = Some (A_finished r0)" "kept (promise fr) r0"
    by (auto simp: task_await_ready_def)
  with await_resume_kept [OF fr(1,4)] res have Sr: "S (Some t) = Some (A_finished r)" by simp
  let ?w = "w\<lparr>owned := owned w - {t}\<rparr>"
  let ?g = "fib w h"
  have aw: "awaited ?w t' c \<longleftrightarrow> awaited w t' c" for t' c
    using fr(1,2) by (auto simp: awaited_def)
  have "chain ?w ?g h (snd (P ?g)) ks" by (rule chain_cong [OF ks(3)]) auto
  then have "good ?w ((h, kr r) # stk) (S(?g \<mapsto> A_run (kr r) ks)) (P(?g := P ?g))"
    using ks(2,4) goodD(4) [OF G] aw by (intro good_run [OF G refl]) auto
  from sim_runI [OF this, of pend s] rg ks(1)
  have "sim pend (Run s stk h (kr r), ?w) (S(?g \<mapsto> A_run (kr r) ks))"
    by (simp add: ended_root_upd)
  with gm_one [OF g_join [of S, OF ks(1) a_join_ready Sr]] show ?thesis by blast
qed

lemma sim_join_suspend:
  assumes p: "pend_contract lib pend" and sim: "sim pend (Run s stk h (Co_join t kr), w) S"
    and t: "t \<in> owned w" and ready: "task_await_ready (Some t) w = Ret False"
    and susp: "task_await_suspend (Some t) h w = Ret (Noop_coroutine, w1)"
  shows "\<exists>S'. gmoves (this_ctx w) S [] S' \<and>
    sim pend (return_to lib s stk
      (w1\<lparr>conts := (conts w1)(h \<mapsto> Cont_call t kr), owned := owned w1 - {t}\<rparr>)) S'"
proof -
  from sim obtain P where G: "good w ((h, Co_join t kr) # stk) S P"
    and rg: "pend (ring w) = pending (cells w) (ended_root S) + seen_pend s" by (rule sim_runE)
  obtain ks where ks: "S (fib w h) = Some (A_run (Co_join t kr) ks)" "fst (P (fib w h)) = h"
    "chain w (fib w h) h (snd (P (fib w h))) ks" "distinct (h # snd (P (fib w h)))"
    using running [OF G] by metis
  obtain hr where hr: "frames w h = Some hr" "context_ptr (promise hr) = Some (this_ctx w)"
    using chain_head [OF ks(3)] by metis
  obtain fr where fr: "frames w t = Some fr" "is_daemon (flags (promise fr))" "fib w t = Some t"
    "\<not> at_end fr" "context_ptr (promise fr) = Some (this_ctx w)"
    using launched_frame [OF G goodD(8) [OF G t]] ready
    by (auto simp: task_await_ready_def)
  let ?fr = "fr\<lparr>promise := (promise fr)\<lparr>caller := Some h\<rparr>\<rparr>"
  let ?w = "w1\<lparr>conts := (conts w1)(h \<mapsto> Cont_call t kr), owned := owned w1 - {t}\<rparr>"
  let ?g = "fib w h"
  have pr: "(promise fr)\<lparr>caller := Some h, context_ptr := context_ptr (promise hr)\<rparr> =
      (promise fr)\<lparr>caller := Some h\<rparr>" using hr(2) fr(5) by (cases "promise fr") simp
  have f: "frames ?w = (frames w)(t \<mapsto> ?fr)" "conts ?w = (conts w)(h \<mapsto> Cont_call t kr)"
    "owned ?w = owned w - {t}" "this_ctx ?w = this_ctx w" "cells ?w = cells w" "ring ?w = ring w"
    "fib ?w = fib w"
    using susp hr(1) fr(1,2) pr by (auto simp: task_await_suspend_def Let_def put_promise_def)
  have sf: "same_frame w ?w x" for x using fr(1,2) by (auto simp: same_frame_def f)
  have aw1: "awaited ?w t' c" if "awaited w t' c" for t' c
    using that t by (auto simp: awaited_def f)
  have aw2: "awaited w t' c \<or> t' = t \<and> c = h" if "awaited ?w t' c" for t' c
    using that by (auto simp: awaited_def f split: if_splits)
  have ch: "chain ?w ?g h (snd (P ?g)) ks"
    by (rule chain_cong [OF ks(3)]) (use ks(4) sf f in auto)
  have "awaited ?w t h" using fr by (simp add: awaited_def f)
  then have own: "fiber_ok ?w stk ?g (A_join t kr ks) (P ?g)" using ch ks(2,4) f by auto
  have "good ?w stk (S(?g \<mapsto> A_join t kr ks)) (P(?g := P ?g))"
  proof (rule good_run [OF G refl own])
    show "same_frame w ?w x \<and> conts ?w x = conts w x" if "frames w x \<noteq> None" "fib w x \<noteq> ?g" for x
      using that sf f by auto
    show "awaited w t' c \<or> (\<exists>kr' ks'. A_join t kr ks = A_join t' kr' ks' \<and> fst (P ?g) = c \<and>
        fib ?w c = ?g) \<and> S (Some t') \<noteq> None"
      if "awaited ?w t' c" for t' c using aw2 [OF that] ks(2) f goodD(8) [OF G t] by auto
  qed (use aw1 f goodD(4) [OF G] in auto)
  then have G': "good ?w stk (S(?g \<mapsto> A_join t kr ks)) P" by simp
  have "pend (ring ?w) = pending (cells ?w) (ended_root (S(?g \<mapsto> A_join t kr ks))) + seen_pend s"
    using rg ks(1) by (simp add: f ended_root_upd)
  note S' = sim_return_to [OF p G' this]
  have "gmoves (this_ctx w) S [] (S(?g \<mapsto> A_join t kr ks))"
    using gm_one [OF g_own [of S, OF ks(1) a_join]] by simp
  with S' show ?thesis by blast
qed

subsection \<open>Ends of bodies\<close>

definition ended_frame :: "'v frame \<Rightarrow> exn + 'v \<Rightarrow> 'v frame" where
  "ended_frame fr r =
     \<lparr>promise = (case r of Inl e \<Rightarrow> (promise fr)\<lparr>ex := Some e\<rparr>
                         | Inr v \<Rightarrow> (promise fr)\<lparr>pvalue := Some v\<rparr>), at_end = True\<rparr>"

lemma ended_frame_simps [simp]:
  "at_end (ended_frame fr r)" "caller (promise (ended_frame fr r)) = caller (promise fr)"
  "flags (promise (ended_frame fr r)) = flags (promise fr)"
  "ex (promise fr) = None \<Longrightarrow> kept (promise (ended_frame fr r)) r"
  by (auto simp: ended_frame_def kept_def split: sum.splits)

lemma task_complete_caller:
  assumes "frames w h = Some fr" and "caller (promise fr) = Some c"
  shows "task_complete lib h r w =
    Ret (Resume c, w\<lparr>frames := (frames w)(h \<mapsto> ended_frame fr r)\<rparr>)"
  using assms
  by (cases r) (simp_all add: task_complete_def final_await_suspend_def Let_def ended_frame_def)

lemma task_complete_daemon:
  assumes "frames w h = Some fr" and "caller (promise fr) = None" and "is_daemon (flags (promise fr))"
  shows "task_complete lib h r w =
    Ret (Noop_coroutine, w\<lparr>frames := (frames w)(h \<mapsto> ended_frame fr r)\<rparr>)"
  using assms
  by (cases r) (simp_all add: task_complete_def final_await_suspend_def Let_def ended_frame_def)

lemma task_complete_Resume:
  assumes "task_complete lib h r w = Ret (Resume c, w1)" and "frames w h = Some fr"
  shows "caller (promise fr) = Some c \<and> w1 = w\<lparr>frames := (frames w)(h \<mapsto> ended_frame fr r)\<rparr>"
  using assms
  by (cases r) (auto simp: task_complete_def final_await_suspend_def Let_def ended_frame_def
      outcome_simps split: option.splits if_splits)

text \<open>A launched task that is awaited and running is not owned.\<close>

lemma running_awaited:
  assumes G: "good w ((h, b) # stk) S P" and f: "fib w h = Some h" "frames w h = Some fr"
    and c: "caller (promise fr) = Some c"
  shows "awaited w h c"
proof -
  obtain ks where ks: "S (Some h) = Some (A_run b ks)" using running [OF G] f(1) by metis
  with launched_frame [OF G, of h] f(2) have "\<not> at_end fr" "is_daemon (flags (promise fr))" by auto
  moreover have "h \<notin> owned w" using goodD(9) [OF G, of h fr] f(2) c by auto
  ultimately show ?thesis using f c by (simp add: awaited_def)
qed

lemma sim_finish_awaited:
  assumes sim: "sim pend (Run s stk h (result_body r), w) S"
    and compl: "task_complete lib h r w = Ret (Resume c, w1)" and same: "fib w h = fib w c"
    and cont: "conts w1 c = Some (Cont_call t kr)"
    and res: "to_sum (task_await_resume (Some t) w1) = Some r'"
  shows "\<exists>S'. gmoves (this_ctx w) S [] S' \<and>
    sim pend (Run s stk c (kr r'), w1\<lparr>conts := (conts w1)(c := None)\<rparr>) S'"
proof -
  from sim obtain P where G: "good w ((h, result_body r) # stk) S P"
    and rg: "pend (ring w) = pending (cells w) (ended_root S) + seen_pend s" by (rule sim_runE)
  let ?g = "fib w h"
  obtain ks where ks: "S ?g = Some (A_run (result_body r) ks)" "fst (P ?g) = h"
    "chain w ?g h (snd (P ?g)) ks" "distinct (h # snd (P ?g))"
    using running [OF G] by metis
  obtain fr where fr: "frames w h = Some fr" "ex (promise fr) = None" using chain_head [OF ks(3)] by metis
  from task_complete_Resume [OF compl fr(1)] have c: "caller (promise fr) = Some c"
    and w1: "w1 = w\<lparr>frames := (frames w)(h \<mapsto> ended_frame fr r)\<rparr>" by auto
  show ?thesis
  proof (cases "snd (P ?g)")
    case Nil
    with ks(3) have b: "base w ?g h" by (cases ks) auto
    with c fr(1) have "?g = Some h" by (auto simp: base_def split: option.splits)
    from running_awaited [OF G this fr(1) c] not_running(3) [OF G] same show ?thesis by metis
  next
    case (Cons c' cs')
    with ks(3) obtain k' ks' where ks': "ks = k' # ks'" and inn: "inner w ?g h c'"
      and ck: "conts w c' = Some (Cont_call h k')" and ch: "chain w ?g c' cs' ks'"
      by (cases ks) auto
    have c': "c' = c" using inn c fr(1) by (auto simp: inner_def)
    have t: "t = h" "kr = k'" using cont ck by (simp_all add: w1 c')
    have "r' = r" using res await_resume_kept [of w1 h "ended_frame fr r" r] fr(2) t by (simp add: w1)
    let ?w = "w1\<lparr>conts := (conts w1)(c := None)\<rparr>"
    have f: "frames ?w = (frames w)(h \<mapsto> ended_frame fr r)" "conts ?w = (conts w)(c := None)"
      "owned ?w = owned w" "this_ctx ?w = this_ctx w" "cells ?w = cells w" "ring ?w = ring w"
      "fib ?w = fib w" by (simp_all add: w1)
    have aw: "awaited ?w t' c \<longleftrightarrow> awaited w t' c" for t' c
      using inn fr(1) by (auto simp: awaited_def f inner_def)
    have chc: "chain ?w ?g c cs' ks'"
      unfolding c' [symmetric]
      by (rule chain_cong [OF ch]) (use ks(4) Cons c' f in \<open>auto intro!: same_frame_refl\<close>)
    then have own: "fiber_ok ?w ((c, k' r) # stk) ?g (A_run (k' r) ks') (c, cs')"
      using ks(4) Cons c' by auto
    have "good ?w ((c, k' r) # stk) (S(?g \<mapsto> A_run (k' r) ks')) (P(?g := (c, cs')))"
    proof (rule good_run [OF G refl own])
      show "same_frame w ?w x \<and> conts ?w x = conts w x" if "frames w x \<noteq> None" "fib w x \<noteq> ?g" for x
        using that same by (auto simp: f intro!: same_frame_refl)
      show "\<exists>fr. frames w t' = Some fr \<and> caller (promise fr') = caller (promise fr)"
        if "frames ?w t' = Some fr'" for t' fr' using that fr(1) by (auto simp: f split: if_splits)
    qed (use aw f goodD(4) [OF G] same in auto)
    from sim_runI [OF this, of pend s] rg ks(1) have
      "sim pend (Run s stk c (kr r'), ?w) (S(?g \<mapsto> A_run (k' r) ks'))"
      using t(2) \<open>r' = r\<close> by (simp add: f ended_root_upd)
    moreover have "gmoves (this_ctx w) S [] (S(?g \<mapsto> A_run (k' r) ks'))"
      using gm_one [OF g_own [of S, OF ks(1) a_return [of _ r k' ks', folded ks']]] by simp
    ultimately show ?thesis by blast
  qed
qed

text \<open>
  A launched task that ends and resumes the coroutine that awaits it: two fibers move. First
  the waiting one leaves the task, then the task ends.
\<close>

lemma good_leave_task:
  assumes G: "good w act S P" and aw: "awaited w t c" and fr: "frames w t = Some fr"
    and Sc: "S (fib w c) = Some (A_join t kr ks)" and top: "fst (P (fib w c)) = c"
    and w': "w' = w\<lparr>frames := (frames w)(t \<mapsto> fr\<lparr>promise := (promise fr)\<lparr>caller := None\<rparr>\<rparr>),
      conts := (conts w)(c := None)\<rparr>"
  shows "good w' ((c, b) # act) (S(fib w c \<mapsto> A_run b ks)) P"
proof -
  let ?g = "fib w c"
  have f: "frames w' = (frames w)(t \<mapsto> fr\<lparr>promise := (promise fr)\<lparr>caller := None\<rparr>\<rparr>)"
    "conts w' = (conts w)(c := None)" "owned w' = owned w" "this_ctx w' = this_ctx w"
    "cells w' = cells w" "fib w' = fib w" by (simp_all add: w')
  from top_fiber(3,4) [OF G Sc] top have ch: "chain w ?g c (snd (P ?g)) ks"
    and d: "distinct (c # snd (P ?g))" by auto
  have dm: "is_daemon (flags (promise fr))" using aw fr by (simp add: awaited_def)
  have sf: "same_frame w w' x" for x using fr dm by (auto simp: same_frame_def f)
  have "chain w' ?g c (snd (P ?g)) ks"
    by (rule chain_cong [OF ch]) (use d sf f in auto)
  then have own: "fiber_ok w' ((c, b) # act) ?g (A_run b ks) (P ?g)" using d top by auto
  have act: "fib w h \<noteq> ?g" if "(h, b') \<in> set act" for h b' using goodD(3) [OF G that] Sc by auto
  have cell: "\<exists>h. io_handle d = Some h \<and> fib w h \<noteq> ?g" if "cells w a = Some d" for a d
    using cell_fiber [OF G that] Sc by auto
  have aw1: "awaited w' t' c'" if "awaited w t' c'" "fib w c' \<noteq> ?g" for t' c'
    using that aw by (auto simp: awaited_def f)
  have aw2: "awaited w t' c' \<and> fib w c' \<noteq> ?g" if "awaited w' t' c'" for t' c'
  proof -
    have o: "awaited w t' c'" and "t' \<noteq> t" using that by (auto simp: awaited_def f split: if_splits)
    with goodD(7) [OF G o] Sc show ?thesis by auto
  qed
  have "good w' ((c, b) # act) (S(?g \<mapsto> A_run b ks)) (P(?g := P ?g))"
  proof (rule good_step [OF G Sc own])
    show "(h, b') \<in> set act \<and> fib w h \<noteq> ?g \<or> (\<exists>ks'. A_run b ks = A_run b' ks' \<and> fst (P ?g) = h \<and> fib w' h = ?g)"
      if "(h, b') \<in> set ((c, b) # act)" for h b' using that act top f by auto
    show "distinct (map fst ((c, b) # act))" using goodD(2) [OF G] by (auto dest: act)
    show "same_frame w w' x \<and> conts w' x = conts w x" if "frames w x \<noteq> None" "fib w x \<noteq> ?g" for x
      using that sf f by auto
    show "\<exists>fr. frames w t' = Some fr \<and> caller (promise fr') = caller (promise fr)"
      if "t' \<in> owned w'" "frames w' t' = Some fr'" for t' fr'
      using that aw by (auto simp: f awaited_def split: if_splits)
    show "(\<exists>d h. cells w a = Some d \<and> io_handle d = Some h \<and> fib w h \<noteq> ?g) \<or>
        (\<exists>op k ks'. A_run b ks = A_wait op k ks' \<and> conts w' (fst (P ?g)) = Some (Cont_io a op k))"
      if "cells w' a \<noteq> None" for a using that cell f by auto
  qed (simp, simp add: f, simp add: f, simp add: f goodD(4) [OF G], simp add: f, erule (1) aw1,
      rule disjI1, erule aw2, simp add: f)
  then show ?thesis by simp
qed

text \<open>A coroutine that is the last of its fiber ends.\<close>

lemma good_end:
  fixes w w' :: "('r, 'v) rworld"
  assumes G: "good w act S P" and act: "act = xs @ (h, result_body r) # ys"
    and Sg: "S (fib w h) = Some (A_run (result_body r) [])"
    and fr: "frames w h = Some fr" "ended w' (fib w h) r"
    and x: "\<And>x. x \<noteq> h \<Longrightarrow> frames w' x = frames w x"
    and dead: "\<And>fr'. frames w' h = Some fr' \<Longrightarrow> at_end fr'"
    and noown: "h \<in> owned w \<Longrightarrow> \<forall>fr'. frames w' h = Some fr' \<longrightarrow> caller (promise fr') = None"
    and f: "conts w' = conts w" "fib w' = fib w" "owned w' = owned w" "cells w' = cells w"
      "this_ctx w' = this_ctx w"
    and naw: "\<And>c. \<not> awaited w h c"
  shows "good w' (xs @ ys) (S(fib w h \<mapsto> A_finished r)) P"
proof -
  let ?g = "fib w h"
  have act': "fib w h' \<noteq> ?g" if "(h', b') \<in> set (xs @ ys)" for h' b'
  proof
    assume eq: "fib w h' = ?g"
    from goodD(3) [OF G, of h' b'] that eq have "fst (P ?g) = h'" by (auto simp: act)
    moreover from goodD(3) [OF G, of h "result_body r"] have "fst (P ?g) = h" by (auto simp: act)
    ultimately have "h' = h" by simp
    with that goodD(2) [OF G] show False by (auto simp: act image_iff)
  qed
  have cell: "\<exists>h'. io_handle d = Some h' \<and> fib w h' \<noteq> ?g" if "cells w a = Some d" for a d
    using cell_fiber [OF G that] Sg by auto
  have awn: "fib w c \<noteq> ?g" if "awaited w t c" for t c
  proof
    assume "fib w c = ?g"
    with goodD(7) [OF G that] Sg show False by simp
  qed
  have aw: "awaited w' t c \<longleftrightarrow> awaited w t c" for t c
  proof (cases "t = h")
    case True
    with naw dead show ?thesis by (auto simp: awaited_def)
  next
    case False
    with x [OF this] show ?thesis by (simp add: awaited_def f)
  qed
  have own: "fiber_ok w' (xs @ ys) ?g (A_finished r) (P ?g)" using fr(2) by simp
  have "good w' (xs @ ys) (S(?g \<mapsto> A_finished r)) (P(?g := P ?g))"
  proof (rule good_step [OF G Sg own])
    show "(h', b') \<in> set (xs @ ys)" if "(h', b') \<in> set act" "fib w h' \<noteq> ?g" for h' b'
      using that by (auto simp: act)
    show "(h', b') \<in> set act \<and> fib w h' \<noteq> ?g \<or>
        (\<exists>ks. A_finished r = A_run b' ks \<and> fst (P ?g) = h' \<and> fib w' h' = ?g)"
      if "(h', b') \<in> set (xs @ ys)" for h' b' using that act' [OF that] by (auto simp: act)
    show "distinct (map fst (xs @ ys))" using goodD(2) [OF G] by (auto simp: act)
    show "same_frame w w' y \<and> conts w' y = conts w y" if "frames w y \<noteq> None" "fib w y \<noteq> ?g" for y
      using that x [of y] f by (metis same_frame_refl)
    show "\<exists>fr. frames w t' = Some fr \<and> caller (promise fr') = caller (promise fr)"
      if "t' \<in> owned w'" "frames w' t' = Some fr'" for t' fr'
    proof (cases "t' = h")
      case True
      with that noown f have "caller (promise fr') = None" by auto
      with True fr(1) goodD(9) [OF G, of h fr] that(1) f(3) show ?thesis by auto
    next
      case False
      with that x show ?thesis by auto
    qed
    show "(\<exists>d h. cells w a = Some d \<and> io_handle d = Some h \<and> fib w h \<noteq> ?g) \<or>
        (\<exists>op k ks. A_finished r = A_wait op k ks \<and> conts w' (fst (P ?g)) = Some (Cont_io a op k))"
      if "cells w' a \<noteq> None" for a using that cell f by auto
  qed (simp add: f, simp add: f, simp add: f goodD(4) [OF G], simp add: f, simp add: aw,
      rule disjI1, simp add: aw awn, simp add: f)
  then show ?thesis by simp
qed

text \<open>A coroutine that has no callers in its own fiber.\<close>

lemma running_base:
  assumes G: "good w ((h, b) # stk) S P" and fr: "frames w h = Some fr"
    and c: "\<And>c. caller (promise fr) = Some c \<Longrightarrow> fib w c \<noteq> fib w h"
  shows "S (fib w h) = Some (A_run b []) \<and> base w (fib w h) h"
proof -
  let ?g = "fib w h"
  obtain ks where ks: "S ?g = Some (A_run b ks)" "chain w ?g h (snd (P ?g)) ks"
    using running [OF G] by metis
  show ?thesis
  proof (cases "snd (P ?g)")
    case Nil
    with ks show ?thesis by (cases ks) auto
  next
    case (Cons c' cs')
    with ks(2) have "caller (promise fr) = Some c'" "fib w c' = ?g"
      using fr chain_fib [OF ks(2), of c'] by (cases ks; auto simp: inner_def)+
    with c show ?thesis by auto
  qed
qed

lemma sim_finish_joined:
  assumes sim: "sim pend (Run s stk h (result_body r), w) S"
    and compl: "task_complete lib h r w = Ret (Resume c, w1)" and other: "fib w h \<noteq> fib w c"
    and cont: "conts w1 c = Some (Cont_call t kr)"
    and res: "to_sum (task_await_resume (Some t) w1) = Some r'"
  shows "\<exists>S'. gmoves (this_ctx w) S [Event (fib w h) (Done r), Event (fib w c) (Join t r')] S' \<and>
    sim pend (Run s stk c (kr r'), w1\<lparr>conts := (conts w1)(c := None)\<rparr>) S'"
proof -
  from sim obtain P where G: "good w ((h, result_body r) # stk) S P"
    and rg: "pend (ring w) = pending (cells w) (ended_root S) + seen_pend s" by (rule sim_runE)
  obtain fr where fr: "frames w h = Some fr" "ex (promise fr) = None"
    using running [OF G] chain_head by metis
  from task_complete_Resume [OF compl fr(1)] have c: "caller (promise fr) = Some c"
    and w1: "w1 = w\<lparr>frames := (frames w)(h \<mapsto> ended_frame fr r)\<rparr>" by auto
  from running_base [OF G fr(1)] c other have Sh: "S (fib w h) = Some (A_run (result_body r) [])"
    and b: "base w (fib w h) h" by auto
  from b c fr(1) have g: "fib w h = Some h" and dm: "is_daemon (flags (promise fr))"
    by (auto simp: base_def split: option.splits)
  have aw: "awaited w h c" by (rule running_awaited [OF G g fr(1) c])
  from goodD(7) [OF G aw] obtain k' ks' where Sc: "S (fib w c) = Some (A_join h k' ks')"
    and top: "fst (P (fib w c)) = c" by blast
  from goodD(1) [OF G Sc] top have "conts w c = Some (Cont_call h k')" by simp
  with cont have t: "t = h" "kr = k'" by (auto simp: w1)
  have r': "r' = r" using res await_resume_kept [of w1 h "ended_frame fr r" r] fr(2) t by (simp add: w1)
  let ?m = "w\<lparr>frames := (frames w)(h \<mapsto> fr\<lparr>promise := (promise fr)\<lparr>caller := None\<rparr>\<rparr>),
      conts := (conts w)(c := None)\<rparr>"
  let ?w = "w1\<lparr>conts := (conts w1)(c := None)\<rparr>"
  let ?S1 = "S(fib w c \<mapsto> A_run (k' r) ks')"
  have f: "frames ?w = (frames w)(h \<mapsto> ended_frame fr r)" "conts ?w = conts ?m"
    "owned ?w = owned w" "this_ctx ?w = this_ctx w" "cells ?w = cells w" "ring ?w = ring w"
    "fib ?w = fib w" by (simp_all add: w1)
  note G1 = good_leave_task [OF G aw fr(1) Sc top refl, of "k' r"]
  have S1: "?S1 (fib ?m h) = Some (A_run (result_body r) [])" using Sh other by simp
  have e: "ended ?w (fib ?m h) r" using g dm fr(2) by (auto simp: ended_def f)
  have "good ?w ([(c, k' r)] @ stk) (?S1(fib ?m h \<mapsto> A_finished r)) P"
    by (rule good_end [OF G1 _ S1 _ e]) (use aw f in \<open>auto simp: awaited_def\<close>)
  then have G2: "good ?w ((c, k' r) # stk) (?S1(fib w h \<mapsto> A_finished r)) P" by simp
  have "ended_root (?S1(fib w h \<mapsto> A_finished r)) = ended_root S" using g Sc by (auto simp: ended_root_def)
  with sim_runI [OF G2, of pend s] rg f t(2) r' have
    sim': "sim pend (Run s stk c (kr r'), ?w) (?S1(fib w h \<mapsto> A_finished r))" by simp
  have "gstep (this_ctx w) S [Event (fib w h) (Done r)] (S(fib w h \<mapsto> A_finished r))"
    using g_own [of S, OF Sh a_finish] by simp
  moreover have "gstep (this_ctx w) (S(fib w h \<mapsto> A_finished r)) [Event (fib w c) (Join h r)]
      (S(fib w h \<mapsto> A_finished r, fib w c \<mapsto> A_run (k' r) ks'))"
    using Sc other g by (intro g_join [OF _ a_joined]) auto
  ultimately have "gmoves (this_ctx w) S ([Event (fib w h) (Done r)] @ [Event (fib w c) (Join h r)])
      (S(fib w h \<mapsto> A_finished r, fib w c \<mapsto> A_run (k' r) ks'))"
    by (rule gm_step [OF gm_one])
  moreover have "S(fib w h \<mapsto> A_finished r, fib w c \<mapsto> A_run (k' r) ks') =
      ?S1(fib w h \<mapsto> A_finished r)" using other by (simp add: fun_upd_twist)
  ultimately show ?thesis using sim' t(1) r' by auto
qed

lemma sim_finish_alone:
  assumes p: "pend_contract lib pend" and sim: "sim pend (Run s stk h (result_body r), w) S"
    and compl: "task_complete lib h r w = Ret (Noop_coroutine, w1)"
  shows "\<exists>S'. gmoves (this_ctx w) S [Event (fib w h) (Done r)] S' \<and>
    sim pend (return_to lib s stk w1) S'"
proof -
  from sim obtain P where G: "good w ((h, result_body r) # stk) S P"
    and rg: "pend (ring w) = pending (cells w) (ended_root S) + seen_pend s" by (rule sim_runE)
  obtain fr where fr: "frames w h = Some fr" "ex (promise fr) = None"
    "context_ptr (promise fr) = Some (this_ctx w)" using running [OF G] chain_head by metis
  have c: "caller (promise fr) = None"
    using compl fr(1) task_complete_caller [OF fr(1)] by (cases "caller (promise fr)") auto
  from running_base [OF G fr(1)] c have Sh: "S (fib w h) = Some (A_run (result_body r) [])"
    and b: "base w (fib w h) h" by auto
  have naw: "\<not> awaited w h c'" for c' using fr(1) c by (simp add: awaited_def)
  have step: "gmoves (this_ctx w) S [Event (fib w h) (Done r)] (S(fib w h \<mapsto> A_finished r))"
    using gm_one [OF g_own [of S, OF Sh a_finish]] by simp
  show ?thesis
  proof (cases "fib w h")
    case None
    with b fr(1) have dm: "\<not> is_daemon (flags (promise fr))" by (auto simp: base_def)
    obtain n rg' where g: "get_sqe lib (ring w) = (Some n, rg')"
    proof (cases "get_sqe lib (ring w)")
      case (Pair x rg')
      with compl fr c dm have "x \<noteq> None"
        by (cases x; cases r) (auto simp: task_complete_def final_await_suspend_def task_finish_def
            io_context_finish_def Let_def)
      with Pair that show ?thesis by auto
    qed
    let ?r = "snd (ring_submit lib (sqe_prep lib n Op_nop (sqe_set_data lib n Ud_completed rg')))"
    from root_complete_eq [OF fr(1) c dm fr(3) g, of r] compl
    have w1: "w1 = w\<lparr>frames := (frames w)(h := None), ring := ?r\<rparr>" by simp
    have "ended w1 (fib w h) r" using None by (simp add: ended_def)
    from good_end [OF G _ Sh fr(1) this, of "[]" stk] naw have
      G': "good w1 stk (S(fib w h \<mapsto> A_finished r)) P" by (simp add: w1)
    have "pend ?r = pend (ring w) + {#Ud_completed#}"
      using pend_get_sqe(1) [OF p g] pend_get_sqe(3) [OF p] by simp
    moreover have "ended_root (S(fib w h \<mapsto> A_finished r))" "\<not> ended_root S"
      using None Sh by (auto simp: ended_root_def)
    ultimately have "pend (ring w1) = pending (cells w1) (ended_root (S(fib w h \<mapsto> A_finished r))) + seen_pend s"
      using rg by (simp add: w1 pending_fin)
    from sim_return_to [OF p G' this] step show ?thesis by blast
  next
    case (Some t)
    with b fr(1) have dm: "is_daemon (flags (promise fr))" and t: "t = h" by (auto simp: base_def)
    from task_complete_daemon [OF fr(1) c dm, of lib r] compl
    have w1: "w1 = w\<lparr>frames := (frames w)(h \<mapsto> ended_frame fr r)\<rparr>" by simp
    have "ended w1 (fib w h) r" using Some t dm fr(2) by (simp add: ended_def w1)
    from good_end [OF G _ Sh fr(1) this, of "[]" stk] naw c have
      G': "good w1 stk (S(fib w h \<mapsto> A_finished r)) P" by (simp add: w1)
    have "ended_root (S(fib w h \<mapsto> A_finished r)) = ended_root S" using Some by (simp add: ended_root_def)
    with rg have "pend (ring w1) = pending (cells w1) (ended_root (S(fib w h \<mapsto> A_finished r))) + seen_pend s"
      by (simp add: w1)
    from sim_return_to [OF p G' this] step show ?thesis by blast
  qed
qed

subsection \<open>The loop\<close>

lemma sim_loop_cell:
  assumes p: "pend_contract lib pend" and sim: "sim pend (Idle, w) S"
    and wait: "wait_cqe lib c (ring w) = (0, Some q, rg)" and q: "user_data q = Ud_cell a"
    and cell: "cells w a = Some d" "io_handle d = Some h" and k: "conts w h = Some (Cont_io a op k)"
  shows "\<exists>S'. gmoves (this_ctx w) S [Event (fib w h) (Io op (res q))] S' \<and>
    sim pend (Run (Some q) [] h (k (res q)),
      w\<lparr>ring := rg, cells := (cells w)(a := None), conts := (conts w)(h := None)\<rparr>) S'"
proof -
  from sim obtain P where G: "good w [] S P" and r: "pend (ring w) = pending (cells w) (ended_root S)"
    by (auto simp: sim_def)
  let ?g = "fib w h"
  let ?w = "w\<lparr>ring := rg, cells := (cells w)(a := None), conts := (conts w)(h := None)\<rparr>"
  from cell_fiber [OF G cell(1)] cell(2) k obtain ks where Sg: "S ?g = Some (A_wait op k ks)"
    and top: "fst (P ?g) = h" by (metis cont.inject(1) fst_conv option.inject)
  from top_fiber(3,4) [OF G Sg] top have ch: "chain w ?g h (snd (P ?g)) ks"
    and d: "distinct (h # snd (P ?g))" by auto
  have aw: "awaited ?w t' c' \<longleftrightarrow> awaited w t' c'" for t' c' by (simp add: awaited_def)
  have "chain ?w ?g h (snd (P ?g)) ks"
    by (rule chain_cong [OF ch]) (use d in \<open>auto intro!: same_frame_refl\<close>)
  then have own: "fiber_ok ?w [(h, k (res q))] ?g (A_run (k (res q)) ks) (P ?g)" using d top by auto
  have cells: "\<exists>d h'. cells w a' = Some d \<and> io_handle d = Some h' \<and> fib w h' \<noteq> ?g"
    if "cells ?w a' \<noteq> None" for a'
  proof -
    from that have a': "a' \<noteq> a" "cells w a' \<noteq> None" by (auto split: if_splits)
    then obtain d' where d': "cells w a' = Some d'" by blast
    from cell_fiber [OF G d'] obtain f op' k' ks' h' where f: "S f = Some (A_wait op' k' ks')"
      "P f = (h', snd (P f))" "io_handle d' = Some h'" "fib w h' = f" "conts w h' = Some (Cont_io a' op' k')"
      by blast
    have "f \<noteq> ?g"
    proof
      assume "f = ?g"
      with f(2) top have "h' = h" by (metis fst_conv)
      with f(5) k a'(1) show False by simp
    qed
    with d' f(3,4) show ?thesis by blast
  qed
  have aw2: "fib w c' \<noteq> ?g" if "awaited w t' c'" for t' c'
  proof
    assume "fib w c' = ?g"
    with goodD(7) [OF G that] Sg show False by simp
  qed
  have "good ?w [(h, k (res q))] (S(?g \<mapsto> A_run (k (res q)) ks)) (P(?g := P ?g))"
  proof (rule good_step [OF G Sg own])
    show "(h', b') \<in> set [] \<and> fib w h' \<noteq> ?g \<or>
        (\<exists>ks'. A_run (k (res q)) ks = A_run b' ks' \<and> fst (P ?g) = h' \<and> fib ?w h' = ?g)"
      if "(h', b') \<in> set [(h, k (res q))]" for h' b' using that top by auto
    show "same_frame w ?w x \<and> conts ?w x = conts w x" if "frames w x \<noteq> None" "fib w x \<noteq> ?g" for x
      using that by (auto intro!: same_frame_refl)
    show "cells ?w a' = Some d'" if "cells w a' = Some d'" "io_handle d' = Some h'" "fib w h' \<noteq> ?g" for a' d' h'
      using that cell by auto
    show "(\<exists>d h. cells w a' = Some d \<and> io_handle d = Some h \<and> fib w h \<noteq> ?g) \<or>
        (\<exists>op' k' ks'. A_run (k (res q)) ks = A_wait op' k' ks' \<and> conts ?w (fst (P ?g)) = Some (Cont_io a' op' k'))"
      if "cells ?w a' \<noteq> None" for a' using cells [OF that] by blast
    show "awaited w t' c' \<and> fib w c' \<noteq> ?g \<or>
        (\<exists>kr ks'. A_run (k (res q)) ks = A_join t' kr ks' \<and> fst (P ?g) = c' \<and> fib ?w c' = ?g) \<and>
        S (Some t') \<noteq> None"
      if "awaited ?w t' c'" for t' c' using that aw aw2 by blast
  qed (simp_all add: aw goodD(4) [OF G])
  then have G': "good ?w [(h, k (res q))] (S(?g \<mapsto> A_run (k (res q)) ks)) P" by simp
  have "ended_root (S(?g \<mapsto> A_run (k (res q)) ks)) = ended_root S" using Sg by (auto simp: ended_root_def)
  moreover have "pend rg = pend (ring w)" using pend_wait [OF p wait] by simp
  moreover have "pending (cells w) (ended_root S) = pending ((cells w)(a := None)) (ended_root S) + {#Ud_cell a#}"
    by (rule pending_del [OF goodD(4) [OF G] cell(1)])
  ultimately have "sim pend (Run (Some q) [] h (k (res q)), ?w) (S(?g \<mapsto> A_run (k (res q)) ks))"
    using r q by (intro sim_runI [OF G']) (simp add: seen_pend_def)
  moreover have "gmoves (this_ctx w) S [Event ?g (Io op (res q))] (S(?g \<mapsto> A_run (k (res q)) ks))"
    using gm_one [OF g_own [of S, OF Sg a_io_done]] by simp
  ultimately show ?thesis by blast
qed

lemma sim_loop_mark:
  assumes p: "pend_contract lib pend" and sim: "sim pend (Idle, w) S"
    and wait: "wait_cqe lib c (ring w) = (0, Some q, rg)"
  shows "user_data q \<noteq> Ud_null"
    and "user_data q = Ud_completed \<Longrightarrow> sim pend (Halted, w\<lparr>ring := cqe_seen lib q rg\<rparr>) S"
    and "user_data q = Ud_cell a \<Longrightarrow> cells w a \<noteq> None"
proof -
  from sim obtain P where G: "good w [] S P" and r: "pend (ring w) = pending (cells w) (ended_root S)"
    by (auto simp: sim_def)
  note u = in_pending [OF goodD(4) [OF G], of "user_data q" "ended_root S"] pend_wait [OF p wait] r
  then show "user_data q \<noteq> Ud_null" "user_data q = Ud_cell a \<Longrightarrow> cells w a \<noteq> None" by auto
  show "sim pend (Halted, w\<lparr>ring := cqe_seen lib q rg\<rparr>) S" if "user_data q = Ud_completed"
    using that u good_ring [OF G] by (auto simp: sim_def pend_get_sqe(4) [OF p] pending_fin)
qed

end
