(* ===== verification/Runtime_Props.thy ===== *)
theory Runtime_Props
  imports Runtime_Steps
begin

section \<open>What programs do\<close>

text \<open>
  The simulation of whole runs, from the start in \<^verbatim>\<open>block_run\<close>; progress; which frames a
  run leaves behind; and the loop of \<open>Uring\<close> as runs of the step relation.
\<close>

subsection \<open>The simulation\<close>

text \<open>Every step but the last, at the finish mark, moves a fiber.\<close>

lemma rstep_moves:
  assumes "rstep lib cfg l cfg'" and "pend_contract lib pend" and "sim pend cfg S"
  shows "(\<exists>S'. gmoves (this_ctx (snd cfg)) S (seen l) S' \<and> sim pend cfg' S') \<or>
    l = [] \<and> fst cfg' = Halted \<and> sim pend cfg' S"
  using assms
proof (induction rule: rstep.induct)
  case (io_ready w a op aw w1 i s stk h k)
  from sim_io_ready [OF io_ready(5,6,1,2,3), of i] show ?case by simp
next
  case (io_suspend w a op aw w1 h w2 s stk k)
  from sim_io_suspend [OF io_suspend(5,6,1,2,3,4)] show ?case by simp
next
  case (call w t tk w1 callee tk' h w2 s stk b kr)
  from sim_call [OF call(7,1,2,3,5)] show ?case by simp
next
  case (call_fails w e s stk h b kr)
  then have "e = Bad_alloc" by (simp add: task_new_def)
  with sim_body [OF call_fails(3) a_call_fails] show ?case by simp
next
  case (ctx h w c s stk kc)
  from sim_context [OF ctx(3,1)] show ?case by simp
next
  case (sync s stk h c kc w i)
  from sim_body [OF sync(2) a_sync, of i] show ?case by simp
next
  case (launch w t tk w1 w2 tk' s stk h b kl)
  from sim_launch [OF launch(6,1,2,3)] show ?case by simp
next
  case (launch_fails w e s stk h b kl)
  then have "e = Bad_alloc" by (simp add: task_new_def)
  with sim_body [OF launch_fails(3) a_launch_fails] show ?case by simp
next
  case (join_ready t w callee tk' r s stk h kr)
  then have "callee = Some t" by (simp add: await_transform_rvalue_def task_take_handle_def)
  with sim_join_ready [OF join_ready(6,1)] join_ready(3,4) show ?case by simp
next
  case (join_suspend t w callee tk' h w1 s stk kr)
  then have "callee = Some t" by (simp add: await_transform_rvalue_def task_take_handle_def)
  with sim_join_suspend [OF join_suspend(5,6,1)] join_suspend(3,4) show ?case by simp
next
  case (finish_awaited h r w c w1 t kr r' s stk)
  from sim_finish_awaited [OF finish_awaited(6,1,2,3,4)] show ?case by simp
next
  case (finish_joined h r w c w1 t kr r' s stk)
  from sim_finish_joined [OF finish_joined(6,1,2,3,4)] show ?case by simp
next
  case (finish_alone h r w w1 s stk)
  from sim_finish_alone [OF finish_alone(2,3,1)] show ?case by simp
next
  case (loop_cell c w q rg a d h op k)
  from sim_loop_cell [OF loop_cell(6,7,1,2,3,4,5)] show ?case by simp
next
  case (loop_null c w q rg)
  from sim_loop_mark(1) [OF loop_null(3,4,1)] loop_null(2) show ?case by simp
next
  case (loop_done c w q rg)
  from sim_loop_mark(2) [OF loop_done(3,4,1,2)] show ?case by simp
qed

lemma rstep_sim:
  assumes "rstep lib cfg l cfg'" and "pend_contract lib pend" and "sim pend cfg S"
  shows "\<exists>S'. gsteps (this_ctx (snd cfg)) S (seen l) S' \<and> sim pend cfg' S'"
  using rstep_moves [OF assms] gmoves_gsteps gs_refl by fastforce

lemma awaiter_new_keeps:
  assumes "awaiter_new lib op a w = (aw, w1)"
  shows "frames w1 = frames (w :: ('r, 'v) rworld)" "this_ctx w1 = this_ctx w" "conts w1 = conts w"
    "fib w1 = fib w" "owned w1 = owned w"
  using assms by (auto simp: awaiter_new_def split: prod.splits option.splits)

lemma await_suspend_keeps:
  assumes "await_suspend lib aw h w = Ret w1"
  shows "frames w1 = frames (w :: ('r, 'v) rworld)" "this_ctx w1 = this_ctx w" "conts w1 = conts w"
    "fib w1 = fib w" "owned w1 = owned w"
  using assms by (auto simp: await_suspend_def split: option.splits if_splits)

lemma task_await_suspend_keeps:
  assumes "task_await_suspend callee h w = Ret (tr, w1)"
  shows "this_ctx w1 = this_ctx (w :: ('r, 'v) rworld)" "fib w1 = fib w"
    "\<exists>t fr fr'. callee = Some t \<and> frames w t = Some fr \<and> frames w1 = (frames w)(t \<mapsto> fr') \<and>
      caller (promise fr') = Some h"
  using assms
  by (auto simp: task_await_suspend_def outcome_simps put_promise_def Let_def
      split: option.splits if_splits)

lemma task_complete_keeps:
  assumes "task_complete lib h r w = Ret (tr, w1)"
  shows "this_ctx w1 = this_ctx (w :: ('r, 'v) rworld)" "fib w1 = fib w"
    "\<exists>fr. frames w h = Some fr \<and>
      (frames w1 = (frames w)(h \<mapsto> ended_frame fr r) \<and>
         (tr = Noop_coroutine \<longrightarrow> caller (promise fr) = None \<and> is_daemon (flags (promise fr))) \<or>
       frames w1 = (frames w)(h := None) \<and> tr = Noop_coroutine \<and> caller (promise fr) = None \<and>
         \<not> is_daemon (flags (promise fr)))"
  using assms
  by (cases r; auto simp: task_complete_def final_await_suspend_def task_finish_def ended_frame_def
      io_context_finish_def destroy_frame_def outcome_simps Let_def
      split: option.splits if_splits prod.splits)+

lemma task_setup_keeps:
  assumes "task_setup tk d w = Ret w1" and "t_handle tk = Some t"
  shows "this_ctx w1 = this_ctx (w :: ('r, 'v) rworld)" "fib w1 = fib w"
    "\<exists>fr fr'. frames w t = Some fr \<and> frames w1 = (frames w)(t \<mapsto> fr')"
  using assms
  by (auto simp: task_setup_def task_set_context_def task_set_daemon_def with_promise_def
      outcome_simps put_promise_def split: option.splits)

lemma return_to_world:
  "frames (snd (return_to lib s stk w)) = frames w" "this_ctx (snd (return_to lib s stk w)) = this_ctx w"
  "fib (snd (return_to lib s stk w)) = fib w"
  by (auto simp: return_to_def split: list.splits)

lemma rstep_ctx: "rstep lib cfg l cfg' \<Longrightarrow> this_ctx (snd cfg') = this_ctx (snd cfg)"
proof (induction rule: rstep.induct)
  case (io_ready w a op aw w1 i s stk h k)
  then show ?case using awaiter_new_keeps(2) [OF io_ready(2)] by simp
next
  case (io_suspend w a op aw w1 h w2 s stk k)
  then show ?case
    using awaiter_new_keeps(2) [OF io_suspend(2)] await_suspend_keeps(2) [OF io_suspend(4)]
    by (simp add: return_to_world)
next
  case (call w t tk w1 callee tk' h w2 s stk b kr)
  then show ?case
    using task_await_suspend_keeps(1) [OF call(5)] by (simp add: task_new_def) auto
next
  case (launch w t tk w1 w2 tk' s stk h b kl)
  then show ?case
    using task_setup_keeps(1) [OF launch(3), of t] by (auto simp: task_new_def)
next
  case (join_suspend t w callee tk' h w1 s stk kr)
  then show ?case using task_await_suspend_keeps(1) [OF join_suspend(4)] by (simp add: return_to_world)
next
  case (finish_awaited h r w c w1 t kr r' s stk)
  then show ?case using task_complete_keeps(1) [OF finish_awaited(1)] by simp
next
  case (finish_joined h r w c w1 t kr r' s stk)
  then show ?case using task_complete_keeps(1) [OF finish_joined(1)] by simp
next
  case (finish_alone h r w w1 s stk)
  then show ?case using task_complete_keeps(1) [OF finish_alone(1)] by (simp add: return_to_world)
qed simp_all

lemma rsteps_ctx: "rsteps lib cfg ls cfg' \<Longrightarrow> this_ctx (snd cfg') = this_ctx (snd cfg)"
  by (induction rule: rsteps.induct) (auto simp: rstep_ctx)

lemma rsteps_sim:
  "rsteps lib cfg ls cfg' \<Longrightarrow> pend_contract lib pend \<Longrightarrow> sim pend cfg S \<Longrightarrow>
   \<exists>S'. gsteps (this_ctx (snd cfg)) S (seen ls) S' \<and> sim pend cfg' S'"
proof (induction rule: rsteps.induct)
  case (rs_refl cfg)
  then show ?case by (auto intro: gs_refl)
next
  case (rs_step cfg ls cfg' l cfg'')
  from rs_step.IH [OF rs_step.prems] obtain S1 where
    S1: "gsteps (this_ctx (snd cfg)) S (seen ls) S1" "sim pend cfg' S1" by blast
  from rstep_sim [OF rs_step.hyps(2) rs_step.prems(1) S1(2)] rsteps_ctx [OF rs_step.hyps(1)]
  obtain S' where "gsteps (this_ctx (snd cfg)) S1 (seen l) S'" "sim pend cfg'' S'" by auto
  with gsteps_trans [OF this(1) S1(1)] show ?case by auto
qed

subsection \<open>Starting\<close>

text \<open>The root's frame is the only one, and the ring is empty.\<close>

definition fresh_program :: "('r \<Rightarrow> udata multiset) \<Rightarrow> task \<Rightarrow> ('r, 'v) rworld \<Rightarrow> bool" where
  "fresh_program pend tk w \<longleftrightarrow>
     (\<exists>h fr. t_handle tk = Some h \<and> frames w = [h \<mapsto> fr] \<and> \<not> at_end fr \<and>
        caller (promise fr) = None \<and> ex (promise fr) = None) \<and>
     conts w = Map.empty \<and> cells w = Map.empty \<and> pend (ring w) = {#} \<and>
     fib w = (\<lambda>x. None) \<and> owned w = {}"

text \<open>
  A new context and one task are such a start: \<^verbatim>\<open>block_run\<close> on a context that has run nothing
  else.
\<close>

definition program_world :: "('r, 'v) tworld \<Rightarrow> ('r, 'v) rworld" where
  "program_world w = tworld.extend w \<lparr>conts = Map.empty, fib = (\<lambda>x. None), owned = {}\<rparr>"

lemma new_context_fresh:
  assumes "queue_init 1024 r = (ret, r')" and "pend r' = {#}"
    and "task_new (Some h) (program_world (io_context_new queue_init r at)) = Ret (tk, w)"
  shows "fresh_program pend tk w \<and> this_ctx w = at"
proof -
  let ?f = "\<lparr>promise = new_promise, at_end = False\<rparr>"
  have "\<not> at_end ?f \<and> caller (promise ?f) = None \<and> ex (promise ?f) = None" by (simp add: new_promise_def)
  moreover from assms(1,3) have "tk = \<lparr>t_handle = Some h\<rparr>" "frames w = [h \<mapsto> ?f]" "conts w = Map.empty"
    "cells w = Map.empty" "ring w = r'" "fib w = (\<lambda>x. None)" "owned w = {}" "this_ctx w = at"
    by (auto simp: task_new_def io_context_new_def program_world_def tworld.extend_def rworld.defs)
  ultimately show ?thesis using assms(2) unfolding fresh_program_def by auto
qed

lemma program_start_eq:
  assumes "t_handle tk = Some h" and "frames w h = Some fr"
  shows "program_start tk b w =
    Ret (Run None [] h b, put_promise h fr (setup_promise (this_ctx w) False (promise fr)) w)"
  using assms by (simp add: program_start_def task_setup_eq task_take_handle_def)

lemma program_start_sim:
  assumes "fresh_program pend tk w" and "program_start tk b w = Ret cfg"
  shows "sim pend cfg [None \<mapsto> A_run b []] \<and> this_ctx (snd cfg) = this_ctx w"
proof -
  from assms(1) obtain h fr where f: "t_handle tk = Some h" "frames w = [h \<mapsto> fr]" "\<not> at_end fr"
    "caller (promise fr) = None" "ex (promise fr) = None" and w: "conts w = Map.empty"
    "cells w = Map.empty" "pend (ring w) = {#}" "fib w = (\<lambda>x. None)" "owned w = {}"
    unfolding fresh_program_def by blast
  let ?w = "put_promise h fr (setup_promise (this_ctx w) False (promise fr)) w"
  have cfg: "cfg = (Run None [] h b, ?w)"
    using assms(2) program_start_eq [OF f(1), of w fr] f(2) by simp
  have u: "frames ?w = [h \<mapsto> fr\<lparr>promise := setup_promise (this_ctx w) False (promise fr)\<rparr>]"
    "conts ?w = Map.empty" "cells ?w = Map.empty" "ring ?w = ring w" "fib ?w = (\<lambda>x. None)"
    "owned ?w = {}" "this_ctx ?w = this_ctx w"
    using f(2) w by (simp_all add: put_promise_def)
  have "base ?w None h" using f by (simp add: base_def u)
  then have "good ?w [(h, b)] [None \<mapsto> A_run b []] (\<lambda>f. (h, []))"
    by (auto simp: good_def u awaited_def split: if_splits)
  from sim_runI [OF this, of pend None] w(3) show ?thesis
    by (simp add: cfg u pending_def ended_root_def seen_pend_def)
qed

lemma program_sim:
  assumes "pend_contract lib pend" and "fresh_program pend tk w" and "program_start tk b w = Ret cfg"
    and "rsteps lib cfg ls cfg'"
  shows "\<exists>S. gsteps (this_ctx w) [None \<mapsto> A_run b []] (seen ls) S \<and> sim pend cfg' S \<and>
    fibers_ok (this_ctx w) b ls S"
proof -
  from program_start_sim [OF assms(2,3)] have s: "sim pend cfg [None \<mapsto> A_run b []]"
    "this_ctx (snd cfg) = this_ctx w" by auto
  from rsteps_sim [OF assms(4,1) s(1)] s(2) obtain S where
    S: "gsteps (this_ctx w) [None \<mapsto> A_run b []] (seen ls) S" "sim pend cfg' S" by auto
  from gsteps_ok [OF S(1) refl] have "fibers_ok (this_ctx w) b (seen ls) S" .
  then have "fibers_ok (this_ctx w) b ls S" by (simp add: fibers_ok_def fiber_body_def cong: option.case_cong)
  with S show ?thesis by blast
qed

subsection \<open>Progress\<close>

text \<open>The ring has room for an entry, and the kernel completes what was submitted.\<close>

definition live_ring :: "'r uring_lib \<Rightarrow> ('r \<Rightarrow> udata multiset) \<Rightarrow> bool" where
  "live_ring lib pend \<longleftrightarrow>
     (\<forall>r. fst (get_sqe lib r) \<noteq> None) \<and>
     (\<forall>c r. pend r \<noteq> {#} \<longrightarrow> (\<exists>q r'. wait_cqe lib c r = (0, Some q, r')))"

lemma live_sqe: "live_ring lib pend \<Longrightarrow> \<exists>n r'. get_sqe lib r = (Some n, r')"
  unfolding live_ring_def by (metis option.exhaust prod.collapse)

text \<open>A free address, for a new cell.\<close>

lemma free_cell: "finite (dom cs) \<Longrightarrow> \<exists>a :: nat. cs a = None"
  by (metis domIff ex_new_if_finite infinite_UNIV_nat)

lemma end_progress:
  assumes lr: "live_ring lib pend" and sim: "sim pend (Run s stk h (result_body r), w) S"
  shows "\<exists>l cfg'. rstep lib (Run s stk h (result_body r), w) l cfg'"
proof -
  from sim obtain P where G: "good w ((h, result_body r) # stk) S P" by (rule sim_runE)
  obtain ks where ks: "S (fib w h) = Some (A_run (result_body r) ks)"
    "chain w (fib w h) h (snd (P (fib w h))) ks" using running [OF G] by metis
  obtain fr where fr: "frames w h = Some fr" "ex (promise fr) = None"
    "context_ptr (promise fr) = Some (this_ctx w)" using chain_head [OF ks(2)] by metis
  show ?thesis
  proof (cases "caller (promise fr)")
    case None
    show ?thesis
    proof (cases "is_daemon (flags (promise fr))")
      case True
      from finish_alone [OF task_complete_daemon [OF fr(1) None True]] show ?thesis by blast
    next
      case False
      from live_sqe [OF lr] obtain n rg where "get_sqe lib (ring w) = (Some n, rg)" by blast
      from finish_alone [OF root_complete_eq [OF fr(1) None False fr(3) this]] show ?thesis by blast
    qed
  next
    case (Some c)
    note compl = task_complete_caller [OF fr(1) Some, of lib r]
    let ?w1 = "w\<lparr>frames := (frames w)(h \<mapsto> ended_frame fr r)\<rparr>"
    have res: "to_sum (task_await_resume (Some h) ?w1) = Some r"
      by (rule await_resume_kept [of _ _ "ended_frame fr r"]) (simp_all add: fr(2))
    have "\<exists>kr. conts w c = Some (Cont_call h kr)"
    proof (cases "snd (P (fib w h))")
      case Nil
      with ks(2) have "base w (fib w h) h" by (cases ks) auto
      with Some fr(1) have "fib w h = Some h" by (auto simp: base_def split: option.splits)
      from running_awaited [OF G this fr(1) Some] goodD(7) [OF G] obtain kr ks' where
        c: "S (fib w c) = Some (A_join h kr ks')" "fst (P (fib w c)) = c" by blast
      from goodD(1) [OF G c(1)] c(2) show ?thesis by auto
    next
      case (Cons c' cs')
      with ks(2) Some fr(1) show ?thesis by (cases ks) (auto simp: inner_def)
    qed
    then obtain kr where "conts ?w1 c = Some (Cont_call h kr)" by auto
    from finish_awaited [OF compl _ this res] finish_joined [OF compl _ this res]
    show ?thesis by (cases "fib w h = fib w c") blast+
  qed
qed

lemma call_progress:
  assumes sim: "sim pend (Run s stk h (Co_call b kr), w) S" and t: "frames w t = None"
  shows "\<exists>cfg'. rstep lib (Run s stk h (Co_call b kr), w) [Called t] cfg'"
proof -
  let ?w1 = "w\<lparr>frames := (frames w)(t \<mapsto> \<lparr>promise = new_promise, at_end = False\<rparr>)\<rparr>"
  from sim obtain P where G: "good w ((h, Co_call b kr) # stk) S P" by (rule sim_runE)
  obtain fr where fr: "frames w h = Some fr" using running [OF G] chain_head by metis
  with t have "h \<noteq> t" by auto
  then have "\<exists>w2. task_await_suspend (Some t) h ?w1 = Ret (Resume t, w2)"
    using fr by (simp add: task_await_suspend_def new_promise_def)
  then obtain w2 where w2: "task_await_suspend (Some t) h ?w1 = Ret (Resume t, w2)" by blast
  have new: "task_new (Some t) w = Ret (\<lparr>t_handle = Some t\<rparr>, ?w1)" by (simp add: task_new_def t)
  have take: "await_transform_rvalue \<lparr>t_handle = Some t\<rparr> = (Some t, \<lparr>t_handle = None\<rparr>)"
    by (simp add: await_transform_rvalue_def task_take_handle_def)
  have "task_await_ready (Some t) ?w1 = Ret False" by (simp add: task_await_ready_def)
  from call [OF t new take this w2] show ?thesis by blast
qed

lemma launch_progress:
  assumes t: "frames w t = None"
  shows "\<exists>cfg'. rstep lib (Run s stk h (Co_launch b kl), w) [Event (fib w h) (Launch t b)] cfg'"
proof -
  let ?w1 = "w\<lparr>frames := (frames w)(t \<mapsto> \<lparr>promise = new_promise, at_end = False\<rparr>)\<rparr>"
  have new: "task_new (Some t) w = Ret (\<lparr>t_handle = Some t\<rparr>, ?w1)" by (simp add: task_new_def t)
  have start: "\<exists>w2. task_setup \<lparr>t_handle = Some t\<rparr> True ?w1 = Ret w2"
    by (subst task_setup_eq [of _ t]) auto
  then obtain w2 where "task_setup \<lparr>t_handle = Some t\<rparr> True ?w1 = Ret w2" by blast
  moreover have "task_take_handle \<lparr>t_handle = Some t\<rparr> = (Some t, \<lparr>t_handle = None\<rparr>)"
    by (simp add: task_take_handle_def)
  ultimately show ?thesis using launch [OF t new] by blast
qed

lemma run_progress:
  assumes lr: "live_ring lib pend" and sim: "sim pend (Run s stk h b, w) S"
    and own: "\<And>t kr. b = Co_join t kr \<Longrightarrow> t \<in> owned w"
  shows "\<exists>l cfg'. rstep lib (Run s stk h b, w) l cfg'"
proof -
  from sim obtain P where G: "good w ((h, b) # stk) S P" by (rule sim_runE)
  obtain fr where fr: "frames w h = Some fr" using running [OF G] chain_head by metis
  show ?thesis
  proof (cases b)
    case (Co_io op k)
    from free_cell [OF goodD(4) [OF G]] obtain a where a: "cells w a = None" by blast
    from live_sqe [OF lr] obtain n rg where g: "get_sqe lib (ring w) = (Some n, rg)" by blast
    let ?w1 = "w\<lparr>ring := sqe_prep lib n op (sqe_set_data lib n (Ud_cell a) rg),
      cells := (cells w)(a \<mapsto> \<lparr>io_handle = None, io_result = 0\<rparr>)\<rparr>"
    have new: "awaiter_new lib op a w = (\<lparr>aw_ring = True, aw_sqe = Some n, aw_data = a\<rparr>, ?w1)"
      using g by (simp add: awaiter_new_def)
    obtain w2 where "await_suspend lib \<lparr>aw_ring = True, aw_sqe = Some n, aw_data = a\<rparr> h ?w1 = Ret w2"
      by (simp add: await_suspend_def)
    with io_suspend [OF a new] Co_io show ?thesis by (fastforce simp: await_ready_def)
  next
    case (Co_call b' kr)
    have "task_new None w = Thrown Bad_alloc" by (simp add: task_new_def)
    from call_fails [OF this] Co_call show ?thesis by blast
  next
    case (Co_context kc)
    from fr obtain c where "context_await h w = Ret c" by (auto simp: context_await_def)
    from ctx [OF this] Co_context show ?thesis by blast
  next
    case (Co_launch b' kl)
    have "task_new None w = Thrown Bad_alloc" by (simp add: task_new_def)
    from launch_fails [OF this] Co_launch show ?thesis by blast
  next
    case (Co_join t kr)
    from own [OF this] have t: "t \<in> owned w" .
    from launched_frame [OF G goodD(8) [OF G t]] obtain fr' where fr': "frames w t = Some fr'"
      "is_daemon (flags (promise fr'))" "at_end fr' \<Longrightarrow> \<exists>r. kept (promise fr') r"
      by (auto split: if_splits)
    have take: "await_transform_rvalue \<lparr>t_handle = Some t\<rparr> = (Some t, \<lparr>t_handle = None\<rparr>)"
      by (simp add: await_transform_rvalue_def task_take_handle_def)
    have ready: "task_await_ready (Some t) w = Ret (at_end fr')" using fr'(1) by (simp add: task_await_ready_def)
    show ?thesis
    proof (cases "at_end fr'")
      case True
      with fr'(3) obtain r where "kept (promise fr') r" by blast
      note res = await_resume_kept [OF fr'(1) this]
      from ready True have "task_await_ready (Some t) w = Ret True" by simp
      from join_ready [OF t take this res] Co_join show ?thesis by blast
    next
      case False
      from fr fr'(1,2) obtain w1 where "task_await_suspend (Some t) h w = Ret (Noop_coroutine, w1)"
        by (simp add: task_await_suspend_def Let_def)
      moreover from ready False have "task_await_ready (Some t) w = Ret False" by simp
      ultimately show ?thesis using join_suspend [OF t take] Co_join by blast
    qed
  next
    case (Co_return v)
    with end_progress [OF lr, of s stk h "Inr v" w S] sim show ?thesis by simp
  next
    case (Co_throw x)
    with end_progress [OF lr, of s stk h "Inl x" w S] sim show ?thesis by simp
  next
    case (Co_sync c kc)
    with sync show ?thesis by blast
  qed
qed

text \<open>
  The one way to wait for ever: every fiber that has not ended, the root among them, awaits
  a launched task that has not ended.
\<close>

definition deadlocked :: "(fid \<rightharpoonup> 'v astate) \<Rightarrow> bool" where
  "deadlocked S \<longleftrightarrow>
     \<not> ended_root S \<and>
     (\<forall>f st. S f = Some st \<longrightarrow>
        (\<exists>r. st = A_finished r) \<or>
        (\<exists>t kr ks st'. st = A_join t kr ks \<and> S (Some t) = Some st' \<and> (\<forall>r. st' \<noteq> A_finished r)))"

lemma idle_progress:
  assumes p: "pend_contract lib pend" and lr: "live_ring lib pend" and sim: "sim pend (Idle, w) S"
  shows "(\<exists>l cfg'. rstep lib (Idle, w) l cfg') \<or> deadlocked S"
proof -
  from sim obtain P where G: "good w [] S P" and r: "pend (ring w) = pending (cells w) (ended_root S)"
    by (auto simp: sim_def)
  show ?thesis
  proof (cases "pend (ring w) = {#}")
    case False
    with lr obtain q rg where w: "wait_cqe lib None (ring w) = (0, Some q, rg)"
      unfolding live_ring_def by blast
    show ?thesis
    proof (cases "user_data q")
      case (Ud_cell a)
      with sim_loop_mark(3) [OF p sim w] obtain d where d: "cells w a = Some d" by blast
      from cell_fiber [OF G d] obtain op k h where
        "io_handle d = Some h" "conts w h = Some (Cont_io a op k)" by blast
      from loop_cell [OF w Ud_cell d this] show ?thesis by blast
    next
      case Ud_completed
      from loop_done [OF w this] show ?thesis by blast
    next
      case Ud_null
      from loop_null [OF w this] show ?thesis by blast
    qed
  next
    case True
    with r have e: "\<not> ended_root S" and c: "cells w = Map.empty"
      using goodD(4) [OF G] by (auto simp: pending_def mset_set_empty_iff split: if_splits)
    have "(\<exists>r. st = A_finished r) \<or>
        (\<exists>t kr ks st'. st = A_join t kr ks \<and> S (Some t) = Some st' \<and> (\<forall>r. st' \<noteq> A_finished r))"
      if S: "S f = Some st" for f st
    proof (cases st)
      case (A_run b ks)
      with goodD(1) [OF G S] show ?thesis by simp
    next
      case (A_wait op k ks)
      with goodD(1) [OF G S] c show ?thesis by simp
    next
      case (A_join t kr ks)
      with goodD(1) [OF G S] have aw: "awaited w t (fst (P f))" by simp
      then obtain fr where fr: "frames w t = Some fr" "\<not> at_end fr" "fib w t = Some t"
        by (auto simp: awaited_def)
      from goodD(6) [OF G aw] obtain st' where "S (Some t) = Some st'" by blast
      with launched_frame [OF G, of t] fr A_join show ?thesis by auto
    qed simp
    with e show ?thesis unfolding deadlocked_def by blast
  qed
qed

subsection \<open>Frames\<close>

text \<open>The frames made for calls and launches.\<close>

definition made :: "'v label list \<Rightarrow> coro set" where
  "made ls = {t. Called t \<in> set ls \<or> (\<exists>f b. Event f (Launch t b) \<in> set ls)}"

lemma made_simps [simp]:
  "made [] = {}" "made (Called t # ls) = insert t (made ls)"
  "made (Event f (Launch t b) # ls) = insert t (made ls)" "made (Event f (Io op i) # ls) = made ls"
  "made (Event f (Join t r) # ls) = made ls" "made (Event f (Done r) # ls) = made ls"
  "made (Event f (Sync c i) # ls) = made ls"
  "made (ls @ ls') = made ls \<union> made ls'"
  by (auto simp: made_def)

definition root_done :: "'v label list \<Rightarrow> bool" where
  "root_done ls \<longleftrightarrow> (\<exists>r. Event None (Done r) \<in> set ls)"

lemma root_done_simps [simp]:
  "\<not> root_done []" "root_done (Called t # ls) = root_done ls"
  "root_done (Event (Some t) e # ls) = root_done ls" "root_done (Event f (Done r) # ls) = (f = None \<or> root_done ls)"
  "root_done (Event f (Launch t b) # ls) = root_done ls" "root_done (Event f (Io op i) # ls) = root_done ls"
  "root_done (Event f (Join t r) # ls) = root_done ls"
  "root_done (Event f (Sync c i) # ls) = root_done ls"
  "root_done (ls @ ls') = (root_done ls \<or> root_done ls')"
  by (auto simp: root_done_def)

text \<open>
  Every frame that was made is there, and tells that it is not the root's: it has a caller,
  or a fiber of its own. The only other frame is the root's, until the root ends.
\<close>

definition frames_inv :: "coro \<Rightarrow> 'v label list \<Rightarrow> ('r, 'v) rworld \<Rightarrow> bool" where
  "frames_inv root ls w \<longleftrightarrow>
     (\<forall>x \<in> made ls. \<exists>fr. frames w x = Some fr \<and> (caller (promise fr) \<noteq> None \<or> fib w x \<noteq> None)) \<and>
     (\<forall>x. frames w x \<noteq> None \<longrightarrow> x \<notin> made ls \<longrightarrow> \<not> root_done ls \<and> x = root)"

text \<open>A step that keeps every frame, with its caller if it has one, and may make one.\<close>

lemma frames_inv_keep:
  assumes inv: "frames_inv root ls w" and l: "\<not> root_done l" "made l = {x. frames w' x \<noteq> None \<and> frames w x = None}"
    and fr: "\<And>x fr. frames w x = Some fr \<Longrightarrow> \<exists>fr'. frames w' x = Some fr' \<and>
      (caller (promise fr) \<noteq> None \<longrightarrow> caller (promise fr') \<noteq> None) \<and> fib w' x = fib w x"
    and new: "\<And>x fr'. x \<in> made l \<Longrightarrow> frames w' x = Some fr' \<Longrightarrow> caller (promise fr') \<noteq> None \<or> fib w' x \<noteq> None"
  shows "frames_inv root (ls @ l) w'"
  unfolding frames_inv_def
proof (intro conjI ballI allI impI)
  fix x
  assume "x \<in> made (ls @ l)"
  then consider "x \<in> made ls" | "x \<in> made l" by auto
  then show "\<exists>fr. frames w' x = Some fr \<and> (caller (promise fr) \<noteq> None \<or> fib w' x \<noteq> None)"
  proof cases
    case 1
    with inv obtain fr1 where "frames w x = Some fr1" "caller (promise fr1) \<noteq> None \<or> fib w x \<noteq> None"
      unfolding frames_inv_def by blast
    with fr [of x fr1] show ?thesis by metis
  next
    case 2
    with l(2) new [of x] show ?thesis by auto
  qed
next
  fix x
  assume x: "frames w' x \<noteq> None" "x \<notin> made (ls @ l)"
  with l(2) have "frames w x \<noteq> None" by auto
  with x inv l(1) show "\<not> root_done (ls @ l)" "x = root" unfolding frames_inv_def by auto
qed

lemma rstep_frames:
  assumes "rstep lib cfg l cfg'" and "sim pend cfg S" and "frames_inv root ls (snd cfg)"
  shows "frames_inv root (ls @ l) (snd cfg')"
  using assms
proof (induction rule: rstep.induct)
  case (io_ready w a op aw w1 i s stk h k)
  note k = awaiter_new_keeps [OF io_ready(2)]
  show ?case by (rule frames_inv_keep [OF io_ready(6)]) (auto simp: k)
next
  case (io_suspend w a op aw w1 h w2 s stk k)
  note k = awaiter_new_keeps [OF io_suspend(2)] await_suspend_keeps [OF io_suspend(4)]
  show ?case by (rule frames_inv_keep [OF io_suspend(6)]) (auto simp: k return_to_world)
next
  case (call w t tk w1 callee tk' h w2 s stk b kr)
  have callee: "callee = Some t" and w1: "frames w1 = (frames w)(t \<mapsto> \<lparr>promise = new_promise, at_end = False\<rparr>)"
    "fib w1 = fib w" using call(2,3)
    by (auto simp: task_new_def await_transform_rvalue_def task_take_handle_def)
  from task_await_suspend_keeps [OF call(5)] callee obtain fr' where
    "frames w2 = (frames w)(t \<mapsto> fr')" "caller (promise fr') = Some h" "fib w2 = fib w"
    by (auto simp: w1)
  then show ?case using call(1) by (intro frames_inv_keep [OF call(7)]) auto
next
  case (launch w t tk w1 w2 tk' s stk h b kl)
  have tk: "t_handle tk = Some t" and w1: "frames w1 = (frames w)(t \<mapsto> \<lparr>promise = new_promise, at_end = False\<rparr>)"
    "fib w1 = fib w" using launch(2) by (auto simp: task_new_def)
  from task_setup_keeps [OF launch(3) tk] obtain fr' where
    "frames w2 = (frames w)(t \<mapsto> fr')" "fib w2 = fib w" by (auto simp: w1)
  then show ?case using launch(1) by (intro frames_inv_keep [OF launch(6)]) auto
next
  case (join_suspend t w callee tk' h w1 s stk kr)
  from task_await_suspend_keeps [OF join_suspend(4)] obtain t' fr fr' where
    "frames w t' = Some fr" "frames w1 = (frames w)(t' \<mapsto> fr')" "caller (promise fr') = Some h" "fib w1 = fib w"
    by blast
  then show ?case by (intro frames_inv_keep [OF join_suspend(6)]) (auto simp: return_to_world)
next
  case (finish_awaited h r w c w1 t kr r' s stk)
  from task_complete_keeps [OF finish_awaited(1)] obtain fr where
    "frames w h = Some fr" "frames w1 = (frames w)(h \<mapsto> ended_frame fr r)" "fib w1 = fib w" by auto
  then show ?case by (intro frames_inv_keep [OF finish_awaited(6)]) auto
next
  case (finish_joined h r w c w1 t kr r' s stk)
  from task_complete_keeps [OF finish_joined(1)] obtain fr where
    fr: "frames w h = Some fr" "frames w1 = (frames w)(h \<mapsto> ended_frame fr r)" "fib w1 = fib w" by auto
  from finish_joined(5) obtain P where G: "good w ((h, result_body r) # stk) S P" by (rule sim_runE)
  have c: "caller (promise fr) = Some c" using task_complete_Resume [OF finish_joined(1) fr(1)] by simp
  with running_base [OF G fr(1)] finish_joined(2) have "base w (fib w h) h" by auto
  with c fr(1) have "fib w h \<noteq> None" by (auto simp: base_def split: option.splits)
  with fr show ?case by (intro frames_inv_keep [OF finish_joined(6)]) auto
next
  case (finish_alone h r w w1 s stk)
  from finish_alone(2) obtain P where G: "good w ((h, result_body r) # stk) S P" by (rule sim_runE)
  from task_complete_keeps [OF finish_alone(1)] obtain fr where fr: "frames w h = Some fr" "fib w1 = fib w"
    and d: "frames w1 = (frames w)(h \<mapsto> ended_frame fr r) \<and> caller (promise fr) = None \<and> is_daemon (flags (promise fr)) \<or>
       frames w1 = (frames w)(h := None) \<and> caller (promise fr) = None \<and> \<not> is_daemon (flags (promise fr))"
    by auto
  then have c: "caller (promise fr) = None" by auto
  with running_base [OF G fr(1)] have b: "base w (fib w h) h" by auto
  show ?case
  proof (cases "fib w h")
    case None
    with b fr(1) d have w1: "frames w1 = (frames w)(h := None)" by (auto simp: base_def)
    from finish_alone(3) fr(1) c None have "h \<notin> made ls" by (fastforce simp: frames_inv_def)
    with finish_alone(3) fr(1) have "h = root" by (auto simp: frames_inv_def)
    with finish_alone(3) have "x \<in> made ls" if "frames w x \<noteq> None" "x \<noteq> h" for x
      using that by (auto simp: frames_inv_def)
    with finish_alone(3) fr None w1 \<open>h \<notin> made ls\<close> show ?thesis
      by (auto simp: frames_inv_def return_to_world)
  next
    case (Some t)
    with b fr(1) d have w1: "frames w1 = (frames w)(h \<mapsto> ended_frame fr r)" by (auto simp: base_def)
    with fr Some show ?thesis by (intro frames_inv_keep [OF finish_alone(3)]) (auto simp: return_to_world)
  qed
qed (auto simp: frames_inv_def)

lemma rsteps_frames:
  "rsteps lib cfg ls cfg' \<Longrightarrow> pend_contract lib pend \<Longrightarrow> sim pend cfg S \<Longrightarrow>
   frames_inv root [] (snd cfg) \<Longrightarrow> frames_inv root ls (snd cfg')"
proof (induction rule: rsteps.induct)
  case (rs_step cfg ls cfg' l cfg'')
  from rsteps_sim [OF rs_step.hyps(1) rs_step.prems(1,2)] obtain S' where "sim pend cfg' S'" by blast
  from rstep_frames [OF rs_step.hyps(2) this rs_step.IH [OF rs_step.prems]] show ?case .
qed

end
