(* ===== verification/Block_Run.thy ===== *)
theory Block_Run
  imports Runtime_Props
begin

section \<open>The loop runs the program\<close>

text \<open>
  \<open>rstep\<close> has the turns of the loop as steps of its own; here they are those of \<open>loop_turn\<close>.
  What a call of a handle does is the parameter \<open>invoke\<close> of the loop. It \<open>realises\<close> the
  bodies when a call that returns has run the coroutine, and those it transferred to or
  launched, up to the point where the call returns: a segment of \<open>rstep\<close>.
\<close>

inductive segment ::
  "'r uring_lib \<Rightarrow> 'v control \<times> ('r, 'v) rworld \<Rightarrow> 'v label list \<Rightarrow> ('r, 'v) rworld \<Rightarrow> bool"
  for lib where
  seg_end: "rstep lib (Run s stk h b, w) l (Idle, w') \<Longrightarrow> segment lib (Run s stk h b, w) l w'"
| seg_step:
    "rstep lib (Run s stk h b, w) l (Run s stk' h' b', w1) \<Longrightarrow>
     segment lib (Run s stk' h' b', w1) ls w' \<Longrightarrow> segment lib (Run s stk h b, w) (l @ ls) w'"

text \<open>What a call of the handle \<open>h\<close> begins with: the root's body, or the rest of a body that waits.\<close>

definition resumed ::
  "coro \<Rightarrow> 'v body \<Rightarrow> coro \<Rightarrow> ('r, 'v) rworld \<Rightarrow> ('v control \<times> ('r, 'v) rworld) option" where
  "resumed root b h w =
     (case conts w h of
        None \<Rightarrow> if h = root then Some (Run None [] h b, w) else None
      | Some (Cont_call t k) \<Rightarrow> None
      | Some (Cont_io a op k) \<Rightarrow>
          (case cells w a of
             None \<Rightarrow> None
           | Some d \<Rightarrow> Some (Run None [] h (k (io_result d)),
               w\<lparr>cells := (cells w)(a := None), conts := (conts w)(h := None)\<rparr>)))"

definition realises ::
  "'r uring_lib \<Rightarrow> (coro \<Rightarrow> ('r, 'v) rworld \<Rightarrow> ('r, 'v) rworld outcome) \<Rightarrow> coro \<Rightarrow> 'v body \<Rightarrow> bool"
where
  "realises lib invoke root b \<longleftrightarrow>
     (\<forall>h w w' cfg. resumed root b h w = Some cfg \<longrightarrow> invoke h w = Ret w' \<longrightarrow>
        (\<exists>ls. segment lib cfg ls w'))"

definition wait_succeeds :: "'r uring_lib \<Rightarrow> bool" where
  "wait_succeeds lib \<longleftrightarrow> (\<forall>c r. fst (wait_cqe lib c r) = 0)"

lemma segment_rsteps: "segment lib cfg ls w' \<Longrightarrow> rsteps lib cfg ls (Idle, w')"
proof (induction rule: segment.induct)
  case (seg_end s stk h b w l w')
  then show ?case by (rule rsteps_one)
next
  case (seg_step s stk h b w l stk' h' b' w1 ls w')
  from rsteps_trans [OF seg_step(3) rsteps_one [OF seg_step(1)]] show ?case .
qed

text \<open>The completion to be marked as seen matters only when the call returns.\<close>

fun with_seen :: "'r uring_lib \<Rightarrow> cqe option \<Rightarrow> 'v control \<times> ('r, 'v) rworld \<Rightarrow> 'v control \<times> ('r, 'v) rworld"
where
  "with_seen lib s (Run s' stk h b, w) = (Run s stk h b, w)"
| "with_seen lib s (Idle, w) = (Idle, leave lib s w)"
| "with_seen lib s (Halted, w) = (Halted, w)"

lemma with_seen_return_to [simp]: "with_seen lib s (return_to lib None stk w) = return_to lib s stk w"
  by (auto simp: return_to_def leave_def split: list.splits)

lemma rstep_seen:
  assumes "rstep lib (Run None stk h b, w) l cfg"
  shows "rstep lib (Run s stk h b, w) l (with_seen lib s cfg)"
  using assms by cases (auto intro: rstep.intros)

lemma segment_seen:
  "segment lib cfg ls w' \<Longrightarrow> cfg = (Run None stk h b, w) \<Longrightarrow>
   segment lib (Run s stk h b, w) ls (leave lib s w')"
proof (induction arbitrary: stk h b w rule: segment.induct)
  case (seg_end s' stk h b w l w')
  then show ?case using rstep_seen [of lib stk h b _ l "(Idle, w')" s] by (fastforce intro: segment.intros)
next
  case (seg_step s' stk h b w l stk' h' b' w1 ls w')
  then show ?case
    using rstep_seen [of lib stk h b _ l "(Run None stk' h' b', w1)" s]
    by (fastforce intro: segment.intros)
qed

lemma noexcept_ret_eq: "noexcept_ret m = Ret x \<longleftrightarrow> m = Ret x"
  by (cases m) simp_all

lemma turn_steps:
  assumes p: "pend_contract lib pend" and ws: "wait_succeeds lib" and re: "realises lib invoke root b"
    and sim: "sim pend (Idle, w) S" and turn: "loop_turn lib invoke c w = Ret (running, c', w')"
  shows "\<exists>ls. rsteps lib (Idle, w) ls (if running then Idle else Halted, w')"
proof -
  obtain e oq rg where e: "wait_cqe lib c (ring w) = (e, oq, rg)" by (cases "wait_cqe lib c (ring w)")
  moreover from ws have "fst (wait_cqe lib c (ring w)) = 0" unfolding wait_succeeds_def by blast
  ultimately obtain q where wq: "wait_cqe lib c (ring w) = (0, Some q, rg)"
    using turn by (cases oq) (auto simp: loop_turn_def Let_def)
  let ?w = "w\<lparr>ring := rg\<rparr>"
  from turn wq obtain w1 where
    res: "uring_resume invoke q ?w = Ret (running, w1)" and
    w': "w' = w1\<lparr>ring := cqe_seen lib q (ring w1)\<rparr>"
    by (auto simp: loop_turn_def outcome_simps)
  show ?thesis
  proof (cases "user_data q")
    case (Ud_cell a)
    with sim_loop_mark(3) [OF p sim wq] obtain d where d: "cells w a = Some d" by blast
    from sim obtain P where G: "good w [] S P" by (auto simp: sim_def)
    from cell_fiber [OF G d] obtain op k h where
      h: "io_handle d = Some h" "conts w h = Some (Cont_io a op k)" by blast
    let ?wi = "?w\<lparr>cells := (cells w)(a \<mapsto> d\<lparr>io_result := res q\<rparr>)\<rparr>"
    let ?wr = "w\<lparr>ring := rg, cells := (cells w)(a := None), conts := (conts w)(h := None)\<rparr>"
    from res Ud_cell d h(1) have inv: "invoke h ?wi = Ret w1" and run: "running"
      by (auto simp: uring_resume_def call_cell_def Let_def noexcept_ret_eq outcome_simps
          split: outcome.splits)
    have "resumed root b h ?wi = Some (Run None [] h (k (res q)), ?wr)"
      using d h(2) by (simp add: resumed_def)
    with re inv obtain ls where seg: "segment lib (Run None [] h (k (res q)), ?wr) ls w1"
      unfolding realises_def by blast
    note step = loop_cell [OF wq Ud_cell d h]
    from rsteps_trans [OF segment_rsteps [OF segment_seen [OF seg refl]] rsteps_one [OF step]] run
    show ?thesis by (auto simp: w' leave_def)
  next
    case Ud_completed
    with res have "w1 = ?w" "\<not> running" by (auto simp: uring_resume_def)
    with rsteps_one [OF loop_done [OF wq Ud_completed]] show ?thesis by (auto simp: w')
  next
    case Ud_null
    with sim_loop_mark(1) [OF p sim wq] show ?thesis by simp
  qed
qed

lemma run_turns_steps:
  "run_turns n lib invoke c w = Some (Ret w') \<Longrightarrow> pend_contract lib pend \<Longrightarrow> wait_succeeds lib \<Longrightarrow>
   realises lib invoke root b \<Longrightarrow> sim pend (Idle, w) S \<Longrightarrow>
   \<exists>ls. rsteps lib (Idle, w) ls (Halted, w')"
proof (induction n arbitrary: c w S)
  case 0
  then show ?case by simp
next
  case (Suc n)
  from Suc.prems(1) obtain running c' w1 where t: "loop_turn lib invoke c w = Ret (running, c', w1)"
    by (auto split: outcome.splits)
  from turn_steps [OF Suc.prems(2-5) t] obtain ls where
    s: "rsteps lib (Idle, w) ls (if running then Idle else Halted, w1)" by blast
  show ?case
  proof (cases running)
    case True
    with s have s: "rsteps lib (Idle, w) ls (Idle, w1)" by simp
    from rsteps_sim [OF s Suc.prems(2,5)] obtain S' where "sim pend (Idle, w1) S'" by blast
    from Suc.IH [OF _ Suc.prems(2-4) this, of c'] Suc.prems(1) t True obtain ls' where
      "rsteps lib (Idle, w1) ls' (Halted, w')" by auto
    from rsteps_trans [OF this s] show ?thesis by blast
  next
    case False
    with s Suc.prems(1) t show ?thesis by auto
  qed
qed

lemma block_run_steps:
  assumes p: "pend_contract lib pend" and ws: "wait_succeeds lib" and fp: "fresh_program pend tk w"
    and re: "realises lib invoke (the (t_handle tk)) b"
    and run: "block_run n lib invoke tk w = Some (Ret w')"
  shows "\<exists>cfg ls. program_start tk b w = Ret cfg \<and> rsteps lib cfg ls (Halted, w')"
proof -
  from fp obtain h fr where h: "t_handle tk = Some h" "frames w h = Some fr" "conts w = Map.empty"
    unfolding fresh_program_def by auto
  let ?w = "put_promise h fr (setup_promise (this_ctx w) False (promise fr)) w"
  note start = program_start_eq [OF h(1,2), of b]
  from program_start_sim [OF fp start] have sim: "sim pend (Run None [] h b, ?w) [None \<mapsto> A_run b []]"
    by blast
  from run h obtain w1 where inv: "invoke h ?w = Ret w1" and
    turns: "run_turns n lib invoke None w1 = Some (Ret w')"
    by (auto simp: block_run_def start_task_def task_setup_eq task_take_handle_def uring_run_def
        outcome_simps split: outcome.splits)
  have "resumed h b h ?w = Some (Run None [] h b, ?w)" using h(3) by (simp add: resumed_def put_promise_def)
  with re inv h(1) obtain ls where "segment lib (Run None [] h b, ?w) ls w1"
    unfolding realises_def by fastforce
  note s = segment_rsteps [OF this]
  from rsteps_sim [OF s p sim] obtain S where "sim pend (Idle, w1) S" by blast
  from run_turns_steps [OF turns p ws _ this] re h(1) obtain ls' where
    "rsteps lib (Idle, w1) ls' (Halted, w')" by auto
  from start rsteps_trans [OF this s] show ?thesis by blast
qed

end
