(* ===== verification/Runtime_Results.thy ===== *)
theory Runtime_Results
  imports Block_Run
begin

section \<open>Properties of programs\<close>

text \<open>
  The properties of whole programs, and a program to try them on: a root that launches a
  coroutine which makes one I/O call, awaits it, and returns its result.
\<close>

subsection \<open>A program to try it on\<close>

text \<open>A ring that is the list of its pending entries and completes the oldest with 41.\<close>

definition rt_ring :: "udata list uring_lib" where
  "rt_ring = \<lparr>get_sqe = (\<lambda>r. (Some 0, r)), sqe_set_data = (\<lambda>n ud r. r @ [ud]),
     sqe_prep = (\<lambda>n op r. r), ring_submit = (\<lambda>r. (1, r)),
     wait_cqe = (\<lambda>c r. case r of [] \<Rightarrow> (0, None, r) | ud # _ \<Rightarrow> (0, Some \<lparr>user_data = ud, res = 41\<rparr>, r)),
     cqe_seen = (\<lambda>q r. remove1 (user_data q) r)\<rparr>"

lemma rt_ring_pend: "pend_contract rt_ring mset"
  unfolding pend_contract_def rt_ring_def by (auto split: list.splits)

lemma rt_ring_live: "live_ring rt_ring mset"
  unfolding live_ring_def rt_ring_def by (auto split: list.splits simp: neq_Nil_conv)

lemma rt_ring_waits: "wait_succeeds rt_ring"
  unfolding wait_succeeds_def rt_ring_def by (simp split: list.splits)

definition leaf :: "int body" where
  "leaf = Co_io Op_nop Co_return"

definition demo_wait :: "exn + coro \<Rightarrow> int body" where
  "demo_wait r = (case r of Inl e \<Rightarrow> Co_throw e | Inr t \<Rightarrow> Co_join t result_body)"

definition demo_body :: "int body" where
  "demo_body = Co_launch leaf demo_wait"

abbreviation demo_w ::
  "udata list \<Rightarrow> (addr \<rightharpoonup> io_data) \<Rightarrow> (coro \<rightharpoonup> int frame) \<Rightarrow> (coro \<rightharpoonup> int cont) \<Rightarrow> (coro \<Rightarrow> fid) \<Rightarrow>
   coro set \<Rightarrow> (udata list, int) rworld"
where
  "demo_w rg cs fs ks fb ow \<equiv>
     \<lparr>ring = rg, cells = cs, frames = fs, this_ctx = 7, conts = ks, fib = fb, owned = ow\<rparr>"

abbreviation no_fib :: "coro \<Rightarrow> fid" where
  "no_fib \<equiv> \<lambda>x. None"

definition demo_rworld :: "(udata list, int) rworld" where
  "demo_rworld = demo_w [] Map.empty [3 \<mapsto> \<lparr>promise = new_promise, at_end = False\<rparr>] Map.empty no_fib {}"

definition root_frame :: "int frame" where
  "root_frame = \<lparr>promise = new_promise\<lparr>context_ptr := Some 7, flags := set_daemon 0 False\<rparr>, at_end = False\<rparr>"

definition leaf_frame :: "int frame" where
  "leaf_frame = \<lparr>promise = setup_promise 7 True new_promise, at_end = False\<rparr>"

definition joined_frame :: "int frame" where
  "joined_frame = leaf_frame\<lparr>promise := (promise leaf_frame)\<lparr>caller := Some 3\<rparr>\<rparr>"

definition demo_start :: "(udata list, int) rworld" where
  "demo_start = demo_w [] Map.empty [3 \<mapsto> root_frame] Map.empty no_fib {}"

definition demo_waits :: "int \<Rightarrow> (udata list, int) rworld" where
  "demo_waits r = demo_w [Ud_cell 0] [0 \<mapsto> \<lparr>io_handle = Some 2, io_result = r\<rparr>]
     [3 \<mapsto> root_frame, 2 \<mapsto> joined_frame] [2 \<mapsto> Cont_io 0 Op_nop Co_return, 3 \<mapsto> Cont_call 2 result_body]
     (no_fib(2 := Some 2)) {}"

definition demo_back :: "(udata list, int) rworld" where
  "demo_back = demo_w [Ud_cell 0] Map.empty [3 \<mapsto> root_frame, 2 \<mapsto> joined_frame]
     [3 \<mapsto> Cont_call 2 result_body] (no_fib(2 := Some 2)) {}"

definition demo_finishing :: "(udata list, int) rworld" where
  "demo_finishing = demo_w [Ud_cell 0, Ud_completed] Map.empty [2 \<mapsto> ended_frame joined_frame (Inr 41)]
     Map.empty (no_fib(2 := Some 2)) {}"

definition demo_end :: "(udata list, int) rworld" where
  "demo_end = demo_finishing\<lparr>ring := []\<rparr>"

text \<open>What the handles do in the two calls that are made: the root's, and the launched task's.\<close>

definition demo_invoke :: "coro \<Rightarrow> (udata list, int) rworld \<Rightarrow> (udata list, int) rworld outcome" where
  "demo_invoke h w =
     (if h = 3 \<and> w = demo_start then Ret (demo_waits 0)
      else if h = 2 \<and> w = demo_waits 41 then Ret demo_finishing
      else Fault Dangling)"

definition demo_labels :: "int label list" where
  "demo_labels = [Event None (Launch 2 leaf), Event (Some 2) (Io Op_nop 41), Event (Some 2) (Done (Inr 41)),
     Event None (Join 2 (Inr 41)), Event None (Done (Inr 41))]"

lemmas demo_defs = demo_rworld_def demo_start_def demo_waits_def demo_back_def demo_finishing_def
  demo_end_def root_frame_def leaf_frame_def joined_frame_def new_promise_def

lemma demo_fresh: "fresh_program mset \<lparr>t_handle = Some 3\<rparr> demo_rworld"
  by (auto simp: fresh_program_def demo_rworld_def new_promise_def)

lemma demo_started:
  "program_start \<lparr>t_handle = Some 3\<rparr> demo_body demo_rworld = Ret (Run None [] 3 demo_body, demo_start)"
  by (subst program_start_eq [where h = 3 and fr = "\<lparr>promise = new_promise, at_end = False\<rparr>"])
    (simp_all add: demo_defs put_promise_def setup_promise_def)

lemma leaf_frame_facts:
  "is_daemon (flags (promise leaf_frame))" "\<not> at_end leaf_frame" "ex (promise leaf_frame) = None"
  "(promise leaf_frame)\<lparr>caller := c, context_ptr := Some 7\<rparr> = (promise leaf_frame)\<lparr>caller := c\<rparr>"
  by (simp_all add: leaf_frame_def setup_promise_def new_promise_def)

definition demo_launching :: "(udata list, int) rworld" where
  "demo_launching = demo_w [] Map.empty [3 \<mapsto> root_frame, 2 \<mapsto> leaf_frame] Map.empty (no_fib(2 := Some 2)) {2}"

definition demo_launched :: "(udata list, int) rworld" where
  "demo_launched = demo_w [Ud_cell 0] [0 \<mapsto> \<lparr>io_handle = Some 2, io_result = 0\<rparr>]
     [3 \<mapsto> root_frame, 2 \<mapsto> leaf_frame] [2 \<mapsto> Cont_io 0 Op_nop Co_return] (no_fib(2 := Some 2)) {2}"

lemma demo_launch_steps:
  "rstep rt_ring (Run None [] 3 demo_body, demo_start) [Event None (Launch 2 leaf)]
     (Run None [(3, Co_join 2 result_body)] 2 leaf, demo_launching)"
  "rstep rt_ring (Run None [(3, Co_join 2 result_body)] 2 leaf, demo_launching) []
     (Run None [] 3 (Co_join 2 result_body), demo_launched)"
proof -
  note launching = demo_launching_def and launched = demo_launched_def
  let ?wa = "demo_w [] Map.empty [3 \<mapsto> root_frame, 2 \<mapsto> leaf_frame] Map.empty (no_fib(2 := Some 2)) {2}"
  let ?wb = "demo_w [Ud_cell 0] [0 \<mapsto> \<lparr>io_handle = Some 2, io_result = 0\<rparr>]
     [3 \<mapsto> root_frame, 2 \<mapsto> leaf_frame] [2 \<mapsto> Cont_io 0 Op_nop Co_return] (no_fib(2 := Some 2)) {2}"
  have "rstep rt_ring (Run None [] 3 demo_body, demo_start) [Event None (Launch 2 leaf)]
      (Run None [(3, Co_join 2 result_body)] 2 leaf, ?wa)"
    using launch [where w = demo_start and t = 2 and lib = rt_ring and s = None and h = 3 and b = leaf
        and stk = "[]" and kl = demo_wait and tk = "\<lparr>t_handle = Some 2\<rparr>" and tk' = "\<lparr>t_handle = None\<rparr>"
        and ?w2.0 = "demo_w [] Map.empty [3 \<mapsto> root_frame, 2 \<mapsto> leaf_frame] Map.empty no_fib {}"]
    by (simp add: demo_start_def task_new_def task_setup_eq [where t = 2 and f = "\<lparr>promise = new_promise, at_end = False\<rparr>"]
        put_promise_def leaf_frame_def task_take_handle_def demo_body_def demo_wait_def)
  then show "rstep rt_ring (Run None [] 3 demo_body, demo_start) [Event None (Launch 2 leaf)]
     (Run None [(3, Co_join 2 result_body)] 2 leaf, demo_launching)" unfolding launching .
  have "rstep rt_ring (Run None [(3, Co_join 2 result_body)] 2 leaf, ?wa) []
      (Run None [] 3 (Co_join 2 result_body), ?wb)"
    using io_suspend [where w = ?wa and a = 0 and lib = rt_ring and op = Op_nop and h = 2
        and stk = "[(3, Co_join 2 result_body)]"
        and s = None and k = Co_return and aw = "\<lparr>aw_ring = True, aw_sqe = Some 0, aw_data = 0\<rparr>"
        and ?w2.0 = "?wb\<lparr>conts := Map.empty\<rparr>"]
    by (simp add: awaiter_new_def await_suspend_def await_ready_def rt_ring_def leaf_def return_to_def)
  then show "rstep rt_ring (Run None [(3, Co_join 2 result_body)] 2 leaf, demo_launching) []
     (Run None [] 3 (Co_join 2 result_body), demo_launched)" unfolding launching launched .
qed

lemma demo_segment_start:
  "segment rt_ring (Run None [] 3 demo_body, demo_start) [Event None (Launch 2 leaf)] (demo_waits 0)"
proof -
  let ?wb = demo_launched
  have s3: "rstep rt_ring (Run None [] 3 (Co_join 2 result_body), ?wb) [] (Idle, demo_waits 0)"
    using join_suspend [where w = ?wb and t = 2 and callee = "Some 2" and tk' = "\<lparr>t_handle = None\<rparr>"
        and lib = rt_ring and h = 3 and stk = "[]" and s = None and kr = result_body
        and ?w1.0 = "?wb\<lparr>frames := [3 \<mapsto> root_frame, 2 \<mapsto> joined_frame]\<rparr>"]
    by (simp add: await_transform_rvalue_def task_take_handle_def task_await_ready_def
        task_await_suspend_def put_promise_def return_to_def leave_def demo_waits_def leaf_frame_facts
        joined_frame_def root_frame_def demo_launched_def)
  from seg_step [OF demo_launch_steps(1) seg_step [OF demo_launch_steps(2) seg_end [OF s3]]] show ?thesis by simp
qed

lemma demo_segment_end:
  "segment rt_ring (Run None [] 2 (Co_return 41), demo_back)
     [Event (Some 2) (Done (Inr 41)), Event None (Join 2 (Inr 41)), Event None (Done (Inr 41))] demo_finishing"
proof -
  let ?fe = "[3 \<mapsto> root_frame, 2 \<mapsto> ended_frame joined_frame (Inr 41)]"
  let ?wc = "demo_w [Ud_cell 0] Map.empty ?fe Map.empty (no_fib(2 := Some 2)) {}"
  have j: "caller (promise joined_frame) = Some 3" "ex (promise joined_frame) = None"
    by (simp_all add: joined_frame_def leaf_frame_facts)
  have "kept (promise (ended_frame joined_frame (Inr 41))) (Inr 41)" using j by simp
  then have res: "to_sum (task_await_resume (Some 2) (demo_back\<lparr>frames := ?fe\<rparr>)) = Some (Inr 41)"
    by (intro await_resume_kept [where fr = "ended_frame joined_frame (Inr 41)"]) simp
  have s4: "rstep rt_ring (Run None [] 2 (result_body (Inr 41)), demo_back)
      [Event (Some 2) (Done (Inr 41)), Event None (Join 2 (Inr 41))]
      (Run None [] 3 (result_body (Inr 41)), ?wc)"
    using finish_joined [where lib = rt_ring and h = 2 and r = "Inr 41" and w = demo_back and c = 3
        and t = 2 and kr = result_body and r' = "Inr 41" and s = None and stk = "[]"
        and ?w1.0 = "demo_back\<lparr>frames := ?fe\<rparr>"]
      task_complete_caller [where w = demo_back and h = 2 and fr = joined_frame and c = 3 and lib = rt_ring
        and r = "Inr 41"] res j(1)
    by (simp add: demo_back_def fun_upd_twist)
  have "task_complete rt_ring 3 (Inr 41) ?wc = Ret (Noop_coroutine, demo_finishing)"
    by (subst root_complete_eq [where f = root_frame and sqe = 0 and ?r1.0 = "[Ud_cell 0]"])
      (simp_all add: rt_ring_def root_frame_def new_promise_def demo_finishing_def)
  from finish_alone [OF this, where s = None and stk = "[]"] have
    "rstep rt_ring (Run None [] 3 (result_body (Inr 41)), ?wc) [Event None (Done (Inr 41))]
      (Idle, demo_finishing)" by (simp add: leave_def return_to_def del: result_body_simps)
  from seg_step [OF s4 seg_end [OF this]] show ?thesis by simp
qed

lemma demo_run: "rsteps rt_ring (Run None [] 3 demo_body, demo_start) demo_labels (Halted, demo_end)"
proof -
  let ?q = "\<lparr>user_data = Ud_cell 0, res = 41\<rparr>"
  let ?w = "demo_finishing\<lparr>ring := [Ud_completed]\<rparr>"
  have s3: "rstep rt_ring (Idle, demo_waits 0) [Event (Some 2) (Io Op_nop 41)]
      (Run (Some ?q) [] 2 (Co_return 41), demo_back)"
    using loop_cell [where lib = rt_ring and c = None and h = 2 and a = 0 and q = ?q and op = Op_nop
        and k = Co_return and w = "demo_waits 0"] by (simp add: rt_ring_def demo_waits_def demo_back_def)
  from segment_rsteps [OF segment_seen [OF demo_segment_end refl, of "Some ?q"]] have
    s4: "rsteps rt_ring (Run (Some ?q) [] 2 (Co_return 41), demo_back)
      [Event (Some 2) (Done (Inr 41)), Event None (Join 2 (Inr 41)), Event None (Done (Inr 41))] (Idle, ?w)"
    by (simp add: leave_def demo_finishing_def) (simp add: rt_ring_def)
  have s6: "rstep rt_ring (Idle, ?w) [] (Halted, demo_end)"
    using loop_done [where lib = rt_ring and c = None and w = ?w
        and q = "\<lparr>user_data = Ud_completed, res = 41\<rparr>"] by (simp add: rt_ring_def demo_end_def)
  from rsteps_trans [OF rsteps_trans [OF rsteps_one [OF s6] s4]
      rsteps_trans [OF rsteps_one [OF s3] segment_rsteps [OF demo_segment_start]]]
  show ?thesis by (simp add: demo_labels_def)
qed

lemma demo_realises: "realises rt_ring demo_invoke 3 demo_body"
proof -
  have "resumed 3 demo_body 3 demo_start = Some (Run None [] 3 demo_body, demo_start)"
    by (simp add: resumed_def demo_start_def)
  moreover have "resumed 3 demo_body 2 (demo_waits 41) = Some (Run None [] 2 (Co_return 41), demo_back)"
    by (simp add: resumed_def demo_waits_def demo_back_def)
  ultimately show ?thesis
    using demo_segment_start demo_segment_end unfolding realises_def demo_invoke_def
    by (auto split: if_splits)
qed

lemma demo_block_run:
  "block_run (Suc (Suc 0)) rt_ring demo_invoke \<lparr>t_handle = Some 3\<rparr> demo_rworld = Some (Ret demo_end)"
proof -
  let ?w = "demo_finishing\<lparr>ring := [Ud_completed]\<rparr>"
  have started: "task_setup \<lparr>t_handle = Some 3\<rparr> False demo_rworld = Ret demo_start"
    by (subst task_setup_eq [where t = 3 and f = "\<lparr>promise = new_promise, at_end = False\<rparr>"])
      (simp_all add: demo_defs put_promise_def setup_promise_def)
  have inv: "demo_invoke 3 demo_start = Ret (demo_waits 0)" by (simp add: demo_invoke_def)
  have t1: "loop_turn rt_ring demo_invoke None (demo_waits 0) =
      Ret (True, Some \<lparr>user_data = Ud_cell 0, res = 41\<rparr>, ?w)"
    by (simp add: loop_turn_def rt_ring_def uring_resume_def call_cell_def demo_waits_def
        demo_invoke_def demo_finishing_def)
  have t2: "loop_turn rt_ring demo_invoke c ?w =
      Ret (False, Some \<lparr>user_data = Ud_completed, res = 41\<rparr>, demo_end)" for c
    by (simp add: loop_turn_def rt_ring_def uring_resume_def demo_end_def)
  have turns: "run_turns (Suc (Suc 0)) rt_ring demo_invoke None (demo_waits 0) = Some (Ret demo_end)"
    by (simp add: t1 t2)
  show ?thesis
    by (simp add: block_run_def started start_task_def task_take_handle_def uring_run_def inv turns
        del: run_turns.simps)
qed

subsection \<open>Runs are interleavings of direct executions\<close>

lemma program_fibers:
  assumes "pend_contract lib pend" and "fresh_program pend tk w" and "program_start tk b w = Ret cfg"
    and "rsteps lib cfg ls cfg'" and "fiber_body b ls f bf" and "Event f (Done r) \<in> set ls"
  shows "\<exists>es. trace f ls = es @ [Done r] \<and> direct (this_ctx w) bf es r"
proof -
  from program_sim [OF assms(1-4)] obtain S where "fibers_ok (this_ctx w) b ls S" by blast
  from fibers_ok_done [OF this assms(5,6)] show ?thesis .
qed

lemma halted_root:
  assumes "fibers_ok ctx b ls S" and "ended_root S"
  shows "\<exists>es r. trace None ls = es @ [Done r] \<and> direct ctx b es r"
proof -
  from assms(2) obtain r where "S None = Some (A_finished r)" unfolding ended_root_def by blast
  with fibers_okD(1) [OF assms(1), of None b] have "asteps ctx (A_run b []) (trace None ls) (A_finished r)"
    by (auto simp: fiber_body_def)
  then show ?thesis using abstract_machine_exact by blast
qed

text \<open>A cell that is left belongs to a launched task.\<close>

lemma halted_cells:
  assumes "sim pend (Halted, w) S" and ok: "fibers_ok ctx b ls S" and d: "cells w a = Some d"
  shows "\<exists>h t g bt. io_handle d = Some h \<and> fib w h = Some t \<and> Event g (Launch t bt) \<in> set ls"
proof -
  from assms(1) obtain P where G: "good w [] S P" and e: "ended_root S" by (auto simp: sim_def)
  from cell_fiber [OF G d] obtain f op k ks h where
    h: "S f = Some (A_wait op k ks)" "io_handle d = Some h" "fib w h = f" by blast
  with e obtain t where "f = Some t" by (cases f) (auto simp: ended_root_def)
  with fibers_okD(2) [OF ok, of f] h show ?thesis by (auto simp: fiber_body_def)
qed

lemma program_runs_direct:
  assumes "pend_contract lib pend" and "fresh_program pend tk w" and "program_start tk b w = Ret cfg"
    and "rsteps lib cfg ls (Halted, w')"
  shows "(\<exists>es r. trace None ls = es @ [Done r] \<and> direct (this_ctx w) b es r) \<and>
    pend (ring w') = image_mset Ud_cell (mset_set (dom (cells w'))) \<and>
    (\<forall>a d. cells w' a = Some d \<longrightarrow>
      (\<exists>h t g bt. io_handle d = Some h \<and> fib w' h = Some t \<and> Event g (Launch t bt) \<in> set ls))"
proof -
  from program_sim [OF assms] obtain S where S: "sim pend (Halted, w') S" "fibers_ok (this_ctx w) b ls S"
    by blast
  then have "ended_root S" "pend (ring w') = pending (cells w') False" by (auto simp: sim_def)
  with halted_root [OF S(2)] halted_cells [OF S] show ?thesis by (auto simp: pending_def)
qed

text \<open>
  C1: when \<^verbatim>\<open>block_run\<close> of a root task returns, the loop and the coroutines it called have
  run the root's body to its end as if every I/O call, every \<^verbatim>\<open>co_await\<close> of a task and every
  await of a launched task blocked: the calls of \<^verbatim>\<open>coroutine_handle\<close> that the loop made,
  each running coroutines until the call returned, add up to a run of the program in which
  the root's part is a direct execution of its body. What is left in the ring are entries of
  launched tasks that had not ended.
\<close>

theorem block_run_runs_direct:
  assumes "pend_contract lib pend" and "wait_succeeds lib" and "fresh_program pend tk w"
    and "realises lib invoke (the (t_handle tk)) b"
    and "block_run n lib invoke tk w = Some (Ret w')"
  shows "\<exists>cfg ls es r. program_start tk b w = Ret cfg \<and> rsteps lib cfg ls (Halted, w') \<and>
    trace None ls = es @ [Done r] \<and> direct (this_ctx w) b es r \<and>
    pend (ring w') = image_mset Ud_cell (mset_set (dom (cells w'))) \<and>
    (\<forall>a d. cells w' a = Some d \<longrightarrow>
      (\<exists>h t g bt. io_handle d = Some h \<and> fib w' h = Some t \<and> Event g (Launch t bt) \<in> set ls))"
proof -
  from block_run_steps [OF assms] obtain cfg ls where
    r: "program_start tk b w = Ret cfg" "rsteps lib cfg ls (Halted, w')" by blast
  from program_runs_direct [OF assms(1,3) r] r show ?thesis by blast
qed

theorem block_run_runs_direct_witness:
  "\<exists>cfg ls es r. program_start \<lparr>t_handle = Some 3\<rparr> demo_body demo_rworld = Ret cfg \<and>
    rsteps rt_ring cfg ls (Halted, demo_end) \<and>
    trace None ls = es @ [Done r] \<and> direct 7 demo_body es r \<and>
    mset (ring demo_end) = image_mset Ud_cell (mset_set (dom (cells demo_end)))"
proof -
  from demo_realises have "realises rt_ring demo_invoke (the (t_handle \<lparr>t_handle = Some 3\<rparr>)) demo_body"
    by simp
  note block_run_runs_direct [OF rt_ring_pend rt_ring_waits demo_fresh this demo_block_run]
  moreover have "this_ctx demo_rworld = 7" by (simp add: demo_rworld_def)
  ultimately show ?thesis by metis
qed

text \<open>
  C2: every run of a program under the event loop is an interleaving of its fibers, the root
  and the tasks it launched: each moves as the body it runs would with blocking calls, only
  one at a time, a launched body starts when it is launched, and awaiting a launched task
  gives the outcome it ended with.
\<close>

theorem program_interleaves:
  assumes "pend_contract lib pend" and "fresh_program pend tk w" and "program_start tk b w = Ret cfg"
    and "rsteps lib cfg ls cfg'"
  shows "\<exists>S. gsteps (this_ctx w) [None \<mapsto> A_run b []] (seen ls) S \<and> sim pend cfg' S"
  using program_sim [OF assms] by blast

theorem program_interleaves_witness:
  "\<exists>S. gsteps 7 [None \<mapsto> A_run demo_body []] demo_labels S \<and> sim mset (Halted, demo_end) S"
  using program_interleaves [OF rt_ring_pend demo_fresh demo_started demo_run]
  by (simp add: demo_labels_def demo_rworld_def)

text \<open>
  C3: a fiber that ended did what its body does when it is run as a function with blocking
  calls: its I/O calls with their results, its launches and its awaits in their order, and
  its outcome (value or exception, through any number of \<^verbatim>\<open>co_await\<close>s of tasks), whatever
  the other fibers did in between.
\<close>

theorem coroutines_run_direct:
  assumes "pend_contract lib pend" and "fresh_program pend tk w" and "program_start tk b w = Ret cfg"
    and "rsteps lib cfg ls cfg'" and "fiber_body b ls f bf" and "Event f (Done r) \<in> set ls"
  shows "\<exists>es. trace f ls = es @ [Done r] \<and> direct (this_ctx w) bf es r"
  using assms by (rule program_fibers)

theorem coroutines_run_direct_witness:
  "\<exists>es. trace (Some 2) demo_labels = es @ [Done (Inr 41)] \<and> direct 7 leaf es (Inr 41)"
proof -
  have "fiber_body demo_body demo_labels (Some 2) leaf" "Event (Some 2) (Done (Inr 41)) \<in> set demo_labels"
    by (auto simp: fiber_body_def demo_labels_def)
  from coroutines_run_direct [OF rt_ring_pend demo_fresh demo_started demo_run this] show ?thesis
    by (simp add: demo_rworld_def)
qed

text \<open>
  C5: a coroutine that awaits a launched task gets exactly the outcome (value or exception)
  that the launched body ended with, and that is the outcome of a direct execution of it,
  whether the task had ended before the await or ended after it.
\<close>

theorem joins_get_outcomes:
  assumes "pend_contract lib pend" and "fresh_program pend tk w" and "program_start tk b w = Ret cfg"
    and "rsteps lib cfg ls cfg'" and "Event g (Join t r) \<in> set ls"
  shows "Event (Some t) (Done r) \<in> set ls \<and>
    (\<exists>g' bt es. Event g' (Launch t bt) \<in> set ls \<and> direct (this_ctx w) bt es r)"
proof -
  from program_sim [OF assms(1-4)] obtain S where ok: "fibers_ok (this_ctx w) b ls S" by blast
  from fibers_okD(4) [OF ok assms(5)] have d: "Event (Some t) (Done r) \<in> set ls" .
  then have "S (Some t) \<noteq> None" using fibers_okD(3) [OF ok, of "Some t"] in_trace by (metis empty_iff list.set(1))
  with fibers_okD(2) [OF ok] obtain bt where bt: "fiber_body b ls (Some t) bt" by blast
  with fibers_ok_done [OF ok bt d] d show ?thesis by (auto simp: fiber_body_def)
qed

theorem joins_get_outcomes_witness:
  "Event (Some 2) (Done (Inr 41)) \<in> set demo_labels \<and>
    (\<exists>g' bt es. Event g' (Launch 2 bt) \<in> set demo_labels \<and> direct 7 bt es (Inr 41))"
  using joins_get_outcomes [OF rt_ring_pend demo_fresh demo_started demo_run, of None 2 "Inr 41"]
  by (simp add: demo_labels_def demo_rworld_def)

subsection \<open>Safety\<close>

text \<open>
  Under a ring with room for an entry, whose submitted entries complete, a program is
  never stuck before the loop has returned, but in two ways of its own making: it awaits a
  task it does not own, or all that is left, the root included, awaits launched tasks that
  have not ended. No null or dangling handle is called, no coroutine waits for a completion
  that is not pending, and the loop never waits with nothing submitted otherwise.
\<close>

lemma program_never_stuck:
  assumes "pend_contract lib pend" and "live_ring lib pend" and "fresh_program pend tk w"
    and "program_start tk b w = Ret cfg" and "rsteps lib cfg ls cfg'"
  shows "(\<exists>l cfg''. rstep lib cfg' l cfg'') \<or> fst cfg' = Halted \<or>
    (\<exists>s stk h t kr. fst cfg' = Run s stk h (Co_join t kr) \<and> t \<notin> owned (snd cfg')) \<or>
    fst cfg' = Idle \<and> (\<exists>S. gsteps (this_ctx w) [None \<mapsto> A_run b []] (seen ls) S \<and> deadlocked S)"
proof -
  from program_sim [OF assms(1,3-5)] obtain S where
    S: "gsteps (this_ctx w) [None \<mapsto> A_run b []] (seen ls) S" "sim pend cfg' S" by blast
  obtain c w' where c: "cfg' = (c, w')" by (cases cfg')
  show ?thesis
  proof (cases c)
    case (Run s stk h b')
    show ?thesis
    proof (cases "\<exists>t kr. b' = Co_join t kr \<and> t \<notin> owned w'")
      case True
      then show ?thesis by (auto simp: c Run)
    next
      case False
      with run_progress [OF assms(2) S(2) [unfolded c Run]] show ?thesis unfolding c Run by blast
    qed
  next
    case Idle
    from idle_progress [OF assms(1,2) S(2) [unfolded c Idle]] S(1) show ?thesis unfolding c Idle by auto
  next
    case Halted
    then show ?thesis by (simp add: c)
  qed
qed

lemma program_never_stuck_example:
  "\<exists>l cfg'. rstep rt_ring (Run None [] 3 demo_body, demo_start) l cfg'"
  using program_never_stuck [OF rt_ring_pend rt_ring_live demo_fresh demo_started rs_refl]
  by (simp add: demo_body_def)



end
