(* ===== verification/Net_Address.thy ===== *)
theory Net_Address
  imports Error_Code
begin

section \<open>Addresses and endpoints\<close>

text \<open>
  \<^verbatim>\<open>kkp-core/include/kkp/net/address.hpp\<close>, \<^verbatim>\<open>endpoint.hpp\<close>, \<^verbatim>\<open>tcp.hpp\<close> and
  \<^verbatim>\<open>kkp-core/src/net/address.cpp\<close>. An \<^verbatim>\<open>address\<close> holds one \<^verbatim>\<open>::sockaddr\<close>, an object of 16
  bytes, and reads and writes it through references to \<^verbatim>\<open>sockaddr_in\<close> and
  \<^verbatim>\<open>sockaddr_in6\<close>: the model is the list of its bytes with the layout of Linux on a
  little-endian machine, where an access past the 16 bytes is a fault. The resolver calls
  (\<^verbatim>\<open>inet_pton\<close>, \<^verbatim>\<open>inet_ntop\<close>, \<^verbatim>\<open>getaddrinfo\<close>, \<^verbatim>\<open>gai_strerror\<close>) are parameters.
\<close>

subsection \<open>Layout\<close>

definition AF_INET :: u16 where "AF_INET = 2"
definition AF_INET6 :: u16 where "AF_INET6 = 10"

type_synonym address = "byte list"

text \<open>\<^verbatim>\<open>sizeof(sockaddr)\<close>, of \<^verbatim>\<open>sockaddr_in\<close> and of \<^verbatim>\<open>sockaddr_in6\<close>; the member offsets.\<close>

abbreviation (input) sizeof_sockaddr :: nat where "sizeof_sockaddr \<equiv> 16"
abbreviation (input) sizeof_in :: nat where "sizeof_in \<equiv> 16"
abbreviation (input) sizeof_in6 :: nat where "sizeof_in6 \<equiv> 28"
abbreviation (input) off_family :: nat where "off_family \<equiv> 0"
abbreviation (input) off_port :: nat where "off_port \<equiv> 2"
abbreviation (input) off_sin_addr :: nat where "off_sin_addr \<equiv> 4"
abbreviation (input) off_sin6_addr :: nat where "off_sin6_addr \<equiv> 8"

definition u16_bytes :: "u16 \<Rightarrow> byte list" where
  "u16_bytes v = [ucast v, ucast (drop_bit 8 v)]"

definition u16_of_bytes :: "byte list \<Rightarrow> u16" where
  "u16_of_bytes bs = (case bs of [a, b] \<Rightarrow> ucast a OR push_bit 8 (ucast b) | _ \<Rightarrow> 0)"

definition put_u16 :: "nat \<Rightarrow> u16 \<Rightarrow> byte list \<Rightarrow> byte list outcome" where
  "put_u16 off v m = mem_write off (u16_bytes v) m"

definition get_u16 :: "nat \<Rightarrow> byte list \<Rightarrow> u16 outcome" where
  "get_u16 off m = obind (mem_read off 2 m) (\<lambda>bs. Ret (u16_of_bytes bs))"

definition htons :: "u16 \<Rightarrow> u16" where
  "htons v = push_bit 8 v OR drop_bit 8 v"

definition address_new :: address where
  "address_new = replicate sizeof_sockaddr 0"

text \<open>The constructor from a \<^verbatim>\<open>sockaddr\<close>, and the accessor.\<close>

definition address_of_sockaddr :: "byte list \<Rightarrow> address" where
  "address_of_sockaddr addr = addr"

definition address_sockaddr :: "address \<Rightarrow> byte list" where
  "address_sockaddr a = a"

definition is_v4 :: "address \<Rightarrow> bool" where
  "is_v4 a \<longleftrightarrow> get_u16 off_family a = Ret AF_INET"

definition is_v6 :: "address \<Rightarrow> bool" where
  "is_v6 a \<longleftrightarrow> get_u16 off_family a = Ret AF_INET6"

subsection \<open>Parsing\<close>

text \<open>
  A string view: the bytes from \<^verbatim>\<open>data()\<close> up to the next NUL, which is what the C functions
  read, and the size of the view, which \<^verbatim>\<open>std::string\<close> copies.
\<close>

record string_view =
  sv_bytes :: string
  sv_size :: nat

definition sv_string :: "string_view \<Rightarrow> string" where
  "sv_string v = take (sv_size v) (sv_bytes v)"

type_synonym pton = "u16 \<Rightarrow> string \<Rightarrow> byte list option"

definition parse_from_ip :: "pton \<Rightarrow> string_view \<Rightarrow> u16 \<Rightarrow> address result outcome" where
  "parse_from_ip pton addr port =
     (case pton AF_INET (sv_bytes addr) of
        Some bs \<Rightarrow>
          obind (mem_write off_sin_addr bs address_new) (\<lambda>m.
          obind (put_u16 off_family AF_INET m) (\<lambda>m.
          obind (put_u16 off_port (htons port) m) (\<lambda>m. Ret (Inr m))))
      | None \<Rightarrow>
          (case pton AF_INET6 (sv_bytes addr) of
             Some bs \<Rightarrow>
               obind (mem_write off_sin6_addr bs address_new) (\<lambda>m.
               obind (put_u16 off_family AF_INET6 m) (\<lambda>m.
               obind (put_u16 off_port (htons port) m) (\<lambda>m. Ret (Inr m))))
           | None \<Rightarrow> Ret (Inl (Error_Code 0 Generic_category))))"

text \<open>
  \<^verbatim>\<open>getaddrinfo\<close> returns a code and, on success, the entries of the list: family and the
  bytes of \<^verbatim>\<open>*ai_addr\<close>. The loop takes the first entry of either family.
\<close>

record resolver =
  getaddrinfo :: "string \<Rightarrow> int \<times> (u16 \<times> byte list) list"
  gai_strerror :: "int \<Rightarrow> string"

fun domain_loop :: "(u16 \<times> byte list) list \<Rightarrow> string_view \<Rightarrow> u16 \<Rightarrow> address outcome" where
  "domain_loop [] addr port =
     Thrown (Runtime_error (''No valid address found for: '' @ sv_string addr))"
| "domain_loop ((family, ai_addr) # rest) addr port =
     (if family = AF_INET then
        obind (mem_read 0 sizeof_in ai_addr) (\<lambda>bs.
        obind (mem_write 0 bs address_new) (\<lambda>m.
        obind (put_u16 off_port (htons port) m) (\<lambda>m.
        put_u16 off_family AF_INET m)))
      else if family = AF_INET6 then
        obind (mem_read 0 sizeof_in6 ai_addr) (\<lambda>bs.
        obind (mem_write 0 bs address_new) (\<lambda>m.
        obind (put_u16 off_port (htons port) m) (\<lambda>m.
        put_u16 off_family AF_INET6 m)))
      else domain_loop rest addr port)"

text \<open>
  The second component counts the calls of \<^verbatim>\<open>freeaddrinfo\<close>: the deferred call runs when the
  function is left after \<^verbatim>\<open>getaddrinfo\<close> succeeded, by a return or by an exception.
\<close>

definition parse_from_domain ::
  "resolver \<Rightarrow> string_view \<Rightarrow> u16 \<Rightarrow> address outcome \<times> nat" where
  "parse_from_domain rs addr port =
     (let (ret, res) = getaddrinfo rs (sv_bytes addr) in
      if ret \<noteq> 0 then
        (Thrown (Runtime_error (''getaddrinfo failed: '' @ gai_strerror rs ret @
           '' for '' @ sv_string addr)), 0)
      else (domain_loop res addr port, 1))"

definition address_from ::
  "pton \<Rightarrow> resolver \<Rightarrow> string_view \<Rightarrow> u16 \<Rightarrow> address outcome" where
  "address_from pton rs addr port =
     obind (parse_from_ip pton addr port)
       (\<lambda>r. case r of Inr a \<Rightarrow> Ret a | Inl e \<Rightarrow> fst (parse_from_domain rs addr port))"

definition ip_address :: "(u16 \<Rightarrow> byte list \<Rightarrow> string) \<Rightarrow> address \<Rightarrow> string outcome" where
  "ip_address ntop a =
     (if is_v4 a then
        obind (mem_read off_sin_addr 4 a) (\<lambda>bs. Ret (ntop AF_INET bs))
      else if is_v6 a then
        obind (mem_read off_sin6_addr 16 a) (\<lambda>bs. Ret (ntop AF_INET6 bs))
      else Ret ''error'')"

text \<open>
  \<^verbatim>\<open>init_addr_from_fd\<close>: \<^verbatim>\<open>getsockname\<close> fails with an error text, or gives the bytes of a
  \<^verbatim>\<open>sockaddr_storage\<close> (128 bytes), from which the part of the family is copied over the
  object \<^verbatim>\<open>addr\<close> designates.
\<close>

definition init_addr_from_fd :: "string + byte list \<Rightarrow> byte list \<Rightarrow> byte list outcome" where
  "init_addr_from_fd sockname addr =
     (case sockname of
        Inl err \<Rightarrow> Thrown (Runtime_error (''getsockname failed: '' @ err))
      | Inr temp \<Rightarrow>
          obind (get_u16 off_family temp) (\<lambda>fam.
          if fam = AF_INET then
            obind (mem_read 0 sizeof_in temp) (\<lambda>bs. mem_write 0 bs addr)
          else if fam = AF_INET6 then
            obind (mem_read 0 sizeof_in6 temp) (\<lambda>bs. mem_write 0 bs addr)
          else Thrown (Runtime_error ''Unknown address family'')))"

subsection \<open>Endpoints\<close>

record endpoint =
  ep_address :: address
  ep_domain :: string

definition endpoint_new :: endpoint where
  "endpoint_new = \<lparr>ep_address = address_new, ep_domain = []\<rparr>"

definition endpoint_of_address ::
  "(u16 \<Rightarrow> byte list \<Rightarrow> string) \<Rightarrow> address \<Rightarrow> endpoint outcome" where
  "endpoint_of_address ntop a =
     obind (ip_address ntop a) (\<lambda>d. Ret \<lparr>ep_address = a, ep_domain = d\<rparr>)"

definition endpoint_of :: "address \<Rightarrow> string_view \<Rightarrow> endpoint" where
  "endpoint_of a d = \<lparr>ep_address = a, ep_domain = sv_string d\<rparr>"

definition endpoint_address :: "endpoint \<Rightarrow> address" where
  "endpoint_address e = ep_address e"

text \<open>The throw leaves a \<^verbatim>\<open>noexcept\<close> function.\<close>

definition endpoint_port :: "endpoint \<Rightarrow> u16 outcome" where
  "endpoint_port e =
     (if is_v4 (ep_address e) then get_u16 off_port (ep_address e)
      else if is_v6 (ep_address e) then get_u16 off_port (ep_address e)
      else Fault Terminate)"

definition endpoint_from ::
  "pton \<Rightarrow> resolver \<Rightarrow> string_view \<Rightarrow> u16 \<Rightarrow> endpoint outcome" where
  "endpoint_from pton rs host port =
     obind (address_from pton rs host port) (\<lambda>a. Ret (endpoint_of a host))"

record tcp =
  protocol_family :: u16

definition tcp_new :: tcp where "tcp_new = \<lparr>protocol_family = AF_INET\<rparr>"
definition tcp_v4 :: tcp where "tcp_v4 = \<lparr>protocol_family = AF_INET\<rparr>"
definition tcp_v6 :: tcp where "tcp_v6 = \<lparr>protocol_family = AF_INET6\<rparr>"
definition tcp_eq :: "tcp \<Rightarrow> tcp \<Rightarrow> bool" where
  "tcp_eq l r \<longleftrightarrow> protocol_family l = protocol_family r"

subsection \<open>Reading back what was written\<close>

lemma length_u16_bytes [simp]: "length (u16_bytes v) = 2"
  by (simp add: u16_bytes_def)

lemma u16_of_bytes_bytes [simp]: "u16_of_bytes (u16_bytes v) = v"
  unfolding u16_of_bytes_def u16_bytes_def
  by (rule bit_word_eqI)
    (auto simp: bit_or_iff bit_push_bit_iff bit_ucast_iff bit_drop_bit_eq dest: bit_imp_le_length)

lemma get_put_same: "put_u16 off v m = Ret m' \<Longrightarrow> get_u16 off m' = Ret v"
  using mem_read_write_same [of off "u16_bytes v" m m']
  by (simp add: put_u16_def get_u16_def)

lemma get_put_before:
  "put_u16 off v m = Ret m' \<Longrightarrow> off' + n \<le> off \<Longrightarrow> mem_read off' n m' = mem_read off' n m"
  unfolding put_u16_def by (rule mem_read_write_before)

lemma get_put_after:
  "put_u16 off v m = Ret m' \<Longrightarrow> off + 2 \<le> off' \<Longrightarrow> mem_read off' n m' = mem_read off' n m"
  unfolding put_u16_def using mem_read_write_after [of off "u16_bytes v" m m' off' n] by simp

lemma put_u16_length: "put_u16 off v m = Ret m' \<Longrightarrow> length m' = length m"
  unfolding put_u16_def by (rule mem_write_length)

lemma put_u16_fits: "off + 2 \<le> length m \<Longrightarrow> \<exists>m'. put_u16 off v m = Ret m'"
  by (simp add: put_u16_def mem_write_def)

lemma mem_write_fits: "off + length bs \<le> length m \<Longrightarrow> \<exists>m'. mem_write off bs m = Ret m'"
  by (simp add: mem_write_def)

lemma length_address_new [simp]: "length address_new = 16"
  by (simp add: address_new_def)

lemma htons_involution: "htons (htons v) = v"
  unfolding htons_def
  by (rule bit_word_eqI)
    (auto simp: bit_or_iff bit_push_bit_iff bit_drop_bit_eq dest: bit_imp_le_length)

lemma AF_distinct [simp]: "AF_INET \<noteq> AF_INET6" "AF_INET6 \<noteq> AF_INET"
  by (simp_all add: AF_INET_def AF_INET6_def)

lemma not_v4_and_v6: "is_v4 a \<Longrightarrow> \<not> is_v6 a"
  by (simp add: is_v4_def is_v6_def)

lemma length_2_cases: "length bs = 2 \<Longrightarrow> \<exists>a b. bs = [a, b]"
  by (auto simp: numeral_2_eq_2 length_Suc_conv)

lemma get_u16_mem_read:
  "mem_read off 2 m' = mem_read off 2 m \<Longrightarrow> get_u16 off m' = get_u16 off m"
  by (simp add: get_u16_def)

text \<open>The three writes of the IPv4 branch.\<close>

lemma v4_writes:
  assumes bs: "length bs = 4"
  obtains m where "parse_from_ip pton addr port = Ret (Inr m) \<or> pton AF_INET (sv_bytes addr) \<noteq> Some bs"
    and "length m = 16" and "is_v4 m" and "mem_read off_sin_addr 4 m = Ret bs"
    and "get_u16 off_port m = Ret (htons port)"
proof -
  have "off_sin_addr + length bs \<le> length address_new" using bs by simp
  from mem_write_fits [OF this] obtain m1 where
    m1: "mem_write off_sin_addr bs address_new = Ret m1" ..
  then have l1: "length m1 = 16" using mem_write_length [OF m1] by simp
  then have "off_family + 2 \<le> length m1" by simp
  from put_u16_fits [OF this] obtain m2 where m2: "put_u16 off_family AF_INET m1 = Ret m2" by blast
  then have l2: "length m2 = 16" using put_u16_length [OF m2] l1 by simp
  then have "off_port + 2 \<le> length m2" by simp
  from put_u16_fits [OF this] obtain m where m: "put_u16 off_port (htons port) m2 = Ret m" by blast
  have "get_u16 off_family m = get_u16 off_family m2"
    by (rule get_u16_mem_read, rule get_put_before [OF m]) simp
  then have v4: "is_v4 m" using get_put_same [OF m2] by (simp add: is_v4_def)
  have "mem_read off_sin_addr 4 m = mem_read off_sin_addr 4 m2"
    by (rule get_put_after [OF m]) simp
  also have "\<dots> = mem_read off_sin_addr 4 m1" by (rule get_put_after [OF m2]) simp
  also have "\<dots> = Ret bs" using mem_read_write_same [OF m1] bs by simp
  finally have "mem_read off_sin_addr 4 m = Ret bs" .
  with v4 get_put_same [OF m] put_u16_length [OF m] l2 m1 m2 m show ?thesis
    by (intro that [of m]) (auto simp: parse_from_ip_def)
qed

lemma v6_write_overruns:
  "length bs = 16 \<Longrightarrow> mem_write off_sin6_addr bs address_new = Fault Out_of_bounds"
  by (simp add: mem_write_def)

lemma domain_v4:
  assumes "16 \<le> length ai"
  obtains m where "domain_loop ((AF_INET, ai) # rest) addr port = Ret m"
    and "length m = 16" and "is_v4 m" and "get_u16 off_port m = Ret (htons port)"
    and "mem_read off_sin_addr 12 m = mem_read off_sin_addr 12 ai"
proof -
  have rd: "mem_read 0 16 ai = Ret (take 16 ai)" using assms by (simp add: mem_read_def)
  have "0 + length (take 16 ai) \<le> length address_new" by simp
  from mem_write_fits [OF this] obtain m1 where
    m1: "mem_write 0 (take 16 ai) address_new = Ret m1" ..
  then have l1: "length m1 = 16" using mem_write_length [OF m1] by simp
  then have "off_port + 2 \<le> length m1" by simp
  from put_u16_fits [OF this] obtain m2 where m2: "put_u16 off_port (htons port) m1 = Ret m2" by blast
  then have l2: "length m2 = 16" using put_u16_length [OF m2] l1 by simp
  then have "off_family + 2 \<le> length m2" by simp
  from put_u16_fits [OF this] obtain m where m: "put_u16 off_family AF_INET m2 = Ret m" by blast
  have "get_u16 off_port m = get_u16 off_port m2"
    by (rule get_u16_mem_read, rule get_put_after [OF m]) simp
  moreover have "mem_read off_sin_addr 12 m = mem_read off_sin_addr 12 m2"
    by (rule get_put_after [OF m]) simp
  moreover have "mem_read off_sin_addr 12 m2 = mem_read off_sin_addr 12 m1"
    by (rule get_put_after [OF m2]) simp
  moreover have "m1 = take 16 ai"
    using m1 assms by (auto simp: mem_write_def split: if_splits)
  moreover have "mem_read off_sin_addr 12 (take 16 ai) = mem_read off_sin_addr 12 ai"
    using assms by (simp add: mem_read_def drop_take)
  moreover have "is_v4 m" using get_put_same [OF m] by (simp add: is_v4_def)
  ultimately show ?thesis
    using get_put_same [OF m2] put_u16_length [OF m] l2 rd m1 m2 m
    by (intro that [of m]) simp_all
qed

lemma domain_v6:
  assumes "28 \<le> length ai"
  shows "domain_loop ((AF_INET6, ai) # rest) addr port = Fault Out_of_bounds"
  using assms by (simp add: mem_read_def mem_write_def)

definition supported :: "u16 \<times> byte list \<Rightarrow> bool" where
  "supported e \<longleftrightarrow> fst e = AF_INET \<or> fst e = AF_INET6"

lemma domain_loop_first:
  "domain_loop xs addr port =
     (case dropWhile (\<lambda>e. \<not> supported e) xs of
        [] \<Rightarrow> Thrown (Runtime_error (''No valid address found for: '' @ sv_string addr))
      | e # rest \<Rightarrow> domain_loop (e # rest) addr port)"
  by (induction xs addr port rule: domain_loop.induct) (auto simp: supported_def)

text \<open>The documented sizes of what the resolver hands back.\<close>

definition pton_sizes :: "pton \<Rightarrow> bool" where
  "pton_sizes pton \<longleftrightarrow>
     (\<forall>s bs. (pton AF_INET s = Some bs \<longrightarrow> length bs = 4) \<and>
       (pton AF_INET6 s = Some bs \<longrightarrow> length bs = 16))"

definition entry_sizes :: "(u16 \<times> byte list) list \<Rightarrow> bool" where
  "entry_sizes xs \<longleftrightarrow> (\<forall>(fam, ai) \<in> set xs.
     (fam = AF_INET \<longrightarrow> length ai = 16) \<and> (fam = AF_INET6 \<longrightarrow> length ai = 28))"

lemma entry_sizes_dropWhile:
  "entry_sizes xs \<Longrightarrow> entry_sizes (dropWhile P xs)"
  unfolding entry_sizes_def by (meson set_dropWhileD)

subsection \<open>Properties\<close>

text \<open>
  C29: an IPv4 literal is parsed into an endpoint whose address is IPv4, prints back as the
  parsed bytes, and keeps the host text as its domain; its \<^verbatim>\<open>port()\<close> is the port in network
  byte order, so a caller gets the number it passed in only after swapping the bytes.
\<close>

theorem v4_literal_endpoint:
  assumes pton: "pton AF_INET (sv_bytes host) = Some bs" and len: "length bs = 4"
  shows "\<exists>e. endpoint_from pton rs host port = Ret e \<and> is_v4 (ep_address e) \<and>
    length (ep_address e) = sizeof_sockaddr \<and>
    ip_address ntop (ep_address e) = Ret (ntop AF_INET bs) \<and>
    ep_domain e = sv_string host \<and>
    (\<exists>p. endpoint_port e = Ret p \<and> p = htons port \<and> port = htons p)"
proof -
  obtain m where m: "parse_from_ip pton host port = Ret (Inr m)" "length m = 16" "is_v4 m"
    "mem_read off_sin_addr 4 m = Ret bs" "get_u16 off_port m = Ret (htons port)"
    by (rule v4_writes [OF len, of pton host port]) (use pton in auto)
  then have "endpoint_from pton rs host port = Ret (endpoint_of m host)"
    by (simp add: endpoint_from_def address_from_def)
  with m show ?thesis
    by (simp add: endpoint_of_def ip_address_def endpoint_port_def htons_involution)
qed

definition demo_pton :: pton where
  "demo_pton fam s =
     (if fam = AF_INET \<and> s = ''127.0.0.1'' then Some [127, 0, 0, 1]
      else if fam = AF_INET6 \<and> s = ''::1'' then Some (replicate 15 0 @ [1]) else None)"

definition demo_resolver :: resolver where
  "demo_resolver = \<lparr>getaddrinfo = (\<lambda>s. if s = ''a'' then (0, [(1, []), (AF_INET, replicate 16 9)])
       else if s = ''b'' then (0, [(AF_INET6, replicate 28 9)]) else (- 2, [])),
     gai_strerror = (\<lambda>e. ''unknown'')\<rparr>"

theorem v4_literal_endpoint_witness:
  "\<exists>e. endpoint_from demo_pton demo_resolver \<lparr>sv_bytes = ''127.0.0.1'', sv_size = 9\<rparr> 80 = Ret e \<and>
     endpoint_port e = Ret (htons 80) \<and> htons 80 = 20480"
proof -
  have "demo_pton AF_INET (sv_bytes \<lparr>sv_bytes = ''127.0.0.1'', sv_size = 9\<rparr>) = Some [127, 0, 0, 1]"
    by (simp add: demo_pton_def)
  moreover have "length [127, 0, 0, 1 :: byte] = 4" by simp
  moreover have "htons 80 = 20480" by (simp add: htons_def)
  ultimately show ?thesis using v4_literal_endpoint by blast
qed

text \<open>
  C38: an IPv6 literal overruns the address object. \<^verbatim>\<open>inet_pton\<close> writes the 16 bytes of
  \<^verbatim>\<open>sin6_addr\<close> at offset 8 of a 16-byte \<^verbatim>\<open>sockaddr\<close>, so parsing any IPv6 literal writes past
  the end of the object, whatever the resolver and the port.
\<close>

theorem v6_literal_overruns:
  assumes "pton AF_INET (sv_bytes host) = None" and "pton AF_INET6 (sv_bytes host) = Some bs"
    and "length bs = 16"
  shows "parse_from_ip pton host port = Fault Out_of_bounds \<and>
    endpoint_from pton rs host port = Fault Out_of_bounds"
  using assms by (simp add: parse_from_ip_def endpoint_from_def address_from_def v6_write_overruns)

theorem v6_literal_overruns_witness:
  "endpoint_from demo_pton demo_resolver \<lparr>sv_bytes = ''::1'', sv_size = 3\<rparr> 443 = Fault Out_of_bounds"
  using v6_literal_overruns [of demo_pton "\<lparr>sv_bytes = ''::1'', sv_size = 3\<rparr>"
      "replicate 15 0 @ [1]" 443 demo_resolver]
  by (simp add: demo_pton_def)



text \<open>
  The module never produces an IPv6 address: whatever the literal, the resolver's answer
  and the port, an address that \<^verbatim>\<open>address::from\<close> returns is IPv4 and fills its 16 bytes.
\<close>

lemma address_from_is_v4:
  assumes pton: "pton_sizes pton" and entries: "entry_sizes (snd (getaddrinfo rs (sv_bytes host)))"
    and ret: "address_from pton rs host port = Ret a"
  shows "is_v4 a \<and> \<not> is_v6 a \<and> length a = sizeof_sockaddr"
proof -
  consider (v4) bs where "pton AF_INET (sv_bytes host) = Some bs"
    | (v6) bs where "pton AF_INET (sv_bytes host) = None" "pton AF_INET6 (sv_bytes host) = Some bs"
    | (name) "pton AF_INET (sv_bytes host) = None" "pton AF_INET6 (sv_bytes host) = None"
    by fastforce
  then have "is_v4 a \<and> length a = 16"
  proof cases
    case v4
    with pton have "length bs = 4" by (auto simp: pton_sizes_def)
    then obtain m where "parse_from_ip pton host port = Ret (Inr m)" "length m = 16" "is_v4 m"
      using v4_writes [of bs pton host port] v4 by metis
    with ret show ?thesis by (simp add: address_from_def)
  next
    case v6
    with pton have "length bs = 16" by (auto simp: pton_sizes_def)
    with v6 ret show ?thesis by (simp add: address_from_def parse_from_ip_def v6_write_overruns)
  next
    case name
    obtain r xs where g: "getaddrinfo rs (sv_bytes host) = (r, xs)"
      by (cases "getaddrinfo rs (sv_bytes host)")
    from name ret g have dom: "domain_loop xs host port = Ret a"
      by (auto simp: address_from_def parse_from_ip_def parse_from_domain_def split: if_splits)
    show ?thesis
    proof (cases "dropWhile (\<lambda>e. \<not> supported e) xs")
      case Nil
      from dom show ?thesis by (subst (asm) domain_loop_first) (simp add: Nil)
    next
      case (Cons e rest)
      obtain fam ai where e: "e = (fam, ai)" by (cases e)
      have sup: "supported e" using Cons by (metis (mono_tags, lifting) dropWhile_eq_Cons_conv)
      have sz: "(fam = AF_INET \<longrightarrow> length ai = 16) \<and> (fam = AF_INET6 \<longrightarrow> length ai = 28)"
        using entry_sizes_dropWhile [of xs "\<lambda>e. \<not> supported e"] entries g Cons e
        by (simp add: entry_sizes_def)
      have "domain_loop ((fam, ai) # rest) host port = Ret a"
        using dom Cons e by (subst (asm) domain_loop_first) simp
      with sup e sz show ?thesis
        using domain_v4 [of ai rest host port] domain_v6 [of ai rest host port]
        by (auto simp: supported_def simp del: domain_loop.simps)
    qed
  qed
  then show ?thesis using not_v4_and_v6 by simp
qed

lemma address_from_is_v4_example:
  "\<exists>a. address_from demo_pton demo_resolver \<lparr>sv_bytes = ''127.0.0.1'', sv_size = 9\<rparr> 80 = Ret a \<and>
     is_v4 a \<and> length a = 16"
proof -
  let ?h = "\<lparr>sv_bytes = ''127.0.0.1'', sv_size = 9\<rparr>"
  have sz: "pton_sizes demo_pton" by (auto simp: pton_sizes_def demo_pton_def)
  have en: "entry_sizes (snd (getaddrinfo demo_resolver (sv_bytes ?h)))"
    by (simp add: demo_resolver_def entry_sizes_def)
  obtain a where a: "address_from demo_pton demo_resolver ?h 80 = Ret a"
    by (simp add: address_from_def parse_from_ip_def demo_pton_def address_new_def mem_write_def
        put_u16_def)
  from address_from_is_v4 [OF sz en a] a show ?thesis by auto
qed

end
