(* ===== verification/Kk_Stream.thy ===== *)
theory Kk_Stream
  imports Prelude
begin

section \<open>The stream concept\<close>

text \<open>
  \<^verbatim>\<open>kkp-core/include/kkp/kkp_traits.hpp\<close>: the concept \<^verbatim>\<open>kk_stream\<close> asks a class for
  \<^verbatim>\<open>send\<close>, \<^verbatim>\<open>recv\<close>, \<^verbatim>\<open>is_alive\<close> and \<^verbatim>\<open>close\<close>. What the users of a stream rely on for
  the last two is the locale \<open>kk_stream\<close>: a successful close leaves a dead stream, and
  closing a dead stream again fails without touching the operating system (\<open>'o\<close>).
  \<^verbatim>\<open>net::socket\<close>, \<^verbatim>\<open>ssl_stream\<close> over any such stream, and the variant \<^verbatim>\<open>base_stream\<close>
  interpret it.
\<close>

fun close_times :: "('s \<Rightarrow> 'o \<Rightarrow> bool \<times> 's \<times> 'o) \<Rightarrow> nat \<Rightarrow> 's \<Rightarrow> 'o \<Rightarrow> bool list \<times> 's \<times> 'o" where
  "close_times close 0 s st = ([], s, st)"
| "close_times close (Suc n) s st =
     (let (r, s1, st1) = close s st; (rs, s2, st2) = close_times close n s1 st1
      in (r # rs, s2, st2))"

locale kk_stream =
  fixes close :: "'s \<Rightarrow> 'o \<Rightarrow> bool \<times> 's \<times> 'o"
    and alive :: "'s \<Rightarrow> 'o \<Rightarrow> bool"
  assumes close_dead: "close s st = (True, s', st') \<Longrightarrow> \<not> alive s' u"
    and close_again: "close s st = (True, s', st') \<Longrightarrow> close s' u = (False, s', u)"
begin

lemma closed_stays:
  assumes "close s st = (True, s', st')"
  shows "close_times close n s' st' = (replicate n False, s', st')"
  by (induction n) (simp_all add: close_again [OF assms])

text \<open>Of any number of close calls in a row at most one succeeds, and it is the last to act.\<close>

lemma at_most_one_close:
  "close_times close n s st = (rs, s', st') \<Longrightarrow>
     length rs = n \<and>
     (True \<in> set rs \<longrightarrow> (\<exists>i. rs = replicate i False @ True # replicate (n - Suc i) False \<and> i < n \<and>
        \<not> alive s' st'))"
proof (induction n arbitrary: s st rs)
  case 0
  then show ?case by simp
next
  case (Suc n)
  obtain r s1 st1 where c: "close s st = (r, s1, st1)" by (cases "close s st") auto
  show ?case
  proof (cases r)
    case True
    with c have c1: "close s st = (True, s1, st1)" by simp
    with Suc.prems closed_stays [OF c1, of n] close_dead [OF c1]
    show ?thesis by (intro conjI impI exI [of _ 0]) auto
  next
    case False
    obtain rs1 s2 st2 where t: "close_times close n s1 st1 = (rs1, s2, st2)"
      by (cases "close_times close n s1 st1") auto
    with Suc.prems c False have eq: "rs = False # rs1" "s' = s2" "st' = st2" by auto
    from Suc.IH [of s1 st1 rs1] t eq have len: "length rs1 = n"
      and one: "True \<in> set rs1 \<Longrightarrow> \<exists>i. rs1 = replicate i False @ True # replicate (n - Suc i) False \<and>
        i < n \<and> \<not> alive s' st'" by auto
    have "\<exists>i. rs = replicate i False @ True # replicate (Suc n - Suc i) False \<and> i < Suc n \<and>
        \<not> alive s' st'" if "True \<in> set rs"
    proof -
      from that eq have "True \<in> set rs1" by simp
      from one [OF this] obtain i where
        i: "rs1 = replicate i False @ True # replicate (n - Suc i) False" "i < n" "\<not> alive s' st'"
        by blast
      then show ?thesis by (intro exI [of _ "Suc i"]) (simp add: eq(1))
    qed
    with len eq show ?thesis by simp
  qed
qed

end

end
