(* ===== verification/Net_Socket.thy ===== *)
theory Net_Socket
  imports Uring Net_Address Ownership Kk_Stream
begin

section \<open>Sockets\<close>

text \<open>
  \<^verbatim>\<open>kkp-core/include/kkp/net/socket.hpp\<close>: the move-only \<^verbatim>\<open>socket\<close>, what \<^verbatim>\<open>accept\<close> makes of
  its completion, and \<^verbatim>\<open>server_socket\<close>. The system calls are the fields of \<open>os\<close>, a
  parameter; a call takes and returns the state of the operating system. The
  \<^verbatim>\<open>ring_\<close> pointer is kept only as "set or null".
\<close>

record 'o os =
  sys_close :: "int \<Rightarrow> 'o \<Rightarrow> int \<times> 'o"
  so_error :: "int \<Rightarrow> 'o \<Rightarrow> int \<times> int"    \<comment> \<open>\<^verbatim>\<open>getsockopt(SO_ERROR)\<close>: return value, value\<close>
  sys_socket :: "'o \<Rightarrow> int \<times> 'o"
  set_reuseaddr :: "int \<Rightarrow> 'o \<Rightarrow> int \<times> 'o"
  sys_bind :: "int \<Rightarrow> byte list \<Rightarrow> 'o \<Rightarrow> int \<times> 'o"
  sys_listen :: "int \<Rightarrow> int \<Rightarrow> 'o \<Rightarrow> int \<times> 'o"
  errno :: "'o \<Rightarrow> int"

subsection \<open>\<^verbatim>\<open>socket\<close>\<close>

record socket =
  s_ring :: bool
  s_fd :: int
  s_addr :: address
  s_peer :: endpoint

definition socket_new :: "int \<Rightarrow> socket" where
  "socket_new fd = \<lparr>s_ring = True, s_fd = fd, s_addr = address_new, s_peer = endpoint_new\<rparr>"

definition socket_new_peer :: "int \<Rightarrow> endpoint \<Rightarrow> socket" where
  "socket_new_peer fd peer = (socket_new fd)\<lparr>s_peer := peer\<rparr>"

definition socket_new_addr :: "int \<Rightarrow> address \<Rightarrow> socket" where
  "socket_new_addr fd addr = (socket_new fd)\<lparr>s_peer := endpoint_new\<lparr>ep_address := addr\<rparr>\<rparr>"

text \<open>A moved-from endpoint keeps its address; its string is left empty.\<close>

definition endpoint_moved :: "endpoint \<Rightarrow> endpoint" where
  "endpoint_moved e = e\<lparr>ep_domain := []\<rparr>"

definition socket_move :: "socket \<Rightarrow> socket \<times> socket" where
  "socket_move other =
     (\<lparr>s_ring = s_ring other, s_fd = s_fd other, s_addr = address_new, s_peer = s_peer other\<rparr>,
      other\<lparr>s_ring := False, s_fd := - 1, s_peer := endpoint_moved (s_peer other)\<rparr>)"

definition socket_assign :: "socket \<Rightarrow> socket \<Rightarrow> socket \<times> socket \<times> int list" where
  "socket_assign this other =
     (this\<lparr>s_ring := s_ring other, s_fd := s_fd other, s_peer := s_peer other\<rparr>,
      other\<lparr>s_ring := False, s_fd := - 1, s_peer := endpoint_moved (s_peer other)\<rparr>,
      if s_fd this > 0 then [s_fd this] else [])"

definition socket_close :: "'o os \<Rightarrow> socket \<Rightarrow> 'o \<Rightarrow> bool \<times> socket \<times> 'o" where
  "socket_close sys s st =
     (if s_fd s > 0 then
        (let (ret, st') = sys_close sys (s_fd s) st in
         if ret = 0 then (True, s\<lparr>s_fd := - 1\<rparr>, st') else (False, s, st'))
      else (False, s, st))"

definition socket_is_alive :: "'o os \<Rightarrow> socket \<Rightarrow> 'o \<Rightarrow> bool" where
  "socket_is_alive sys s st =
     (if s_fd s \<le> 0 then False
      else (let (ret, optval) = so_error sys (s_fd s) st in
            if ret \<noteq> 0 then False else if optval = 0 then True else False))"

definition socket_fd :: "socket \<Rightarrow> int" where
  "socket_fd s = s_fd s"

definition socket_peer :: "socket \<Rightarrow> endpoint" where
  "socket_peer s = s_peer s"

text \<open>The destructor calls \<^verbatim>\<open>close()\<close>: the descriptors passed to \<^verbatim>\<open>::close\<close>.\<close>

definition socket_drop :: "socket \<Rightarrow> int list" where
  "socket_drop s = (if s_fd s > 0 then [s_fd s] else [])"

text \<open>The submissions; \<open>peer\<close> and \<open>buf\<close> are the addresses of the peer's sockaddr and of the buffer.\<close>

definition socket_connect :: "socket \<Rightarrow> addr \<Rightarrow> uring_op" where
  "socket_connect s peer = connect_op (s_fd s) peer sizeof_sockaddr"

definition socket_send :: "socket \<Rightarrow> addr \<Rightarrow> nat \<Rightarrow> int \<Rightarrow> uring_op" where
  "socket_send s buf n flag = send_op (s_fd s) buf n flag"

definition socket_recv :: "socket \<Rightarrow> addr \<Rightarrow> nat \<Rightarrow> int \<Rightarrow> uring_op" where
  "socket_recv s buf n flag = recv_op (s_fd s) buf n flag"

definition socket_open :: "'o os \<Rightarrow> 'o \<Rightarrow> socket \<times> 'o" where
  "socket_open sys st = (let (fd, st') = sys_socket sys st in (socket_new fd, st'))"

definition socket_open_peer :: "'o os \<Rightarrow> endpoint \<Rightarrow> 'o \<Rightarrow> socket \<times> 'o" where
  "socket_open_peer sys peer st =
     (let (fd, st') = sys_socket sys st in (socket_new_peer fd peer, st'))"

subsection \<open>\<^verbatim>\<open>socket_accept_awaiter\<close>\<close>

definition socket_accept :: "int \<Rightarrow> addr \<Rightarrow> addr \<Rightarrow> uring_op" where
  "socket_accept fd addr addrlen = accept_op fd addr addrlen 0"

definition socket_accept_resume :: "int \<Rightarrow> address \<Rightarrow> socket result" where
  "socket_accept_resume result addr =
     (let ret = accept_resume result in
      if ret > 0 then Inr (socket_new_addr ret addr) else make_sys_error ret)"

subsection \<open>\<^verbatim>\<open>server_socket\<close>\<close>

record server_socket =
  ss_ring :: bool
  ss_fd :: int
  ss_addr :: "byte list"

definition server_accept :: "server_socket \<Rightarrow> addr \<Rightarrow> addr \<Rightarrow> uring_op" where
  "server_accept s addr addrlen = socket_accept (ss_fd s) addr addrlen"

definition server_fd :: "server_socket \<Rightarrow> int" where
  "server_fd s = ss_fd s"

definition server_new :: "'o os \<Rightarrow> 'o \<Rightarrow> server_socket outcome \<times> 'o" where
  "server_new sys st =
     (let (fd, st') = sys_socket sys st in
      (if fd = - 1 then Thrown (Runtime_error ''socket creation failed'')
       else Ret \<lparr>ss_ring = True, ss_fd = fd, ss_addr = replicate sizeof_in 0\<rparr>, st'))"

definition server_move :: "server_socket \<Rightarrow> server_socket \<times> server_socket" where
  "server_move other =
     (\<lparr>ss_ring = ss_ring other, ss_fd = ss_fd other, ss_addr = ss_addr other\<rparr>,
      other\<lparr>ss_ring := False, ss_fd := - 1\<rparr>)"

definition server_assign ::
  "server_socket \<Rightarrow> server_socket \<Rightarrow> server_socket \<times> server_socket \<times> int list" where
  "server_assign this other =
     (\<lparr>ss_ring = ss_ring other, ss_fd = ss_fd other, ss_addr = ss_addr other\<rparr>,
      other\<lparr>ss_ring := False, ss_fd := - 1\<rparr>,
      if ss_fd this > 0 then [ss_fd this] else [])"

definition server_drop :: "server_socket \<Rightarrow> int list" where
  "server_drop s = (if ss_fd s > 0 then [ss_fd s] else [])"

definition server_bind ::
  "'o os \<Rightarrow> server_socket \<Rightarrow> u16 \<Rightarrow> 'o \<Rightarrow> (unit result \<times> server_socket \<times> 'o) outcome" where
  "server_bind sys s port st =
     (let (ret, st1) = set_reuseaddr sys (ss_fd s) st in
      if ret < 0 then Ret (make_sys_error ret, s, st1)
      else
        obind (put_u16 off_family AF_INET (ss_addr s)) (\<lambda>m.
        obind (put_u16 off_port (htons port) m) (\<lambda>m.
        obind (mem_write off_sin_addr [0, 0, 0, 0] m) (\<lambda>m.
          let s' = s\<lparr>ss_addr := m\<rparr>; (ret, st2) = sys_bind sys (ss_fd s) m st1 in
          if ret < 0 then Ret (make_sys_error (- errno sys st2), s', st2)
          else Ret (Inr (), s', st2)))))"

definition server_listen :: "'o os \<Rightarrow> server_socket \<Rightarrow> int \<Rightarrow> 'o \<Rightarrow> unit result \<times> 'o" where
  "server_listen sys s backlog st =
     (let (ret, st') = sys_listen sys (ss_fd s) backlog st in
      if ret < 0 then (make_sys_error ret, st') else (Inr (), st'))"

subsection \<open>Ownership and the stream contract\<close>

definition socket_owned :: "socket \<Rightarrow> int list" where
  "socket_owned s = (if s_fd s > 0 then [s_fd s] else [])"

definition server_owned :: "server_socket \<Rightarrow> int list" where
  "server_owned s = (if ss_fd s > 0 then [ss_fd s] else [])"

interpretation socket_owner:
  unique_owner "\<lambda>fd. fd > 0" socket_owned socket_move socket_assign socket_drop
  by unfold_locales
    (simp_all add: socket_owned_def socket_move_def socket_assign_def socket_drop_def)

interpretation server_owner:
  unique_owner "\<lambda>fd. fd > 0" server_owned server_move server_assign server_drop
  by unfold_locales
    (simp_all add: server_owned_def server_move_def server_assign_def server_drop_def)

interpretation socket_stream: kk_stream "socket_close sys" "socket_is_alive sys"
  for sys :: "'o os"
  by unfold_locales
    (auto simp: socket_close_def socket_is_alive_def split: if_splits prod.splits)

lemma socket_releases_positive:
  "filter (\<lambda>fd. fd > 0) (socket_drop s) = socket_drop s"
  "filter (\<lambda>fd. fd > 0) (snd (snd (socket_assign d s))) = snd (snd (socket_assign d s))"
  by (simp_all add: socket_drop_def socket_assign_def)

lemma server_releases_positive:
  "filter (\<lambda>fd. fd > 0) (server_drop s) = server_drop s"
  "filter (\<lambda>fd. fd > 0) (snd (snd (server_assign d s))) = snd (snd (server_assign d s))"
  by (simp_all add: server_drop_def server_assign_def)

subsection \<open>Properties\<close>

text \<open>
  C27: sockets are closed once. Sockets made from distinct positive descriptors may be
  moved, assigned and destroyed in any order: no descriptor is closed twice, every close
  names a descriptor a socket owned, none that a living socket holds is closed, and once
  every socket is dead exactly the initial descriptors have been closed.
\<close>

theorem sockets_closed_once:
  assumes run: "pool_run socket_move socket_assign socket_drop xs
      (map (Some \<circ> socket_new) fds, []) = (pool', closed)"
    and fds: "distinct fds" "\<forall>fd \<in> set fds. fd > 0"
  shows "distinct closed \<and> (\<forall>fd \<in># held socket_owned pool'. fd \<notin> set closed) \<and>
    mset closed + held socket_owned pool' = mset fds"
proof -
  have held: "held socket_owned (map (Some \<circ> socket_new) fds) = mset fds"
    using fds(2) by (induction fds) (auto simp: held_Cons socket_owned_def socket_new_def)
  have "\<forall>fd. count (held socket_owned (map (Some \<circ> socket_new) fds)) fd \<le> 1"
    using fds(1) by (simp add: held distinct_count_atmost_1)
  from socket_owner.never_released_twice [OF run this] socket_owner.run_conserves [OF run]
    pool_run_released [OF socket_releases_positive(2,1) run]
  show ?thesis by (simp add: held add.commute)
qed

theorem sockets_closed_once_witness:
  "\<exists>pool closed. pool_run socket_move socket_assign socket_drop
      [Move_construct 0, Move_assign 2 1, Destroy 2, Destroy 1, Destroy 0]
      (map (Some \<circ> socket_new) [3, 4], []) = (pool, closed) \<and>
      mset closed + held socket_owned pool = mset [3, 4]"
proof -
  have run: "pool_run socket_move socket_assign socket_drop
      [Move_construct 0, Move_assign 2 1, Destroy 2, Destroy 1, Destroy 0]
      (map (Some \<circ> socket_new) [3, 4], []) = ([None, None, None], [3, 4])"
    by (simp add: slot_def socket_move_def socket_assign_def socket_drop_def socket_new_def)
  from sockets_closed_once [OF run] show ?thesis
    by - (intro exI, intro conjI, rule run, simp)
qed

text \<open>
  The same for listening sockets.\<close>

lemma server_sockets_closed_once:
  assumes run: "pool_run server_move server_assign server_drop xs (map Some servers, []) =
      (pool', closed)"
    and fds: "distinct (map ss_fd servers)" "\<forall>s \<in> set servers. ss_fd s > 0"
  shows "distinct closed \<and> (\<forall>fd \<in># held server_owned pool'. fd \<notin> set closed) \<and>
    mset closed + held server_owned pool' = mset (map ss_fd servers)"
proof -
  have held: "held server_owned (map Some servers) = mset (map ss_fd servers)"
    using fds(2) by (induction servers) (auto simp: held_Cons server_owned_def)
  have "\<forall>fd. count (held server_owned (map Some servers)) fd \<le> 1"
    using fds(1) by (metis held distinct_count_atmost_1 zero_le_one le_refl)
  from server_owner.never_released_twice [OF run this] server_owner.run_conserves [OF run]
    pool_run_released [OF server_releases_positive(2,1) run]
  show ?thesis by (simp add: held add.commute)
qed

lemma put_u16_read:
  "off + 2 \<le> length m \<Longrightarrow>
   put_u16 off v m = Ret (take off m @ u16_bytes v @ drop (off + 2) m)"
  by (simp add: put_u16_def mem_write_def numeral_2_eq_2)

text \<open>
  C30: \<^verbatim>\<open>bind\<close> on a socket whose options can be set calls the system's \<^verbatim>\<open>bind\<close> once, on the
  socket's descriptor, with the sixteen bytes of the IPv4 wildcard address: the family in
  host order, the port in network order, the address 0.0.0.0 and the padding the object
  had. A refusal is reported as the negated \<^verbatim>\<open>errno\<close>.
\<close>

theorem server_bind_address:
  assumes opt: "set_reuseaddr sys (ss_fd s) st = (ret, st1)" "0 \<le> ret"
    and len: "length (ss_addr s) = 16"
    and bind: "sys_bind sys (ss_fd s)
      (u16_bytes AF_INET @ u16_bytes (htons port) @ [0, 0, 0, 0] @ drop 8 (ss_addr s)) st1 = (b, st2)"
  shows "\<exists>m. server_bind sys s port st =
      Ret (if b < 0 then make_sys_error (- errno sys st2) else Inr (), s\<lparr>ss_addr := m\<rparr>, st2) \<and>
    is_v4 m \<and> get_u16 off_port m = Ret (htons port) \<and> length m = 16"
proof -
  let ?m = "u16_bytes AF_INET @ u16_bytes (htons port) @ [0, 0, 0, 0] @ drop 8 (ss_addr s)"
  have "put_u16 off_family AF_INET (ss_addr s) = Ret (u16_bytes AF_INET @ drop 2 (ss_addr s))"
    using put_u16_read [of 0 "ss_addr s" AF_INET] len by (simp only: add_0) simp
  moreover have "put_u16 off_port (htons port) (u16_bytes AF_INET @ drop 2 (ss_addr s)) =
      Ret (u16_bytes AF_INET @ u16_bytes (htons port) @ drop 4 (ss_addr s))"
    using len by (simp add: put_u16_read)
  moreover have "mem_write off_sin_addr [0, 0, 0, 0]
      (u16_bytes AF_INET @ u16_bytes (htons port) @ drop 4 (ss_addr s)) = Ret ?m"
    using len by (simp add: mem_write_def)
  moreover have "get_u16 off_family ?m = Ret AF_INET" "get_u16 off_port ?m = Ret (htons port)"
    by (simp_all add: get_u16_def mem_read_def)
  ultimately show ?thesis
    using opt bind len by (intro exI [of _ ?m]) (simp add: server_bind_def is_v4_def)
qed

text \<open>A system whose state is the list of the addresses bound so far.\<close>

definition bind_log :: "byte list list os" where
  "bind_log = \<lparr>sys_close = (\<lambda>fd st. (0, st)), so_error = (\<lambda>fd st. (0, 0)), sys_socket = (\<lambda>st. (3, st)),
     set_reuseaddr = (\<lambda>fd st. (0, st)), sys_bind = (\<lambda>fd bs st. (if st = [] then 0 else - 1, bs # st)),
     sys_listen = (\<lambda>fd n st. (0, st)), errno = (\<lambda>st. 98)\<rparr>"

theorem server_bind_address_witness:
  "\<exists>s'. server_bind bind_log \<lparr>ss_ring = True, ss_fd = 3, ss_addr = replicate 16 0\<rparr> 0x1F90 [] =
     Ret (Inr (), s', [[2, 0, 0x1F, 0x90] @ replicate 12 0])"
proof -
  let ?s = "\<lparr>ss_ring = True, ss_fd = 3, ss_addr = replicate 16 0\<rparr>"
  have bytes: "u16_bytes AF_INET @ u16_bytes (htons 0x1F90) @ [0, 0, 0, 0] @ drop 8 (ss_addr ?s) =
      [2, 0, 0x1F, 0x90] @ replicate 12 0" by code_simp
  have "sys_bind bind_log (ss_fd ?s)
      (u16_bytes AF_INET @ u16_bytes (htons 0x1F90) @ [0, 0, 0, 0] @ drop 8 (ss_addr ?s)) [] =
      (0, [[2, 0, 0x1F, 0x90] @ replicate 12 0])"
    unfolding bytes by (simp add: bind_log_def)
  from server_bind_address [OF _ _ _ this] show ?thesis by (force simp: bind_log_def)
qed

text \<open>
  One kernel error, two signs. A call that fails with \<open>-e\<close> is reported as the system
  error \<open>-e\<close> by connect and accept and as \<open>e\<close> by read, so the codes compare unequal and
  only the second is an \<^verbatim>\<open>errno\<close>; an accept that yields descriptor 0 is the error 0, which
  is no error at all.
\<close>

lemma error_signs_differ:
  "0 < e \<Longrightarrow>
   connect_resume (- e) = Inl (Error_Code (- e) System_category) \<and>
   socket_accept_resume (- e) addr = Inl (Error_Code (- e) System_category) \<and>
   read_resume (- e) = Inl (Error_Code e System_category) \<and>
   read_resume (- e) \<noteq> connect_resume (- e) \<and>
   socket_accept_resume 0 addr = Inl (Error_Code 0 System_category)"
  by (simp add: connect_resume_def socket_accept_resume_def accept_resume_def read_resume_def
      make_sys_error_def)

lemma error_signs_differ_example:
  "read_resume (- 111) = Inl (Error_Code 111 System_category) \<and>
   connect_resume (- 111) = Inl (Error_Code (- 111) System_category)"
  using error_signs_differ [of 111 address_new] by simp

end
