(* ===== verification/Fs_File.thy ===== *)
theory Fs_File
  imports Uring Ownership
begin

section \<open>Files\<close>

text \<open>
  \<^verbatim>\<open>kkp-core/include/kkp/fs/file.hpp\<close>: a move-only owner of a file descriptor. Here the
  empty state is descriptor 0: a move writes 0 into the source, and the destructor closes
  every descriptor but 0, also the \<open>-1\<close> of a failed \<^verbatim>\<open>open\<close>, which releases nothing.
\<close>

record fs_file =
  f_fd :: int
  f_ring :: bool
  f_state_flag :: int

text \<open>The constructor; \<open>fd\<close> is what \<^verbatim>\<open>::open\<close> returned.\<close>

definition file_new :: "int \<Rightarrow> fs_file" where
  "file_new fd = \<lparr>f_fd = fd, f_ring = True, f_state_flag = 0\<rparr>"

definition file_move :: "fs_file \<Rightarrow> fs_file \<times> fs_file" where
  "file_move other =
     (\<lparr>f_fd = f_fd other, f_ring = f_ring other, f_state_flag = f_state_flag other\<rparr>,
      other\<lparr>f_fd := 0, f_ring := False, f_state_flag := 0\<rparr>)"

definition file_assign :: "fs_file \<Rightarrow> fs_file \<Rightarrow> fs_file \<times> fs_file \<times> int list" where
  "file_assign this other =
     (this\<lparr>f_fd := f_fd other, f_ring := f_ring other, f_state_flag := f_state_flag other\<rparr>,
      other\<lparr>f_fd := 0, f_ring := False\<rparr>,
      if f_fd this > 0 then [f_fd this] else [])"

definition file_drop :: "fs_file \<Rightarrow> int list" where
  "file_drop f = (if f_fd f \<noteq> 0 then [f_fd f] else [])"

definition file_fd :: "fs_file \<Rightarrow> int" where
  "file_fd f = f_fd f"

text \<open>\<^verbatim>\<open>int\<close> lengths become \<^verbatim>\<open>unsigned\<close>, \<^verbatim>\<open>int\<close> offsets \<^verbatim>\<open>__u64\<close>.\<close>

definition to_unsigned :: "int \<Rightarrow> nat" where
  "to_unsigned x = nat (x mod 2 ^ 32)"

definition file_read :: "fs_file \<Rightarrow> addr \<Rightarrow> int \<Rightarrow> int \<Rightarrow> uring_op" where
  "file_read f buf len off = read_op (f_fd f) buf (to_unsigned len) (of_int off)"

definition file_read_all :: "fs_file \<Rightarrow> addr \<Rightarrow> nat \<Rightarrow> uring_op" where
  "file_read_all f buf n = file_read f buf (to_int32 (int n)) 0"

definition file_write :: "fs_file \<Rightarrow> addr \<Rightarrow> int \<Rightarrow> int \<Rightarrow> uring_op" where
  "file_write f buf len off = write_op (f_fd f) buf (to_unsigned len) (of_int off)"

definition file_owned :: "fs_file \<Rightarrow> int list" where
  "file_owned f = (if f_fd f > 0 then [f_fd f] else [])"

interpretation file_owner:
  unique_owner "\<lambda>fd. fd > 0" file_owned file_move file_assign file_drop
  by unfold_locales
    (simp_all add: file_owned_def file_move_def file_assign_def file_drop_def)

lemma file_releases:
  "filter (\<lambda>fd. fd > 0) (snd (snd (file_assign d s))) = snd (snd (file_assign d s))"
  by (simp add: file_assign_def)

lemma int_to_unsigned: "int (to_unsigned x) = x mod 4294967296"
  by (simp add: to_unsigned_def)

lemma to_unsigned_nonneg: "0 \<le> x \<Longrightarrow> x < 2 ^ 31 \<Longrightarrow> int (to_unsigned x) = x"
  by (simp add: int_to_unsigned)

lemma to_unsigned_neg: "x < 0 \<Longrightarrow> - (2 ^ 31) \<le> x \<Longrightarrow> int (to_unsigned x) = 2 ^ 32 + x"
  using mod_pos_pos_trivial [of "x + 4294967296" 4294967296]
  by (simp add: int_to_unsigned add.commute)

subsection \<open>Properties\<close>

text \<open>
  Files are closed once. Files opened with distinct positive descriptors may be moved,
  assigned and destroyed in any order: no descriptor is closed twice, none that a living
  file still holds is closed, and once every file is dead all of them are closed.
\<close>

lemma files_closed_once:
  assumes run: "pool_run file_move file_assign file_drop xs (map (Some \<circ> file_new) fds, []) =
      (pool', closed)"
    and fds: "distinct fds" "\<forall>fd \<in> set fds. fd > 0"
  shows "distinct (filter (\<lambda>fd. fd > 0) closed) \<and>
    (\<forall>fd \<in># held file_owned pool'. fd \<notin> set (filter (\<lambda>fd. fd > 0) closed)) \<and>
    ((\<forall>x \<in> set pool'. x = None) \<longrightarrow> mset (filter (\<lambda>fd. fd > 0) closed) = mset fds)"
proof -
  have held: "held file_owned (map (Some \<circ> file_new) fds) = mset fds"
    using fds(2) by (induction fds) (auto simp: held_Cons file_owned_def file_new_def)
  have "\<forall>fd. count (held file_owned (map (Some \<circ> file_new) fds)) fd \<le> 1"
    using fds(1) by (simp add: held distinct_count_atmost_1)
  from file_owner.never_released_twice [OF run this] file_owner.all_released [OF run]
  show ?thesis by (simp add: held)
qed

lemma files_closed_once_example:
  "\<exists>pool closed. pool_run file_move file_assign file_drop
      [Move_construct 0, Move_assign 2 1, Destroy 2, Destroy 1, Destroy 0]
      (map (Some \<circ> file_new) [3, 4], []) = (pool, closed) \<and>
      mset (filter (\<lambda>fd. fd > 0) closed) = mset [3, 4]"
proof -
  have run: "pool_run file_move file_assign file_drop
      [Move_construct 0, Move_assign 2 1, Destroy 2, Destroy 1, Destroy 0]
      (map (Some \<circ> file_new) [3, 4], []) = ([None, None, None], [3, 4])"
    by (simp add: slot_def file_move_def file_assign_def file_drop_def file_new_def)
  from files_closed_once [OF run] show ?thesis by - (intro exI, intro conjI, rule run, simp)
qed

text \<open>
  A transfer names the file's own descriptor, the buffer, and the offset and, when
  it is not negative, the length the caller gave; a negative length wraps to an unsigned
  count of \<open>2 ^ 32\<close> bytes less its size.
\<close>

lemma file_transfer_arguments:
  "- (2 ^ 31) \<le> len \<Longrightarrow> len < 2 ^ 31 \<Longrightarrow>
   (\<exists>n. file_read f buf len off = Op_read (f_fd f) buf n (of_int off) \<and>
        file_write f buf len off = Op_write (f_fd f) buf n (of_int off) \<and>
        (if 0 \<le> len then int n = len else int n = 2 ^ 32 + len))"
  by (intro exI [of _ "to_unsigned len"])
    (auto simp: file_read_def file_write_def read_op_def write_op_def to_unsigned_nonneg
      to_unsigned_neg)

end
