(* ===== verification/Ssl_Engine.thy ===== *)
theory Ssl_Engine
  imports Error_Code
begin

section \<open>The TLS engine\<close>

text \<open>
  \<^verbatim>\<open>kkp-core/include/kkp/ssl/ssl_common.hpp\<close> and \<^verbatim>\<open>ssl_engine.hpp\<close>. OpenSSL is a parameter
  of every definition, in two records: \<open>ssl_lib\<close> holds the calls on one session with its
  two memory BIOs, whose state together with the calling thread's error queue has the
  type \<open>'l\<close>; \<open>ssl_heap\<close> holds the calls that allocate and free. Bytes the library writes
  to a buffer are a component of the result.
\<close>

subsection \<open>\<^verbatim>\<open>ssl_status\<close>\<close>

datatype handshake_type = Client | Server

datatype ssl_status = Ssl_ok | Ssl_error | Ssl_error_syscall | Ssl_want_read | Ssl_want_write

definition SSL_ERROR_NONE :: int where "SSL_ERROR_NONE = 0"
definition SSL_ERROR_WANT_READ :: int where "SSL_ERROR_WANT_READ = 2"
definition SSL_ERROR_WANT_WRITE :: int where "SSL_ERROR_WANT_WRITE = 3"
definition SSL_ERROR_SYSCALL :: int where "SSL_ERROR_SYSCALL = 5"

lemmas ssl_error_defs =
  SSL_ERROR_NONE_def SSL_ERROR_WANT_READ_def SSL_ERROR_WANT_WRITE_def SSL_ERROR_SYSCALL_def

record 'l ssl_lib =
  ssl_get_error :: "'l \<Rightarrow> int \<Rightarrow> int"
  err_get_error :: "'l \<Rightarrow> int \<times> 'l"
  err_print :: "'l \<Rightarrow> 'l"
  set_connect_state :: "'l \<Rightarrow> 'l"
  set_accept_state :: "'l \<Rightarrow> 'l"
  ssl_connect :: "'l \<Rightarrow> int \<times> 'l"
  ssl_accept :: "'l \<Rightarrow> int \<times> 'l"
  lib_ssl_write :: "byte list \<Rightarrow> int \<Rightarrow> 'l \<Rightarrow> int \<times> 'l"  \<comment> \<open>the bytes at the pointer, the count\<close>
  lib_ssl_read :: "int \<Rightarrow> 'l \<Rightarrow> int \<times> byte list \<times> 'l"
  bio_pending_read :: "'l \<Rightarrow> nat"
  bio_pending_write :: "'l \<Rightarrow> nat"
  bio_write :: "byte list \<Rightarrow> 'l \<Rightarrow> int \<times> 'l"           \<comment> \<open>into the read BIO\<close>
  bio_read :: "nat \<Rightarrow> 'l \<Rightarrow> int \<times> byte list \<times> 'l"      \<comment> \<open>out of the write BIO\<close>

definition get_ssl_status :: "'l ssl_lib \<Rightarrow> 'l \<Rightarrow> int \<Rightarrow> ssl_status" where
  "get_ssl_status lib l n =
     (let code = ssl_get_error lib l n in
      if code = SSL_ERROR_NONE then Ssl_ok
      else if code = SSL_ERROR_WANT_READ then Ssl_want_read
      else if code = SSL_ERROR_WANT_WRITE then Ssl_want_write
      else if code = SSL_ERROR_SYSCALL then Ssl_error_syscall
      else Ssl_error)"

subsection \<open>Operations of the engine\<close>

text \<open>
  \<^verbatim>\<open>perform\<close>: it takes one error off the queue and then lets \<^verbatim>\<open>ERR_print_errors_fp\<close> empty
  it, before it reports; output waiting in the write BIO wins over every other status.
\<close>

definition perform :: "'l ssl_lib \<Rightarrow> ('l \<Rightarrow> int \<times> 'l) \<Rightarrow> 'l \<Rightarrow> ssl_status \<times> 'l" where
  "perform lib op l =
     (let (result, l1) = op l;
          ssl_err = ssl_get_error lib l1 result;
          (sys_err, l2) = err_get_error lib l1;
          pending_after = bio_pending_write lib l2;
          l3 = err_print lib l2 in
      if pending_after > 0 then (Ssl_want_write, l3)
      else if ssl_err = SSL_ERROR_SYSCALL then (Ssl_error, l3)
      else (get_ssl_status lib l3 result, l3))"

definition engine_write :: "'l ssl_lib \<Rightarrow> byte list \<Rightarrow> 'l \<Rightarrow> int \<times> 'l" where
  "engine_write lib buf l = bio_write lib buf l"

definition engine_read :: "'l ssl_lib \<Rightarrow> nat \<Rightarrow> 'l \<Rightarrow> int \<times> byte list \<times> 'l" where
  "engine_read lib n l = bio_read lib n l"

definition engine_ssl_read ::
  "'l ssl_lib \<Rightarrow> int \<Rightarrow> 'l \<Rightarrow> int \<times> ssl_status \<times> byte list \<times> 'l" where
  "engine_ssl_read lib n l =
     (let (r, bs, l') = lib_ssl_read lib n l in (r, get_ssl_status lib l' r, bs, l'))"

definition engine_ssl_write ::
  "'l ssl_lib \<Rightarrow> byte list \<Rightarrow> int \<Rightarrow> 'l \<Rightarrow> int \<times> ssl_status \<times> 'l" where
  "engine_ssl_write lib buf n l =
     (let (r, l') = lib_ssl_write lib buf n l in (r, get_ssl_status lib l' r, l'))"

definition write_pending :: "'l ssl_lib \<Rightarrow> 'l \<Rightarrow> nat" where
  "write_pending lib l = bio_pending_write lib l"

definition get_output_pending :: "'l ssl_lib \<Rightarrow> 'l \<Rightarrow> nat" where
  "get_output_pending lib l = bio_pending_write lib l"

definition read_pending :: "'l ssl_lib \<Rightarrow> 'l \<Rightarrow> nat" where
  "read_pending lib l = bio_pending_read lib l"

subsection \<open>The life of an engine\<close>

record 'h ssl_heap =
  ssl_new :: "'h \<Rightarrow> nat option \<times> 'h"
  bio_new :: "'h \<Rightarrow> nat option \<times> 'h"
  set_bio :: "nat \<Rightarrow> nat \<Rightarrow> nat \<Rightarrow> 'h \<Rightarrow> 'h"
  ssl_free :: "nat \<Rightarrow> 'h \<Rightarrow> 'h outcome"
  bio_free :: "nat \<Rightarrow> 'h \<Rightarrow> 'h outcome"

record ssl_engine =
  en_ssl :: "nat option"
  en_read_bio :: "nat option"
  en_write_bio :: "nat option"

text \<open>
  An exception in the constructor ends it without running the destructor, so the heap is
  left as it is then.
\<close>

definition engine_of :: "'h ssl_heap \<Rightarrow> nat option \<Rightarrow> 'h \<Rightarrow> ssl_engine outcome \<times> 'h" where
  "engine_of hp ssl h =
     (case ssl of
        None \<Rightarrow> (Thrown (Runtime_error ''SSL_new failed''), h)
      | Some s \<Rightarrow>
          (case bio_new hp h of
             (None, h1) \<Rightarrow> (Thrown (Runtime_error ''BIO_new failed''), h1)
           | (Some r, h1) \<Rightarrow>
               (case bio_new hp h1 of
                  (None, h2) \<Rightarrow> (Thrown (Runtime_error ''BIO_new failed''), h2)
                | (Some w, h2) \<Rightarrow>
                    (Ret \<lparr>en_ssl = Some s, en_read_bio = Some r, en_write_bio = Some w\<rparr>,
                     set_bio hp s r w h2))))"

definition engine_new :: "'h ssl_heap \<Rightarrow> 'h \<Rightarrow> ssl_engine outcome \<times> 'h" where
  "engine_new hp h = (let (ssl, h1) = ssl_new hp h in engine_of hp ssl h1)"

definition engine_ssl :: "ssl_engine \<Rightarrow> nat option" where
  "engine_ssl e = en_ssl e"

definition engine_empty :: ssl_engine where
  "engine_empty = \<lparr>en_ssl = None, en_read_bio = None, en_write_bio = None\<rparr>"

definition engine_move :: "ssl_engine \<Rightarrow> ssl_engine \<times> ssl_engine" where
  "engine_move other =
     (\<lparr>en_ssl = en_ssl other, en_read_bio = en_read_bio other, en_write_bio = en_write_bio other\<rparr>,
      other\<lparr>en_ssl := None, en_read_bio := None, en_write_bio := None\<rparr>)"

definition free_if :: "(nat \<Rightarrow> 'h \<Rightarrow> 'h outcome) \<Rightarrow> nat option \<Rightarrow> 'h \<Rightarrow> 'h outcome" where
  "free_if free p h = (case p of None \<Rightarrow> Ret h | Some a \<Rightarrow> free a h)"

definition engine_assign ::
  "'h ssl_heap \<Rightarrow> ssl_engine \<Rightarrow> ssl_engine \<Rightarrow> 'h \<Rightarrow> (ssl_engine \<times> ssl_engine \<times> 'h) outcome"
where
  "engine_assign hp this other h =
     obind (free_if (ssl_free hp) (en_ssl this) h) (\<lambda>h.
     obind (free_if (bio_free hp) (en_read_bio this) h) (\<lambda>h.
     obind (free_if (bio_free hp) (en_write_bio this) h) (\<lambda>h.
     Ret (this\<lparr>en_ssl := en_ssl other, en_read_bio := en_read_bio other,
               en_write_bio := en_write_bio other\<rparr>,
          other\<lparr>en_ssl := None, en_read_bio := None, en_write_bio := None\<rparr>, h))))"

definition engine_drop :: "'h ssl_heap \<Rightarrow> ssl_engine \<Rightarrow> 'h \<Rightarrow> 'h outcome" where
  "engine_drop hp e h = free_if (ssl_free hp) (en_ssl e) h"

subsection \<open>What OpenSSL documents of the calls\<close>

text \<open>
  The heap: \<open>live\<close> are the objects that may be used, \<open>att s\<close> the BIOs the session \<open>s\<close> owns.
  \<^verbatim>\<open>SSL_set_bio\<close> gives both BIOs to the session, \<^verbatim>\<open>SSL_free\<close> frees the session and its BIOs,
  and freeing what is not live is undefined.
\<close>

definition heap_contract :: "'h ssl_heap \<Rightarrow> ('h \<Rightarrow> nat set) \<Rightarrow> ('h \<Rightarrow> nat \<Rightarrow> nat set) \<Rightarrow> bool" where
  "heap_contract hp live att \<longleftrightarrow>
     (\<forall>h p h'. ssl_new hp h = (Some p, h') \<longrightarrow>
        p \<notin> live h \<and> live h' = insert p (live h) \<and> att h' = (att h)(p := {})) \<and>
     (\<forall>h p h'. bio_new hp h = (Some p, h') \<longrightarrow>
        p \<notin> live h \<and> live h' = insert p (live h) \<and> att h' = att h) \<and>
     (\<forall>h h'. bio_new hp h = (None, h') \<longrightarrow> live h' = live h \<and> att h' = att h) \<and>
     (\<forall>h s r w. live (set_bio hp s r w h) = live h \<and>
        att (set_bio hp s r w h) = (att h)(s := {r, w})) \<and>
     (\<forall>h p. p \<in> live h \<longrightarrow>
        (\<exists>h'. ssl_free hp p h = Ret h' \<and> live h' = live h - insert p (att h p) \<and>
              att h' = att h)) \<and>
     (\<forall>h p. p \<notin> live h \<longrightarrow> bio_free hp p h = Fault Dangling)"

text \<open>The error queue: \<open>errq\<close> are the errors of the thread, oldest first.\<close>

definition err_contract :: "'l ssl_lib \<Rightarrow> ('l \<Rightarrow> int list) \<Rightarrow> bool" where
  "err_contract lib errq \<longleftrightarrow>
     (\<forall>l. errq l = [] \<longrightarrow> fst (err_get_error lib l) = 0) \<and>
     (\<forall>l. errq (err_print lib l) = [])"

text \<open>
  The memory BIOs: \<open>out\<close> and \<open>inp\<close> are the bytes waiting in the write and in the read BIO.
  Reading takes them in order and reports failure on an empty BIO; the error queue calls
  leave them alone.
\<close>

definition bio_contract :: "'l ssl_lib \<Rightarrow> ('l \<Rightarrow> byte list) \<Rightarrow> ('l \<Rightarrow> byte list) \<Rightarrow> bool" where
  "bio_contract lib out inp \<longleftrightarrow>
     (\<forall>l. bio_pending_write lib l = length (out l) \<and> bio_pending_read lib l = length (inp l)) \<and>
     (\<forall>l n r bs l'. bio_read lib n l = (r, bs, l') \<longrightarrow> inp l' = inp l \<and>
        (if n = 0 \<or> out l = [] then r \<le> 0 \<and> bs = [] \<and> out l' = out l
         else bs = take n (out l) \<and> r = int (length bs) \<and> out l' = drop n (out l))) \<and>
     (\<forall>l bs r l'. bio_write lib bs l = (r, l') \<longrightarrow> out l' = out l \<and>
        (if bs = [] then inp l' = inp l else r = int (length bs) \<and> inp l' = inp l @ bs)) \<and>
     (\<forall>l. out (snd (err_get_error lib l)) = out l \<and> inp (snd (err_get_error lib l)) = inp l) \<and>
     (\<forall>l. out (err_print lib l) = out l \<and> inp (err_print lib l) = inp l)"

text \<open>\<^verbatim>\<open>SSL_get_error\<close> reports no error exactly for a positive result.\<close>

definition status_contract :: "'l ssl_lib \<Rightarrow> bool" where
  "status_contract lib \<longleftrightarrow> (\<forall>l n. ssl_get_error lib l n = SSL_ERROR_NONE \<longleftrightarrow> 0 < n)"

lemma heap_ssl_new:
  assumes "heap_contract hp live att" and "ssl_new hp h = (Some p, h')"
  shows "p \<notin> live h" "live h' = insert p (live h)"
  using assms(1) [unfolded heap_contract_def, THEN conjunct1, rule_format, OF assms(2)] by auto

lemma heap_bio_new:
  assumes "heap_contract hp live att" and "bio_new hp h = (Some p, h')"
  shows "p \<notin> live h" "live h' = insert p (live h)"
  using assms(1) [unfolded heap_contract_def, THEN conjunct2, THEN conjunct1, rule_format, OF assms(2)]
  by auto

lemma heap_bio_none:
  assumes "heap_contract hp live att" and "bio_new hp h = (None, h')"
  shows "live h' = live h"
  using assms(1) [unfolded heap_contract_def, THEN conjunct2, THEN conjunct2, THEN conjunct1,
      rule_format, OF assms(2)] by auto

lemma heap_set_bio:
  assumes "heap_contract hp live att"
  shows "live (set_bio hp s r w h) = live h" "att (set_bio hp s r w h) s = {r, w}"
  using assms by (simp_all add: heap_contract_def)

lemma heap_ssl_free:
  assumes "heap_contract hp live att" and "p \<in> live h"
  obtains h' where "ssl_free hp p h = Ret h'" and "live h' = live h - insert p (att h p)"
  using assms unfolding heap_contract_def by metis

lemma heap_bio_free_dead:
  "heap_contract hp live att \<Longrightarrow> p \<notin> live h \<Longrightarrow> bio_free hp p h = Fault Dangling"
  by (simp add: heap_contract_def)

text \<open>What a constructed engine holds, and what freeing its session does.\<close>

lemma engine_new_frees:
  assumes hp: "heap_contract hp live att" and new: "engine_new hp h = (Ret e, h1)"
  obtains s r w h2 where "e = \<lparr>en_ssl = Some s, en_read_bio = Some r, en_write_bio = Some w\<rparr>"
    and "ssl_free hp s h1 = Ret h2" and "live h2 = live h" and "r \<notin> live h2"
proof -
  obtain s ha r hb w hc where
    ssl: "ssl_new hp h = (Some s, ha)" and r: "bio_new hp ha = (Some r, hb)"
    and w: "bio_new hp hb = (Some w, hc)"
    and e: "e = \<lparr>en_ssl = Some s, en_read_bio = Some r, en_write_bio = Some w\<rparr>"
    and h1: "h1 = set_bio hp s r w hc"
    using new by (auto simp: engine_new_def engine_of_def split: prod.splits option.splits)
  note l = heap_ssl_new [OF hp ssl] heap_bio_new [OF hp r] heap_bio_new [OF hp w]
    heap_set_bio [OF hp, of s r w hc, folded h1]
  then have "s \<in> live h1" by simp
  from heap_ssl_free [OF hp this] obtain h2 where
    h2: "ssl_free hp s h1 = Ret h2" "live h2 = live h1 - insert s (att h1 s)" .
  have "live h2 = live h" using l h2(2) by auto
  moreover have "r \<notin> live h2" using l h2(2) by simp
  ultimately show ?thesis using e h2(1) that by blast
qed

lemma bio_pending:
  assumes "bio_contract lib out inp"
  shows "write_pending lib l = length (out l)" "read_pending lib l = length (inp l)"
    "bio_pending_write lib l = length (out l)"
  using assms by (simp_all add: bio_contract_def write_pending_def read_pending_def)

lemma bio_read_some:
  assumes "bio_contract lib out inp" and "engine_read lib n l = (r, bs, l')"
    and "out l \<noteq> []" and "0 < n"
  shows "bs = take n (out l) \<and> r = int (length bs) \<and> out l' = drop n (out l) \<and> inp l' = inp l \<and> 0 < r"
proof -
  from assms(2) have "bio_read lib n l = (r, bs, l')" by (simp add: engine_read_def)
  with assms(1) have "inp l' = inp l \<and>
        (if n = 0 \<or> out l = [] then r \<le> 0 \<and> bs = [] \<and> out l' = out l
         else bs = take n (out l) \<and> r = int (length bs) \<and> out l' = drop n (out l))"
    unfolding bio_contract_def by blast
  with assms(3,4) show ?thesis by auto
qed

lemma bio_write_some:
  assumes "bio_contract lib out inp" and "engine_write lib bs l = (r, l')" and "bs \<noteq> []"
  shows "r = int (length bs) \<and> inp l' = inp l @ bs \<and> out l' = out l"
proof -
  from assms(2) have "bio_write lib bs l = (r, l')" by (simp add: engine_write_def)
  with assms(1) have "out l' = out l \<and>
        (if bs = [] then inp l' = inp l else r = int (length bs) \<and> inp l' = inp l @ bs)"
    unfolding bio_contract_def by blast
  with assms(3) show ?thesis by auto
qed

lemma get_ssl_status_ok:
  "status_contract lib \<Longrightarrow> get_ssl_status lib l n = Ssl_ok \<longleftrightarrow> 0 < n"
  by (auto simp: status_contract_def get_ssl_status_def Let_def ssl_error_defs)

lemma perform_eq:
  assumes bio: "bio_contract lib out inp" and "perform lib op l = (status, l')"
    and "op l = (r, l1)"
  shows "out l' = out l1 \<and> inp l' = inp l1 \<and> (\<exists>l2. l' = err_print lib l2) \<and>
    (out l' \<noteq> [] \<longleftrightarrow> status = Ssl_want_write \<and> out l' \<noteq> []) \<and>
    (status = Ssl_ok \<longrightarrow> out l' = [] \<and> get_ssl_status lib l' r = Ssl_ok)"
proof -
  obtain e l2 where e: "err_get_error lib l1 = (e, l2)" by (cases "err_get_error lib l1")
  have "out (snd (err_get_error lib l1)) = out l1" "inp (snd (err_get_error lib l1)) = inp l1"
    "out (err_print lib l2) = out l2" "inp (err_print lib l2) = inp l2"
    using bio by (simp_all add: bio_contract_def)
  with e assms bio_pending [OF bio] show ?thesis
    by (auto simp: perform_def Let_def split: if_splits)
qed

subsection \<open>Properties\<close>

text \<open>
  A constructed engine is freed once. Whatever the engine was moved to, the destructors
  of the moved-from and of the moved-to engine together free exactly the session and the
  two BIOs the constructor allocated, and fault nowhere.
\<close>

lemma engine_freed_once:
  assumes hp: "heap_contract hp live att"
    and new: "engine_new hp h = (Ret e, h1)" and move: "engine_move e = (e2, old)"
  shows "engine_drop hp old h1 = Ret h1 \<and>
    (\<exists>h2. engine_drop hp e2 h1 = Ret h2 \<and> live h2 = live h)"
proof -
  from hp new obtain s r w h2 where
    e: "e = \<lparr>en_ssl = Some s, en_read_bio = Some r, en_write_bio = Some w\<rparr>"
    and "ssl_free hp s h1 = Ret h2" and "live h2 = live h"
    by (rule engine_new_frees)
  with move show ?thesis by (auto simp: engine_move_def engine_drop_def free_if_def)
qed

text \<open>A heap that numbers its objects.\<close>

definition demo_heap :: "(nat \<times> nat set \<times> (nat \<Rightarrow> nat set)) ssl_heap" where
  "demo_heap = \<lparr>ssl_new = (\<lambda>(n, lv, at). (Some n, Suc n, insert n lv, at(n := {}))),
     bio_new = (\<lambda>(n, lv, at). (Some n, Suc n, insert n lv, at)),
     set_bio = (\<lambda>s r w (n, lv, at). (n, lv, at(s := {r, w}))),
     ssl_free = (\<lambda>p (n, lv, at). if p \<in> lv \<and> p < n then Ret (n, lv - insert p (at p), at) else Fault Dangling),
     bio_free = (\<lambda>p (n, lv, at). if p \<in> lv \<and> p < n then Ret (n, lv - {p}, at) else Fault Dangling)\<rparr>"

lemma demo_heap_contract:
  "heap_contract demo_heap (\<lambda>(n, lv, at). {p \<in> lv. p < n}) (\<lambda>(n, lv, at). at)"
  unfolding heap_contract_def demo_heap_def
  by (intro conjI allI impI) (auto simp: less_Suc_eq split: if_splits)

lemma demo_heap_new:
  "\<exists>h1. engine_new demo_heap (0, {}, \<lambda>_. {}) =
     (Ret \<lparr>en_ssl = Some 0, en_read_bio = Some 1, en_write_bio = Some 2\<rparr>, h1)"
  by (simp add: engine_new_def engine_of_def demo_heap_def numeral_2_eq_2)

lemma engine_freed_once_example:
  "\<exists>e h1 h2. engine_new demo_heap (0, {}, \<lambda>_. {}) = (Ret e, h1) \<and>
     engine_drop demo_heap (fst (engine_move e)) h1 = Ret h2 \<and>
     {p \<in> fst (snd h2). p < fst h2} = {}"
proof -
  let ?e = "\<lparr>en_ssl = Some 0, en_read_bio = Some 1, en_write_bio = Some 2\<rparr>"
  obtain h1 where new: "engine_new demo_heap (0, {}, \<lambda>_. {}) = (Ret ?e, h1)"
    using demo_heap_new ..
  obtain e2 old where mv: "engine_move ?e = (e2, old)" by (cases "engine_move ?e")
  from engine_freed_once [OF demo_heap_contract new mv] obtain h2 where
    "engine_drop demo_heap e2 h1 = Ret h2" "(\<lambda>(n, lv, at). {p \<in> lv. p < n}) h2 = {}"
    by auto
  with new mv show ?thesis
    by (intro exI [of _ ?e] exI [of _ h1] exI [of _ h2]) (simp add: case_prod_beta)
qed

text \<open>
  C32: assigning to an engine that holds a session is undefined behaviour. \<^verbatim>\<open>SSL_free\<close>
  frees the BIOs with the session, as the destructor's own comments assume, and the
  assignment operator then frees the read BIO once more.
\<close>

theorem engine_assign_frees_twice:
  assumes hp: "heap_contract hp live att" and new: "engine_new hp h = (Ret e, h1)"
  shows "engine_assign hp e other h1 = Fault Dangling"
proof -
  from hp new obtain s r w h2 where
    e: "e = \<lparr>en_ssl = Some s, en_read_bio = Some r, en_write_bio = Some w\<rparr>"
    and "ssl_free hp s h1 = Ret h2" and r: "r \<notin> live h2"
    by (rule engine_new_frees)
  with heap_bio_free_dead [OF hp r] show ?thesis by (simp add: engine_assign_def free_if_def)
qed

theorem engine_assign_frees_twice_witness:
  "\<exists>e h1. engine_new demo_heap (0, {}, \<lambda>_. {}) = (Ret e, h1) \<and>
     engine_assign demo_heap e engine_empty h1 = Fault Dangling"
proof -
  obtain e h1 where new: "engine_new demo_heap (0, {}, \<lambda>_. {}) = (Ret e, h1)"
    using demo_heap_new by blast
  with engine_assign_frees_twice [OF demo_heap_contract new] show ?thesis by blast
qed

text \<open>
  When a BIO cannot be allocated the constructor throws and the session it was given
  stays allocated, with nothing left that refers to it.
\<close>

lemma engine_constructor_leaks:
  assumes "heap_contract hp live att" and "ssl_new hp h = (Some s, h1)"
    and "bio_new hp h1 = (None, h2) \<or> (\<exists>r h'. bio_new hp h1 = (Some r, h') \<and> bio_new hp h' = (None, h2))"
  shows "engine_new hp h = (Thrown (Runtime_error ''BIO_new failed''), h2) \<and>
    s \<notin> live h \<and> s \<in> live h2"
proof -
  note s = heap_ssl_new [OF assms(1,2)]
  have "s \<in> live h2" using assms(3)
  proof (elim disjE exE conjE)
    assume "bio_new hp h1 = (None, h2)"
    from heap_bio_none [OF assms(1) this] s show ?thesis by simp
  next
    fix r h' assume r: "bio_new hp h1 = (Some r, h')" "bio_new hp h' = (None, h2)"
    from heap_bio_new(2) [OF assms(1) r(1)] heap_bio_none [OF assms(1) r(2)] s show ?thesis by simp
  qed
  with s(1) assms(2,3) show ?thesis by (auto simp: engine_new_def engine_of_def)
qed

definition poor_heap :: "(nat \<times> nat set \<times> (nat \<Rightarrow> nat set)) ssl_heap" where
  "poor_heap = demo_heap\<lparr>bio_new := (\<lambda>h. (None, h))\<rparr>"

lemma poor_heap_contract:
  "heap_contract poor_heap (\<lambda>(n, lv, at). {p \<in> lv. p < n}) (\<lambda>(n, lv, at). at)"
  unfolding heap_contract_def poor_heap_def demo_heap_def
  by (intro conjI allI impI) (auto simp: less_Suc_eq split: if_splits)

lemma engine_constructor_leaks_example:
  "\<exists>h2. engine_new poor_heap (0, {}, \<lambda>_. {}) = (Thrown (Runtime_error ''BIO_new failed''), h2) \<and>
     0 \<in> fst (snd h2)"
proof -
  obtain h1 where ssl: "ssl_new poor_heap (0, {}, \<lambda>_. {}) = (Some 0, h1)"
    by (simp add: poor_heap_def demo_heap_def)
  have "bio_new poor_heap h1 = (None, h1)" by (simp add: poor_heap_def)
  with engine_constructor_leaks [OF poor_heap_contract ssl, of h1] show ?thesis
    by (auto simp: case_prod_beta)
qed

end
