(* ===== verification/Ssl_Stream.thy ===== *)
theory Ssl_Stream
  imports Ssl_Engine Kk_Stream "HOL-Library.Monad_Syntax"
begin

section \<open>The TLS stream\<close>

text \<open>
  \<^verbatim>\<open>kkp-core/include/kkp/ssl/ssl_stream.hpp\<close>: a stream over another stream. The raw stream
  is a parameter, the operations the class calls on it; awaiting one of its tasks yields
  the bytes the call moved. The loops that end only when OpenSSL and the raw stream let
  them are partial functions: \<open>None\<close> is a loop that never ends.
\<close>

subsection \<open>The raw stream and the object\<close>

record ('s, 'o) raw_stream =
  rs_send :: "byte list \<Rightarrow> int \<Rightarrow> 's \<Rightarrow> 'o \<Rightarrow> int \<times> 's \<times> 'o"
  rs_recv :: "nat \<Rightarrow> int \<Rightarrow> 's \<Rightarrow> 'o \<Rightarrow> int \<times> byte list \<times> 's \<times> 'o"
  rs_alive :: "'s \<Rightarrow> 'o \<Rightarrow> bool"
  rs_close :: "'s \<Rightarrow> 'o \<Rightarrow> bool \<times> 's \<times> 'o"

record ('l, 's) ssl_stream =
  sl_raw :: 's
  sl_lib :: 'l
  sl_left :: "byte list"
  sl_cap :: nat

definition ssl_stream_new :: "'s \<Rightarrow> 'l \<Rightarrow> ('l, 's) ssl_stream" where
  "ssl_stream_new raw l = \<lparr>sl_raw = raw, sl_lib = l, sl_left = [], sl_cap = 4096\<rparr>"

text \<open>A buffer of \<open>n\<close> zero bytes into which a call has written \<open>bs\<close>.\<close>

definition filled :: "nat \<Rightarrow> byte list \<Rightarrow> byte list" where
  "filled n bs = take n (bs @ replicate (n - length bs) 0)"

subsection \<open>\<^verbatim>\<open>handshake\<close>\<close>

partial_function (option) handshake_send_all ::
  "('s, 'o) raw_stream \<Rightarrow> byte list \<Rightarrow> nat \<Rightarrow> 's \<Rightarrow> 'o \<Rightarrow> (unit result \<times> 's \<times> 'o) option" where
  "handshake_send_all raw out sent s st =
     (if sent < length out then
        (case rs_send raw (drop sent out) 0 s st of (r, s', st') \<Rightarrow>
           if r < 0 then Some (make_sys_error (- r), s', st')
           else handshake_send_all raw out (sent + nat r) s' st')
      else Some (Inr (), s, st))"

partial_function (option) handshake_loop ::
  "'l ssl_lib \<Rightarrow> ('s, 'o) raw_stream \<Rightarrow> ('l \<Rightarrow> int \<times> 'l) \<Rightarrow> 'l \<Rightarrow> 's \<Rightarrow> 'o \<Rightarrow>
   (unit result \<times> 'l \<times> 's \<times> 'o) option" where
  "handshake_loop lib raw op l s st =
     (case perform lib op l of (status, l1) \<Rightarrow>
        if status = Ssl_ok then Some (Inr (), l1, s, st)
        else if status = Ssl_want_read then
          (case rs_recv raw 4096 4096 s st of (r, bs, s', st') \<Rightarrow>
             if r = 0 then Some (make_custom_error E_SSL_HANDSHAKE_SOCKET_READ_EOF, l1, s', st')
             else if r < 0 then Some (make_sys_error (- r), l1, s', st')
             else
               (case engine_write lib (take (nat r) (filled 4096 bs)) l1 of (n, l2) \<Rightarrow>
                  if n \<le> 0 then Some (make_custom_error E_SSL_HANDSHAKE_FAILED, l2, s', st')
                  else handshake_loop lib raw op l2 s' st'))
        else if status = Ssl_want_write then
          (case engine_read lib 4096 l1 of (n, out, l2) \<Rightarrow>
             if n \<le> 0 then Some (make_custom_error E_SSL_HANDSHAKE_FAILED, l2, s, st)
             else
               Option.bind (handshake_send_all raw (take (nat n) (filled 4096 out)) 0 s st)
                 (\<lambda>(e, s', st'). case e of
                    Inl err \<Rightarrow> Some (Inl err, l2, s', st')
                  | Inr _ \<Rightarrow> handshake_loop lib raw op l2 s' st'))
        else
          (case err_get_error lib l1 of (err, l2) \<Rightarrow>
             Some (make_sys_error (to_int32 (- to_int32 err)), err_print lib l2, s, st)))"

definition handshake ::
  "'l ssl_lib \<Rightarrow> ('s, 'o) raw_stream \<Rightarrow> handshake_type \<Rightarrow> ('l, 's) ssl_stream \<Rightarrow> 'o \<Rightarrow>
   (unit result \<times> ('l, 's) ssl_stream \<times> 'o) option" where
  "handshake lib raw ty x st =
     (let (op, l) = (if ty = Client then (ssl_connect lib, set_connect_state lib (sl_lib x))
                     else (ssl_accept lib, set_accept_state lib (sl_lib x))) in
      Option.bind (handshake_loop lib raw op l (sl_raw x) st)
        (\<lambda>(r, l', s', st'). Some (r, x\<lparr>sl_lib := l', sl_raw := s'\<rparr>, st')))"

subsection \<open>\<^verbatim>\<open>send\<close>\<close>

text \<open>The loops return \<open>Inl r\<close> for \<^verbatim>\<open>co_return r\<close> and \<open>Inr ()\<close> when they are left.\<close>

partial_function (option) send_chunk ::
  "('s, 'o) raw_stream \<Rightarrow> byte list \<Rightarrow> int \<Rightarrow> nat \<Rightarrow> 's \<Rightarrow> 'o \<Rightarrow> ((int + unit) \<times> 's \<times> 'o) option"
where
  "send_chunk raw out flag sent s st =
     (if sent < length out then
        (case rs_send raw (drop sent out) flag s st of (r, s', st') \<Rightarrow>
           if r \<le> 0 then Some (Inl r, s', st')
           else send_chunk raw out flag (sent + nat r) s' st')
      else Some (Inr (), s, st))"

partial_function (option) drain_loop ::
  "'l ssl_lib \<Rightarrow> ('s, 'o) raw_stream \<Rightarrow> int \<Rightarrow> 'l \<Rightarrow> 's \<Rightarrow> 'o \<Rightarrow>
   ((int + unit) outcome \<times> 'l \<times> 's \<times> 'o) option" where
  "drain_loop lib raw flag l s st =
     (if write_pending lib l \<le> 0 then Some (Ret (Inr ()), l, s, st)
      else
        (case engine_read lib 4096 l of (n, out, l1) \<Rightarrow>
           if n \<le> 0 then
             (let status = get_ssl_status lib l1 n in
              if status = Ssl_want_read \<or> status = Ssl_want_write
              then Some (Ret (Inr ()), l1, s, st)
              else Some (Thrown (Runtime_error ''ssl read error TODO''), l1, s, st))
           else
             Option.bind (send_chunk raw (take (nat n) (filled 4096 out)) flag 0 s st)
               (\<lambda>(e, s', st'). case e of
                  Inl r \<Rightarrow> Some (Ret (Inl r), l1, s', st')
                | Inr _ \<Rightarrow> drain_loop lib raw flag l1 s' st')))"

partial_function (option) send_loop ::
  "'l ssl_lib \<Rightarrow> ('s, 'o) raw_stream \<Rightarrow> byte list \<Rightarrow> int \<Rightarrow> nat \<Rightarrow> 'l \<Rightarrow> 's \<Rightarrow> 'o \<Rightarrow>
   (int outcome \<times> 'l \<times> 's \<times> 'o) option" where
  "send_loop lib raw buf flag consumed l s st =
     (if consumed < length buf then
        (case lib_ssl_write lib (drop consumed buf) (to_int32 (int (length buf - consumed))) l of
           (res, l1) \<Rightarrow>
             if res \<le> 0 then Some (Thrown (Runtime_error ''ssl write error TODO''), l1, s, st)
             else
               Option.bind (drain_loop lib raw flag l1 s st)
                 (\<lambda>(e, l2, s', st'). case e of
                    Ret (Inl r) \<Rightarrow> Some (Ret r, l2, s', st')
                  | Ret (Inr _) \<Rightarrow> send_loop lib raw buf flag (consumed + nat res) l2 s' st'
                  | Thrown ex \<Rightarrow> Some (Thrown ex, l2, s', st')
                  | Fault u \<Rightarrow> Some (Fault u, l2, s', st')))
      else Some (Ret (to_int32 (int consumed)), l, s, st))"

definition ssl_send ::
  "'l ssl_lib \<Rightarrow> ('s, 'o) raw_stream \<Rightarrow> byte list \<Rightarrow> int \<Rightarrow> ('l, 's) ssl_stream \<Rightarrow> 'o \<Rightarrow>
   (int outcome \<times> ('l, 's) ssl_stream \<times> 'o) option" where
  "ssl_send lib raw buf flag x st =
     Option.bind (send_loop lib raw buf flag 0 (sl_lib x) (sl_raw x) st)
       (\<lambda>(r, l', s', st'). Some (r, x\<lparr>sl_lib := l', sl_raw := s'\<rparr>, st'))"

subsection \<open>\<^verbatim>\<open>recv\<close>\<close>

definition read_leftover ::
  "nat \<Rightarrow> ('l, 's) ssl_stream \<Rightarrow> nat \<times> byte list \<times> ('l, 's) ssl_stream" where
  "read_leftover n x =
     (if sl_left x = [] then (0, [], x)
      else (let len = min n (length (sl_left x)) in
            (len, take len (sl_left x), x\<lparr>sl_left := drop len (sl_left x)\<rparr>)))"

text \<open>
  The loop over the decrypted data. \<open>got\<close> is what it has put into the caller's buffer of
  \<open>len\<close> bytes. The branch for a full buffer reads the outgoing ciphertext into the spare
  capacity of \<^verbatim>\<open>leftover_\<close>; the following \<^verbatim>\<open>resize\<close> zero-fills what it read.
\<close>

partial_function (option) recv_loop ::
  "'l ssl_lib \<Rightarrow> nat \<Rightarrow> byte list \<Rightarrow> ('l, 's) ssl_stream \<Rightarrow>
   (int \<times> byte list \<times> ('l, 's) ssl_stream) option" where
  "recv_loop lib len got x =
     (if length got < len then
        (case engine_ssl_read lib (to_int32 (int (len - length got))) (sl_lib x) of
           (decrypted, status, bs, l') \<Rightarrow>
             (let x' = x\<lparr>sl_lib := l'\<rparr> in
              if decrypted > 0 then
                (let got' = got @ take (nat decrypted) (filled (len - length got) bs) in
                 if status = Ssl_ok then Some (int (length got'), got', x')
                 else recv_loop lib len got' x')
              else if status = Ssl_want_read \<or> status = Ssl_want_write
              then Some (int (length got), got, x')
              else Some (- 1, got, x')))
      else
        (let room = sl_cap x - length (sl_left x);
             cap = (if room \<le> 0 then sl_cap x * 2 else sl_cap x) in
         case engine_read lib room (sl_lib x) of (decrypted, bs, l') \<Rightarrow>
           (let x' = x\<lparr>sl_lib := l', sl_cap := cap\<rparr> in
            if decrypted > 0 then
              recv_loop lib len got
                (x'\<lparr>sl_left := sl_left x @ replicate (nat decrypted) 0,
                    sl_cap := max cap (length (sl_left x) + nat decrypted)\<rparr>)
            else
              (let status = get_ssl_status lib l' decrypted in
               if status = Ssl_want_read \<or> status = Ssl_want_write
               then Some (int (length got), got, x')
               else Some (- 1, got, x')))))"

text \<open>That branch without its tests of the result.\<close>

definition fill_leftover :: "'l ssl_lib \<Rightarrow> ('l, 's) ssl_stream \<Rightarrow> int \<times> ('l, 's) ssl_stream" where
  "fill_leftover lib x =
     (let room = sl_cap x - length (sl_left x);
          cap = (if room \<le> 0 then sl_cap x * 2 else sl_cap x) in
      case engine_read lib room (sl_lib x) of (decrypted, bs, l') \<Rightarrow>
        (decrypted,
         if decrypted > 0 then
           x\<lparr>sl_lib := l', sl_left := sl_left x @ replicate (nat decrypted) 0,
             sl_cap := max cap (length (sl_left x) + nat decrypted)\<rparr>
         else x\<lparr>sl_lib := l', sl_cap := cap\<rparr>))"

lemma recv_loop_full:
  assumes "\<not> length got < len" and "fill_leftover lib x = (d, x')"
  shows "recv_loop lib len got x =
    (if d > 0 then recv_loop lib len got x'
     else if get_ssl_status lib (sl_lib x') d \<in> {Ssl_want_read, Ssl_want_write}
     then Some (int (length got), got, x') else Some (- 1, got, x'))"
proof -
  obtain decrypted bs l' where
    "engine_read lib (sl_cap x - length (sl_left x)) (sl_lib x) = (decrypted, bs, l')"
    by (rule prod_cases3)
  with assms show ?thesis
    by (cases "decrypted > 0"; subst recv_loop.simps; auto simp: fill_leftover_def Let_def)
qed

text \<open>
  The result of \<open>ssl_recv\<close> is the returned count, the bytes put at the front of the
  caller's buffer, and the state.
\<close>

definition ssl_recv ::
  "'l ssl_lib \<Rightarrow> ('s, 'o) raw_stream \<Rightarrow> nat \<Rightarrow> int \<Rightarrow> ('l, 's) ssl_stream \<Rightarrow> 'o \<Rightarrow>
   (int \<times> byte list \<times> ('l, 's) ssl_stream \<times> 'o) option" where
  "ssl_recv lib raw len flag x st =
     (let (k, bs, x1) = read_leftover len x in
      if k > 0 then Some (int k, bs, x1, st)
      else
        (let (r, status, bs, l1) = engine_ssl_read lib (to_int32 (int len)) (sl_lib x1);
             x2 = x1\<lparr>sl_lib := l1\<rparr> in
         if r > 0 then Some (r, take (nat r) (filled len bs), x2, st)
         else
           (let (received, bs, s', st') = rs_recv raw len flag (sl_raw x2) st;
                x3 = x2\<lparr>sl_raw := s'\<rparr> in
            if received \<le> 0 then Some (received, [], x3, st')
            else
              (let (w, l2) = engine_write lib (take (nat received) (filled len bs)) (sl_lib x3);
                   x4 = x3\<lparr>sl_lib := l2\<rparr> in
               if w \<le> 0 then Some (- 1, [], x4, st')
               else Option.bind (recv_loop lib len [] x4)
                      (\<lambda>(n, got, x5). Some (n, got, x5, st'))))))"

subsection \<open>The rest of the class\<close>

definition ssl_raw_stream :: "('l, 's) ssl_stream \<Rightarrow> 's" where
  "ssl_raw_stream x = sl_raw x"

definition clear_left :: "('l, 's) ssl_stream \<Rightarrow> nat \<times> ('l, 's) ssl_stream" where
  "clear_left x = (length (sl_left x), x\<lparr>sl_left := []\<rparr>)"

definition ssl_is_alive :: "('s, 'o) raw_stream \<Rightarrow> ('l, 's) ssl_stream \<Rightarrow> 'o \<Rightarrow> bool" where
  "ssl_is_alive raw x st = rs_alive raw (sl_raw x) st"

definition ssl_close ::
  "('s, 'o) raw_stream \<Rightarrow> ('l, 's) ssl_stream \<Rightarrow> 'o \<Rightarrow> bool \<times> ('l, 's) ssl_stream \<times> 'o" where
  "ssl_close raw x st =
     (let (r, s', st') = rs_close raw (sl_raw x) st in (r, x\<lparr>sl_raw := s'\<rparr>, st'))"

text \<open>A TLS stream keeps the contract of the stream under it.\<close>

context kk_stream
begin

lemma over_tls:
  assumes "rs_close raw = close" and "rs_alive raw = alive"
  shows "kk_stream (ssl_close raw) (ssl_is_alive raw)"
proof
  fix x :: "('l, 's) ssl_stream" and st x' st' u
  assume c: "ssl_close raw x st = (True, x', st')"
  then obtain s' where s': "close (sl_raw x) st = (True, s', st')" "x' = x\<lparr>sl_raw := s'\<rparr>"
    by (auto simp: ssl_close_def assms split: prod.splits)
  show "\<not> ssl_is_alive raw x' u"
    using close_dead [OF s'(1)] by (simp add: ssl_is_alive_def assms s'(2))
  show "ssl_close raw x' u = (False, x', u)"
    using close_again [OF s'(1)] by (simp add: ssl_close_def assms s'(2))
qed

end

subsection \<open>What the calls under the stream promise\<close>

text \<open>
  Ghost state of a session: \<open>emitted\<close>, all the ciphertext it has produced so far, of which
  \<open>out\<close> still waits in the write BIO; \<open>accepted\<close>, the plaintext \<^verbatim>\<open>SSL_write\<close> took;
  \<open>delivered\<close>, the plaintext \<^verbatim>\<open>SSL_read\<close> gave.
\<close>

definition session_contract ::
  "'l ssl_lib \<Rightarrow> ('l \<Rightarrow> byte list) \<Rightarrow> ('l \<Rightarrow> byte list) \<Rightarrow> ('l \<Rightarrow> byte list) \<Rightarrow> bool" where
  "session_contract lib out emitted accepted \<longleftrightarrow>
     (\<forall>bs n l r l'. lib_ssl_write lib bs n l = (r, l') \<and> 0 < r \<longrightarrow>
        r \<le> n \<and> accepted l' = accepted l @ take (nat r) bs \<and>
        (\<exists>x. out l' = out l @ x \<and> emitted l' = emitted l @ x)) \<and>
     (\<forall>n l. emitted (snd (snd (bio_read lib n l))) = emitted l \<and>
        accepted (snd (snd (bio_read lib n l))) = accepted l)"

definition handshake_contract ::
  "'l ssl_lib \<Rightarrow> ('l \<Rightarrow> byte list) \<Rightarrow> ('l \<Rightarrow> byte list) \<Rightarrow> bool" where
  "handshake_contract lib out emitted \<longleftrightarrow>
     (\<forall>op \<in> {ssl_connect lib, ssl_accept lib}. \<forall>l. \<exists>x.
        out (snd (op l)) = out l @ x \<and> emitted (snd (op l)) = emitted l @ x) \<and>
     (\<forall>f \<in> {set_connect_state lib, set_accept_state lib, err_print lib,
        \<lambda>l. snd (err_get_error lib l)}. \<forall>l. out (f l) = out l \<and> emitted (f l) = emitted l) \<and>
     (\<forall>n l. emitted (snd (snd (bio_read lib n l))) = emitted l) \<and>
     (\<forall>bs l. emitted (snd (bio_write lib bs l)) = emitted l)"

text \<open>The raw stream: \<open>wire\<close> are the bytes it has sent.\<close>

definition raw_contract :: "('s, 'o) raw_stream \<Rightarrow> ('s \<Rightarrow> 'o \<Rightarrow> byte list) \<Rightarrow> bool" where
  "raw_contract raw wire \<longleftrightarrow>
     (\<forall>bs fl s st r s' st'. rs_send raw bs fl s st = (r, s', st') \<longrightarrow>
        (if 0 < r then r \<le> int (length bs) \<and> wire s' st' = wire s st @ take (nat r) bs
         else wire s' st' = wire s st)) \<and>
     (\<forall>n fl s st r bs s' st'. rs_recv raw n fl s st = (r, bs, s', st') \<longrightarrow>
        wire s' st' = wire s st \<and> r \<le> int n \<and> length bs = nat r)"

lemma raw_send:
  assumes "raw_contract raw wire" and "rs_send raw bs fl s st = (r, s', st')"
  shows "0 < r \<Longrightarrow> r \<le> int (length bs)" "0 < r \<Longrightarrow> wire s' st' = wire s st @ take (nat r) bs"
    "r \<le> 0 \<Longrightarrow> wire s' st' = wire s st"
  using assms(1) [unfolded raw_contract_def, THEN conjunct1, rule_format, OF assms(2)]
  by (auto split: if_splits)

lemma raw_recv:
  assumes "raw_contract raw wire" and "rs_recv raw n fl s st = (r, bs, s', st')"
  shows "wire s' st' = wire s st" "r \<le> int n" "length bs = nat r"
  using assms(1) [unfolded raw_contract_def, THEN conjunct2, rule_format, OF assms(2)] by auto

lemma filled_full: "length bs \<le> n \<Longrightarrow> k = length bs \<Longrightarrow> take k (filled n bs) = bs"
  by (simp add: filled_def)

lemma filled_count: "r \<le> int n \<Longrightarrow> length bs = nat r \<Longrightarrow> take (nat r) (filled n bs) = bs"
  by (rule filled_full) simp_all

lemma chunk_rest: "take k (drop n xs) @ drop (n + k) xs = drop n xs"
  by (metis add.commute append_take_drop_id drop_drop)

subsection \<open>Sending\<close>

lemma send_chunk_result:
  assumes raw: "raw_contract raw wire" and "sent \<le> length out"
  shows "\<exists>e s' st'. send_chunk raw out flag sent s st = Some (e, s', st') \<and>
    (case e of Inr _ \<Rightarrow> wire s' st' = wire s st @ drop sent out | Inl r \<Rightarrow> r \<le> 0)"
  using assms(2)
proof (induction "length out - sent" arbitrary: sent s st rule: less_induct)
  case less
  show ?case
  proof (cases "sent < length out")
    case False
    with less.prems show ?thesis by (subst send_chunk.simps) simp
  next
    case True
    obtain r s1 st1 where snd1: "rs_send raw (drop sent out) flag s st = (r, s1, st1)"
      by (cases "rs_send raw (drop sent out) flag s st") auto
    show ?thesis
    proof (cases "r \<le> 0")
      case True
      with \<open>sent < length out\<close> snd1 show ?thesis by (subst send_chunk.simps) simp
    next
      case False
      with raw_send [OF raw snd1] True have
        le: "sent + nat r \<le> length out" and w: "wire s1 st1 = wire s st @ take (nat r) (drop sent out)"
        by simp_all
      have "length out - (sent + nat r) < length out - sent" using True False by simp
      from less.hyps [OF this le, of s1 st1] obtain e s' st' where
        IH: "send_chunk raw out flag (sent + nat r) s1 st1 = Some (e, s', st')"
        "case e of Inr _ \<Rightarrow> wire s' st' = wire s1 st1 @ drop (sent + nat r) out | Inl r \<Rightarrow> r \<le> 0"
        by blast
      have "take (nat r) (drop sent out) @ drop (sent + nat r) out = drop sent out"
        by (rule chunk_rest)
      with IH w have "case e of Inr _ \<Rightarrow> wire s' st' = wire s st @ drop sent out | Inl r \<Rightarrow> r \<le> 0"
        by (auto split: sum.splits)
      with IH(1) True False snd1 show ?thesis by (subst send_chunk.simps) auto
    qed
  qed
qed

lemma session_bio_read:
  assumes "session_contract lib out emitted accepted" and "engine_read lib n l = (r, bs, l')"
  shows "emitted l' = emitted l" "accepted l' = accepted l"
  using assms(1) [unfolded session_contract_def, THEN conjunct2, rule_format, of n l] assms(2)
  by (simp_all add: engine_read_def)

lemma session_write:
  assumes "session_contract lib out emitted accepted" and "lib_ssl_write lib bs n l = (r, l')" and "0 < r"
  shows "r \<le> n" "accepted l' = accepted l @ take (nat r) bs"
    "\<exists>x. out l' = out l @ x \<and> emitted l' = emitted l @ x"
  using assms(1) [unfolded session_contract_def, THEN conjunct1, rule_format, of bs n l r l'] assms(2,3)
  by auto

text \<open>Draining always ends, never throws, and on success empties the write BIO onto the wire.\<close>

lemma drain_loop_result:
  assumes bio: "bio_contract lib out inp" and ses: "session_contract lib out emitted accepted"
    and raw: "raw_contract raw wire"
  shows "\<exists>e l' s' st'. drain_loop lib raw flag l s st = Some (Ret e, l', s', st') \<and>
    emitted l' = emitted l \<and> accepted l' = accepted l \<and>
    (case e of Inr _ \<Rightarrow> out l' = [] \<and> wire s' st' = wire s st @ out l | Inl r \<Rightarrow> r \<le> 0)"
proof (induction "length (out l)" arbitrary: l s st rule: less_induct)
  case less
  show ?case
  proof (cases "out l = []")
    case True
    then show ?thesis by (subst drain_loop.simps) (simp add: bio_pending [OF bio])
  next
    case False
    obtain n chunk l1 where rd: "engine_read lib 4096 l = (n, chunk, l1)"
      by (cases "engine_read lib 4096 l") auto
    from bio_read_some [OF bio rd False]
    have c: "chunk = take 4096 (out l)" "n = int (length chunk)" "out l1 = drop 4096 (out l)" "0 < n"
      by auto
    note keep = session_bio_read [OF ses rd]
    have fill: "take (nat n) (filled 4096 chunk) = chunk" using c by (simp add: filled_full)
    obtain e s1 st1 where sc: "send_chunk raw chunk flag 0 s st = Some (e, s1, st1)"
      and se: "case e of Inr _ \<Rightarrow> wire s1 st1 = wire s st @ drop 0 chunk | Inl r \<Rightarrow> r \<le> 0"
      using send_chunk_result [OF raw, of 0 chunk flag s st] by auto
    show ?thesis
    proof (cases e)
      case (Inl r)
      with False sc se rd c(4) fill keep show ?thesis
        by (subst drain_loop.simps) (simp add: bio_pending [OF bio])
    next
      case (Inr u)
      have "length (out l1) < length (out l)" using c False by simp
      from less.hyps [OF this, of s1 st1] obtain e2 l' s' st' where
        IH: "drain_loop lib raw flag l1 s1 st1 = Some (Ret e2, l', s', st')"
        "emitted l' = emitted l1" "accepted l' = accepted l1"
        "case e2 of Inr _ \<Rightarrow> out l' = [] \<and> wire s' st' = wire s1 st1 @ out l1 | Inl r \<Rightarrow> r \<le> 0"
        by blast
      have "case e2 of Inr _ \<Rightarrow> out l' = [] \<and> wire s' st' = wire s st @ out l | Inl r \<Rightarrow> r \<le> 0"
        using IH(4) se Inr c by (auto split: sum.splits)
      with IH False sc Inr rd c(4) fill keep show ?thesis
        by (subst drain_loop.simps) (simp add: bio_pending [OF bio])
    qed
  qed
qed

lemma send_loop_result:
  assumes bio: "bio_contract lib out inp" and ses: "session_contract lib out emitted accepted"
    and raw: "raw_contract raw wire" and len: "length buf < 2 ^ 31"
    and sync: "wire s st @ out l = emitted l" and le: "consumed \<le> length buf"
    and empty: "consumed = length buf \<longrightarrow> out l = []"
  shows "\<exists>e l' s' st'. send_loop lib raw buf flag consumed l s st = Some (e, l', s', st') \<and>
    ((\<exists>n \<le> 0. e = Ret n \<and> consumed < length buf) \<or>
     e = Thrown (Runtime_error ''ssl write error TODO'') \<or>
     e = Ret (int (length buf)) \<and> out l' = [] \<and> wire s' st' = emitted l' \<and>
       accepted l' = accepted l @ drop consumed buf)"
  using sync le empty
proof (induction "length buf - consumed" arbitrary: consumed l s st rule: less_induct)
  case less
  show ?case
  proof (cases "consumed < length buf")
    case False
    with less.prems len show ?thesis by (subst send_loop.simps) simp
  next
    case True
    obtain res l1 where wr: "lib_ssl_write lib (drop consumed buf)
        (to_int32 (int (length buf - consumed))) l = (res, l1)"
      by (cases "lib_ssl_write lib (drop consumed buf) (to_int32 (int (length buf - consumed))) l")
    show ?thesis
    proof (cases "res \<le> 0")
      case True
      with \<open>consumed < length buf\<close> wr show ?thesis by (subst send_loop.simps) simp
    next
      case False
      then have pos: "0 < res" by simp
      obtain x where x: "out l1 = out l @ x" "emitted l1 = emitted l @ x"
        and acc: "accepted l1 = accepted l @ take (nat res) (drop consumed buf)"
        and res: "res \<le> to_int32 (int (length buf - consumed))"
        using session_write [OF ses wr pos] by blast
      have le1: "consumed + nat res \<le> length buf"
        using res len True by simp
      obtain e l2 s2 st2 where dr: "drain_loop lib raw flag l1 s st = Some (Ret e, l2, s2, st2)"
        and keep: "emitted l2 = emitted l1" "accepted l2 = accepted l1"
        and de: "case e of Inr _ \<Rightarrow> out l2 = [] \<and> wire s2 st2 = wire s st @ out l1 | Inl r \<Rightarrow> r \<le> 0"
        using drain_loop_result [OF bio ses raw, of flag l1 s st] by blast
      show ?thesis
      proof (cases e)
        case (Inl r)
        with dr de wr pos True show ?thesis by (subst send_loop.simps) simp
      next
        case (Inr u)
        then have o: "out l2 = []" "wire s2 st2 = wire s st @ out l1" using de by simp_all
        have sync2: "wire s2 st2 @ out l2 = emitted l2"
          using o x keep less.prems(1) by simp
        have "length buf - (consumed + nat res) < length buf - consumed" using True pos by simp
        from less.hyps [OF this sync2 le1] o(1) obtain e' l' s' st' where
          IH: "send_loop lib raw buf flag (consumed + nat res) l2 s2 st2 = Some (e', l', s', st')"
          "(\<exists>n \<le> 0. e' = Ret n \<and> consumed + nat res < length buf) \<or>
           e' = Thrown (Runtime_error ''ssl write error TODO'') \<or>
           e' = Ret (int (length buf)) \<and> out l' = [] \<and> wire s' st' = emitted l' \<and>
             accepted l' = accepted l2 @ drop (consumed + nat res) buf" by blast
        have "take (nat res) (drop consumed buf) @ drop (consumed + nat res) buf = drop consumed buf"
          by (rule chunk_rest)
        then have "accepted l2 @ drop (consumed + nat res) buf = accepted l @ drop consumed buf"
          using acc keep by simp
        with IH(2) True have "(\<exists>n \<le> 0. e' = Ret n \<and> consumed < length buf) \<or>
           e' = Thrown (Runtime_error ''ssl write error TODO'') \<or>
           e' = Ret (int (length buf)) \<and> out l' = [] \<and> wire s' st' = emitted l' \<and>
             accepted l' = accepted l @ drop consumed buf" by auto
        with IH(1) dr Inr wr pos True show ?thesis by (subst send_loop.simps) simp
      qed
    qed
  qed
qed

text \<open>
  C19: \<^verbatim>\<open>send\<close> delivers everything or says it did not. It always returns or throws. A
  positive result is the length of the buffer; then the session has accepted exactly the
  buffer, nothing waits in the write BIO, and the raw stream has sent all the ciphertext
  the session ever produced, in order. Otherwise the result is not positive or the
  exception of a failed \<^verbatim>\<open>SSL_write\<close>.
\<close>

theorem ssl_send_delivers:
  assumes "bio_contract lib out inp" and "session_contract lib out emitted accepted"
    and "raw_contract raw wire" and "length buf < 2 ^ 31" and "buf \<noteq> []"
    and "wire (sl_raw x) st @ out (sl_lib x) = emitted (sl_lib x)"
  shows "\<exists>e x' st'. ssl_send lib raw buf flag x st = Some (e, x', st') \<and>
    ((\<exists>n \<le> 0. e = Ret n) \<or> e = Thrown (Runtime_error ''ssl write error TODO'') \<or>
     e = Ret (int (length buf)) \<and> out (sl_lib x') = [] \<and>
       wire (sl_raw x') st' = emitted (sl_lib x') \<and>
       accepted (sl_lib x') = accepted (sl_lib x) @ buf)"
  using send_loop_result [OF assms(1-4,6), of 0 flag] assms(5) by (fastforce simp: ssl_send_def)

subsection \<open>A session and a raw stream to try it on\<close>

text \<open>
  The session sends the plaintext as its own ciphertext; its handshake emits one byte and
  waits for an answer; \<^verbatim>\<open>SSL_read\<close> needs two bytes before it gives any. The raw stream sends
  at most three bytes at a time and receives the chunks it was given.
\<close>

record demo_session =
  d_out :: "byte list"
  d_inp :: "byte list"
  d_emitted :: "byte list"
  d_accepted :: "byte list"
  d_delivered :: "byte list"
  d_errs :: "int list"
  d_stage :: nat

definition demo_session :: demo_session where
  "demo_session = \<lparr>d_out = [], d_inp = [], d_emitted = [], d_accepted = [], d_delivered = [],
     d_errs = [], d_stage = 0\<rparr>"

definition demo_handshake :: "demo_session \<Rightarrow> int \<times> demo_session" where
  "demo_handshake l =
     (if d_stage l = 0 then (- 1, l\<lparr>d_out := d_out l @ [22], d_emitted := d_emitted l @ [22], d_stage := 1\<rparr>)
      else if d_stage l = 1 then
        (if d_inp l = [] then (- 1, l)
         else if hd (d_inp l) = 0 then (- 1, l\<lparr>d_errs := [167]\<rparr>)
         else (1, l\<lparr>d_inp := [], d_stage := 2\<rparr>))
      else (1, l))"

definition demo_lib :: "demo_session ssl_lib" where
  "demo_lib = \<lparr>ssl_get_error = (\<lambda>l n. if 0 < n then 0 else if d_errs l \<noteq> [] then 1 else
       if d_inp l \<noteq> [] \<and> d_stage l = 1 then 5 else 2),
     err_get_error = (\<lambda>l. case d_errs l of [] \<Rightarrow> (0, l) | e # es \<Rightarrow> (e, l\<lparr>d_errs := es\<rparr>)),
     err_print = (\<lambda>l. l\<lparr>d_errs := []\<rparr>),
     set_connect_state = (\<lambda>l. l), set_accept_state = (\<lambda>l. l),
     ssl_connect = demo_handshake, ssl_accept = demo_handshake,
     lib_ssl_write = (\<lambda>bs n l. if n \<le> 0 \<or> int (length bs) < n then (- 1, l) else
       (n, l\<lparr>d_out := d_out l @ take (nat n) bs, d_emitted := d_emitted l @ take (nat n) bs,
             d_accepted := d_accepted l @ take (nat n) bs\<rparr>)),
     lib_ssl_read = (\<lambda>n l. if n \<le> 0 \<or> length (d_inp l) < 2 then (- 1, [], l) else
       (let bs = take (nat n) (d_inp l) in
        (int (length bs), bs, l\<lparr>d_inp := drop (nat n) (d_inp l), d_delivered := d_delivered l @ bs\<rparr>))),
     bio_pending_read = (\<lambda>l. length (d_inp l)), bio_pending_write = (\<lambda>l. length (d_out l)),
     bio_write = (\<lambda>bs l. (int (length bs), l\<lparr>d_inp := d_inp l @ bs\<rparr>)),
     bio_read = (\<lambda>n l. if n = 0 \<or> d_out l = [] then (- 1, [], l) else
       (int (length (take n (d_out l))), take n (d_out l), l\<lparr>d_out := drop n (d_out l)\<rparr>))\<rparr>"

definition demo_raw :: "(unit, byte list \<times> byte list list) raw_stream" where
  "demo_raw = \<lparr>rs_send = (\<lambda>bs fl s (sent, inc). (int (min 3 (length bs)), s, (sent @ take (min 3 (length bs)) bs, inc))),
     rs_recv = (\<lambda>n fl s (sent, inc). case inc of [] \<Rightarrow> (0, [], s, (sent, inc))
       | c # cs \<Rightarrow> (int (length (take n c)), take n c, s, (sent, cs))),
     rs_alive = (\<lambda>s u. True), rs_close = (\<lambda>s u. (False, s, u))\<rparr>"

lemma demo_bio: "bio_contract demo_lib d_out d_inp"
  unfolding bio_contract_def demo_lib_def by (auto split: list.splits)

lemma demo_errors: "err_contract demo_lib d_errs"
  unfolding err_contract_def demo_lib_def by (auto split: list.splits)

lemma demo_status: "status_contract demo_lib"
  unfolding status_contract_def demo_lib_def by (auto simp: ssl_error_defs)

lemma demo_ses: "session_contract demo_lib d_out d_emitted d_accepted"
  unfolding session_contract_def demo_lib_def by auto

lemma demo_handshake_contract: "handshake_contract demo_lib d_out d_emitted"
  unfolding handshake_contract_def demo_lib_def
  by (auto simp: demo_handshake_def split: list.splits)

lemma demo_raw_contract: "raw_contract demo_raw (\<lambda>s st. fst st)"
  unfolding raw_contract_def demo_raw_def by (auto split: list.splits)

theorem ssl_send_delivers_witness:
  "\<exists>e x' st'. ssl_send demo_lib demo_raw [1, 2, 3, 4, 5] 0 (ssl_stream_new () demo_session) ([], []) =
     Some (e, x', st') \<and>
    ((\<exists>n \<le> 0. e = Ret n) \<or> e = Thrown (Runtime_error ''ssl write error TODO'') \<or>
     e = Ret 5 \<and> d_out (sl_lib x') = [] \<and> fst st' = d_emitted (sl_lib x') \<and>
       d_accepted (sl_lib x') = [1, 2, 3, 4, 5])"
  using ssl_send_delivers [OF demo_bio demo_ses demo_raw_contract,
      where buf = "[1, 2, 3, 4, 5]" and x = "ssl_stream_new () demo_session" and st = "([], [])"
        and flag = 0]
  by (simp add: ssl_stream_new_def demo_session_def)

subsection \<open>The handshake\<close>

definition sent_all ::
  "('s \<Rightarrow> 'o \<Rightarrow> byte list) \<Rightarrow> ('s, 'o) raw_stream \<Rightarrow> byte list \<Rightarrow> nat \<Rightarrow> 's \<Rightarrow> 'o \<Rightarrow>
   unit result \<times> 's \<times> 'o \<Rightarrow> bool" where
  "sent_all wire raw out sent s st y \<longleftrightarrow>
     (raw_contract raw wire \<and> sent \<le> length out \<and> fst y = Inr () \<longrightarrow>
      wire (fst (snd y)) (snd (snd y)) = wire s st @ drop sent out)"

lemma handshake_send_all_wire:
  fixes raw :: "('s, 'o) raw_stream"
  shows "handshake_send_all raw out sent s st = Some y \<Longrightarrow> sent_all wire raw out sent s st y"
proof (rule handshake_send_all.raw_induct [where P = "sent_all wire"])
  fix rec and raw :: "('s, 'o) raw_stream" and out sent s st y
  assume IH: "\<And>raw out sent s st y. rec raw out sent s st = Some y \<Longrightarrow>
      sent_all wire raw out sent s st y"
    and body: "(if sent < length out then
        (case rs_send raw (drop sent out) 0 s st of (r, s', st') \<Rightarrow>
           if r < 0 then Some (make_sys_error (- r), s', st')
           else rec raw out (sent + nat r) s' st')
      else Some (Inr (), s, st)) = Some y"
  show "sent_all wire raw out sent s st y"
    unfolding sent_all_def
  proof (intro impI, elim conjE)
    assume raw: "raw_contract raw wire" and le: "sent \<le> length out" and ok: "fst y = Inr ()"
    show "wire (fst (snd y)) (snd (snd y)) = wire s st @ drop sent out"
    proof (cases "sent < length out")
      case False
      with body le show ?thesis by auto
    next
      case True
      obtain r s1 t1 where sd: "rs_send raw (drop sent out) 0 s st = (r, s1, t1)"
        by (cases "rs_send raw (drop sent out) 0 s st") auto
      with body True ok have r: "0 \<le> r" and "rec raw out (sent + nat r) s1 t1 = Some y"
        by (auto simp: make_sys_error_def split: if_splits)
      from IH [OF this(2)] have rest: "sent_all wire raw out (sent + nat r) s1 t1 y" .
      have "sent + nat r \<le> length out" and w: "wire s1 t1 = wire s st @ take (nat r) (drop sent out)"
        using raw_send [OF raw sd] r True by (cases "r = 0"; simp)+
      with rest raw ok have "wire (fst (snd y)) (snd (snd y)) = wire s1 t1 @ drop (sent + nat r) out"
        by (simp add: sent_all_def)
      moreover have "take (nat r) (drop sent out) @ drop (sent + nat r) out = drop sent out"
        by (rule chunk_rest)
      ultimately show ?thesis using w by simp
    qed
  qed
qed

text \<open>When a handshake succeeds, everything the session emitted is on the wire.\<close>

definition flushed ::
  "('l \<Rightarrow> byte list) \<Rightarrow> ('l \<Rightarrow> byte list) \<Rightarrow> ('l \<Rightarrow> byte list) \<Rightarrow> ('s \<Rightarrow> 'o \<Rightarrow> byte list) \<Rightarrow>
   'l ssl_lib \<Rightarrow> ('s, 'o) raw_stream \<Rightarrow> ('l \<Rightarrow> int \<times> 'l) \<Rightarrow> 'l \<Rightarrow> 's \<Rightarrow> 'o \<Rightarrow>
   unit result \<times> 'l \<times> 's \<times> 'o \<Rightarrow> bool" where
  "flushed out inp emitted wire lib raw op l s st y \<longleftrightarrow>
     (bio_contract lib out inp \<and> handshake_contract lib out emitted \<and> raw_contract raw wire \<and>
      op \<in> {ssl_connect lib, ssl_accept lib} \<and> wire s st @ out l = emitted l \<and> fst y = Inr () \<longrightarrow>
      (case snd y of (l', s', st') \<Rightarrow> out l' = [] \<and> wire s' st' = emitted l'))"

lemma handshake_perform:
  assumes "handshake_contract lib out emitted" and "op \<in> {ssl_connect lib, ssl_accept lib}"
    and "perform lib op l = (status, l')"
  shows "\<exists>x. out l' = out l @ x \<and> emitted l' = emitted l @ x"
proof -
  obtain r l1 where op: "op l = (r, l1)" by (cases "op l")
  obtain e l2 where e: "err_get_error lib l1 = (e, l2)" by (cases "err_get_error lib l1")
  from assms(1,2) op obtain x where "out l1 = out l @ x" "emitted l1 = emitted l @ x"
    unfolding handshake_contract_def by (metis snd_conv)
  moreover have "out (snd (err_get_error lib l1)) = out l1"
    "emitted (snd (err_get_error lib l1)) = emitted l1"
    "out (err_print lib l2) = out l2" "emitted (err_print lib l2) = emitted l2"
    using assms(1) unfolding handshake_contract_def by auto
  ultimately show ?thesis
    using assms(3) op e by (auto simp: perform_def Let_def split: if_splits)
qed

lemma bio_write_keeps:
  assumes "bio_contract lib out inp" and "handshake_contract lib out emitted"
    and "engine_write lib bs l = (n, l')"
  shows "out l' = out l" "emitted l' = emitted l"
proof -
  have "bio_write lib bs l = (n, l')" using assms(3) by (simp add: engine_write_def)
  then show "out l' = out l" using assms(1) unfolding bio_contract_def by blast
  have "emitted (snd (bio_write lib bs l)) = emitted l"
    using assms(2) by (simp add: handshake_contract_def)
  with \<open>bio_write lib bs l = (n, l')\<close> show "emitted l' = emitted l" by simp
qed

lemma perform_ok_empty:
  assumes "bio_contract lib out inp" and "perform lib op l = (Ssl_ok, l')"
  shows "out l' = []"
proof -
  obtain r l1 where op: "op l = (r, l1)" by (cases "op l")
  from perform_eq [OF assms op] show ?thesis by blast
qed

lemma handshake_loop_flushed:
  fixes lib :: "'l ssl_lib" and raw :: "('s, 'o) raw_stream"
  shows "handshake_loop lib raw op l s st = Some y \<Longrightarrow> flushed out inp emitted wire lib raw op l s st y"
proof (rule handshake_loop.raw_induct [where P = "flushed out inp emitted wire"])
  fix rec and lib :: "'l ssl_lib" and raw :: "('s, 'o) raw_stream" and op l s st y
  assume IH: "\<And>lib raw op l s st y. rec lib raw op l s st = Some y \<Longrightarrow>
      flushed out inp emitted wire lib raw op l s st y"
    and body: "(case perform lib op l of (status, l1) \<Rightarrow>
        if status = Ssl_ok then Some (Inr (), l1, s, st)
        else if status = Ssl_want_read then
          (case rs_recv raw 4096 4096 s st of (r, bs, s', st') \<Rightarrow>
             if r = 0 then Some (make_custom_error E_SSL_HANDSHAKE_SOCKET_READ_EOF, l1, s', st')
             else if r < 0 then Some (make_sys_error (- r), l1, s', st')
             else
               (case engine_write lib (take (nat r) (filled 4096 bs)) l1 of (n, l2) \<Rightarrow>
                  if n \<le> 0 then Some (make_custom_error E_SSL_HANDSHAKE_FAILED, l2, s', st')
                  else rec lib raw op l2 s' st'))
        else if status = Ssl_want_write then
          (case engine_read lib 4096 l1 of (n, out, l2) \<Rightarrow>
             if n \<le> 0 then Some (make_custom_error E_SSL_HANDSHAKE_FAILED, l2, s, st)
             else
               Option.bind (handshake_send_all raw (take (nat n) (filled 4096 out)) 0 s st)
                 (\<lambda>(e, s', st'). case e of
                    Inl err \<Rightarrow> Some (Inl err, l2, s', st')
                  | Inr _ \<Rightarrow> rec lib raw op l2 s' st'))
        else
          (case err_get_error lib l1 of (err, l2) \<Rightarrow>
             Some (make_sys_error (to_int32 (- to_int32 err)), err_print lib l2, s, st))) = Some y"
  show "flushed out inp emitted wire lib raw op l s st y"
    unfolding flushed_def
  proof (intro impI, elim conjE)
    assume bio: "bio_contract lib out inp" and hs: "handshake_contract lib out emitted"
      and raw: "raw_contract raw wire" and op: "op \<in> {ssl_connect lib, ssl_accept lib}"
      and sync: "wire s st @ out l = emitted l" and ok: "fst y = Inr ()"
    obtain status l1 where pf: "perform lib op l = (status, l1)" by (cases "perform lib op l")
    from handshake_perform [OF hs op pf] sync have sync1: "wire s st @ out l1 = emitted l1" by auto
    show "case snd y of (l', s', st') \<Rightarrow> out l' = [] \<and> wire s' st' = emitted l'"
    proof (cases status)
      case Ssl_ok
      with body pf perform_ok_empty [OF bio, of op l l1] sync1 show ?thesis by auto
    next
      case Ssl_want_read
      obtain r bs s1 t1 where rv: "rs_recv raw 4096 4096 s st = (r, bs, s1, t1)"
        by (cases "rs_recv raw 4096 4096 s st") auto
      obtain n l2 where wr: "engine_write lib (take (nat r) (filled 4096 bs)) l1 = (n, l2)"
        by (cases "engine_write lib (take (nat r) (filled 4096 bs)) l1")
      from body pf Ssl_want_read rv wr ok have r: "0 < r" and go: "rec lib raw op l2 s1 t1 = Some y"
        by (auto simp: make_sys_error_def make_custom_error_def split: if_splits)
      note keep = bio_write_keeps [OF bio hs wr]
      with sync1 keep raw_recv(1) [OF raw rv] have "wire s1 t1 @ out l2 = emitted l2" by simp
      with IH [OF go] bio hs raw op ok show ?thesis by (simp add: flushed_def del: insert_iff)
    next
      case Ssl_want_write
      obtain n chunk l2 where rd: "engine_read lib 4096 l1 = (n, chunk, l2)"
        by (cases "engine_read lib 4096 l1") auto
      from body pf Ssl_want_write rd ok have n: "0 < n"
        by (auto simp: make_custom_error_def split: if_splits)
      obtain e s1 t1 where
        sa: "handshake_send_all raw (take (nat n) (filled 4096 chunk)) 0 s st = Some (e, s1, t1)"
        and cont: "(case e of Inl err \<Rightarrow> Some (Inl err, l2, s1, t1)
          | Inr _ \<Rightarrow> rec lib raw op l2 s1 t1) = Some y"
        using body pf Ssl_want_write rd n by (auto simp: bind_eq_Some_conv)
      have e: "e = Inr ()" and go: "rec lib raw op l2 s1 t1 = Some y"
        using cont ok by (cases e; auto)+
      have ne: "out l1 \<noteq> []"
      proof
        assume "out l1 = []"
        with bio rd n show False
          unfolding bio_contract_def engine_read_def by (metis linorder_not_less)
      qed
      from bio_read_some [OF bio rd ne] have c: "chunk = take 4096 (out l1)"
        "n = int (length chunk)" "out l2 = drop 4096 (out l1)" by auto
      then have fill: "take (nat n) (filled 4096 chunk) = chunk" by (simp add: filled_full)
      have "wire s1 t1 = wire s st @ chunk"
        using handshake_send_all_wire [OF sa, of wire] raw fill e by (simp add: sent_all_def)
      moreover have "emitted l2 = emitted l1"
        using hs rd unfolding handshake_contract_def engine_read_def by (metis snd_conv)
      ultimately have "wire s1 t1 @ out l2 = emitted l2" using sync1 c by simp
      with IH [OF go] bio hs raw op ok show ?thesis by (simp add: flushed_def del: insert_iff)
    qed (use body pf ok in \<open>auto simp: make_sys_error_def split: prod.splits\<close>)
  qed
qed

text \<open>
  C21: a handshake that succeeds has sent all its messages: nothing waits in the write BIO,
  and the raw stream has sent, in order, all the ciphertext the session produced.
\<close>

theorem handshake_flushes:
  assumes "bio_contract lib out inp" and "handshake_contract lib out emitted"
    and "raw_contract raw wire" and "wire (sl_raw x) st @ out (sl_lib x) = emitted (sl_lib x)"
    and "handshake lib raw ty x st = Some (Inr (), x', st')"
  shows "out (sl_lib x') = [] \<and> wire (sl_raw x') st' = emitted (sl_lib x')"
proof -
  let ?op = "if ty = Client then ssl_connect lib else ssl_accept lib"
  let ?l = "if ty = Client then set_connect_state lib (sl_lib x) else set_accept_state lib (sl_lib x)"
  obtain l' s' where run: "handshake_loop lib raw ?op ?l (sl_raw x) st = Some (Inr (), l', s', st')"
    and x': "x' = x\<lparr>sl_lib := l', sl_raw := s'\<rparr>"
    using assms(5) by (auto simp: handshake_def bind_eq_Some_conv split: if_splits)
  have "out ?l = out (sl_lib x)" "emitted ?l = emitted (sl_lib x)"
    using assms(2) unfolding handshake_contract_def by auto
  moreover have "?op \<in> {ssl_connect lib, ssl_accept lib}" by simp
  ultimately show ?thesis
    using handshake_loop_flushed [OF run, of out inp emitted wire] assms(1-4)
    by (auto simp: flushed_def x' simp del: insert_iff)
qed

text \<open>A client handshake against a peer that answers with one byte, step by step.\<close>

lemma demo_handshake_run:
  "handshake demo_lib demo_raw Client (ssl_stream_new () demo_session) ([], [[9]]) =
     Some (Inr (), (ssl_stream_new () demo_session)\<lparr>sl_lib := demo_session\<lparr>d_emitted := [22],
       d_stage := 2\<rparr>\<rparr>, ([22], []))"
proof -
  note ev = handshake_loop.simps perform_def demo_lib_def demo_handshake_def demo_session_def
    get_ssl_status_def ssl_error_defs engine_read_def engine_write_def demo_raw_def filled_def
  let ?l = "demo_session\<lparr>d_emitted := [22], d_stage := 1\<rparr>"
  have send: "handshake_send_all demo_raw [22] 0 () ([], inc) = Some (Inr (), (), ([22], inc))" for inc
    by (subst handshake_send_all.simps, simp add: demo_raw_def)
      (subst handshake_send_all.simps, simp)
  have "handshake_loop demo_lib demo_raw demo_handshake (?l\<lparr>d_inp := [9]\<rparr>) () ([22], []) =
      Some (Inr (), ?l\<lparr>d_stage := 2\<rparr>, (), ([22], []))"
    by (subst handshake_loop.simps) (simp add: ev(2-))
  then have "handshake_loop demo_lib demo_raw demo_handshake ?l () ([22], [[9]]) =
      Some (Inr (), ?l\<lparr>d_stage := 2\<rparr>, (), ([22], []))"
    by (subst handshake_loop.simps) (simp add: ev(2-))
  then have "handshake_loop demo_lib demo_raw demo_handshake demo_session () ([], [[9]]) =
      Some (Inr (), ?l\<lparr>d_stage := 2\<rparr>, (), ([22], []))"
    using send by (subst handshake_loop.simps) (simp add: ev(2-))
  then show ?thesis
    by (simp add: handshake_def ssl_stream_new_def) (simp add: demo_lib_def)
qed

theorem handshake_flushes_witness:
  "\<exists>x' st'. handshake demo_lib demo_raw Client (ssl_stream_new () demo_session) ([], [[9]]) =
      Some (Inr (), x', st') \<and> d_out (sl_lib x') = [] \<and> fst st' = d_emitted (sl_lib x')"
proof -
  have "fst ([] :: byte list, [[9 :: byte]]) @ d_out (sl_lib (ssl_stream_new () demo_session)) =
      d_emitted (sl_lib (ssl_stream_new () demo_session))"
    by (simp add: ssl_stream_new_def demo_session_def)
  from handshake_flushes [OF demo_bio demo_handshake_contract demo_raw_contract this demo_handshake_run]
  show ?thesis using demo_handshake_run by blast
qed



definition no_send :: "('s, 'o) raw_stream \<Rightarrow> bool" where
  "no_send raw \<longleftrightarrow> (\<forall>bs fl s st. fst (rs_send raw bs fl s st) = 0)"

lemma handshake_send_all_diverges:
  fixes raw :: "('s, 'o) raw_stream"
  assumes "no_send raw" and "sent < length out"
  shows "handshake_send_all raw out sent s st = None"
proof -
  have "\<not> (no_send raw \<and> sent < length out)"
    if "handshake_send_all raw out sent s st = Some y" for y
  proof (rule handshake_send_all.raw_induct
      [where P = "\<lambda>raw out sent s st y. \<not> (no_send raw \<and> sent < length out)", OF _ that])
    fix rec and raw :: "('s, 'o) raw_stream" and out sent s st y
    assume IH: "\<And>raw out sent s st y. rec raw out sent s st = Some y \<Longrightarrow>
        \<not> (no_send raw \<and> sent < length out)"
      and body: "(if sent < length out then
        (case rs_send raw (drop sent out) 0 s st of (r, s', st') \<Rightarrow>
           if r < 0 then Some (make_sys_error (- r), s', st')
           else rec raw out (sent + nat r) s' st')
      else Some (Inr (), s, st)) = Some y"
    show "\<not> (no_send raw \<and> sent < length out)"
    proof
      assume a: "no_send raw \<and> sent < length out"
      obtain r s' st' where sd: "rs_send raw (drop sent out) 0 s st = (r, s', st')"
        by (cases "rs_send raw (drop sent out) 0 s st") auto
      from a have "fst (rs_send raw (drop sent out) 0 s st) = 0" by (simp add: no_send_def)
      with sd have "r = 0" by simp
      with body sd a have "rec raw out (sent + 0) s' st' = Some y" by simp
      from IH [OF this] a show False by simp
    qed
  qed
  with assms show ?thesis by (cases "handshake_send_all raw out sent s st") auto
qed

text \<open>
  C37: a raw stream that accepts no bytes without an error keeps the handshake in its write
  loop for ever, where \<^verbatim>\<open>send\<close> returns in the same situation.
\<close>

theorem handshake_stalls:
  assumes bio: "bio_contract lib out inp" and "no_send raw"
    and pf: "perform lib (ssl_connect lib) (set_connect_state lib (sl_lib x)) = (Ssl_want_write, l1)"
    and "out l1 \<noteq> []"
  shows "handshake lib raw Client x st = None \<and>
    (\<exists>e s' st'. send_chunk raw (take 4096 (out l1)) flag 0 (sl_raw x) st = Some (Inl 0, s', st'))"
proof -
  obtain n chunk l2 where rd: "engine_read lib 4096 l1 = (n, chunk, l2)"
    by (cases "engine_read lib 4096 l1") auto
  from bio_read_some [OF bio rd assms(4)] have c: "chunk = take 4096 (out l1)"
    "n = int (length chunk)" "0 < n" by auto
  then have fill: "take (nat n) (filled 4096 chunk) = chunk" by (simp add: filled_full)
  from c have "handshake_send_all raw chunk 0 (sl_raw x) st = None"
    by (intro handshake_send_all_diverges assms(2)) simp
  with pf rd c(3) fill have
    "handshake_loop lib raw (ssl_connect lib) (set_connect_state lib (sl_lib x)) (sl_raw x) st = None"
    by (subst handshake_loop.simps) simp
  moreover obtain r s' st' where sd: "rs_send raw chunk flag (sl_raw x) st = (r, s', st')"
    by (cases "rs_send raw chunk flag (sl_raw x) st") auto
  moreover have "fst (rs_send raw chunk flag (sl_raw x) st) = 0"
    using assms(2) by (simp add: no_send_def)
  ultimately show ?thesis
    using c by (simp add: handshake_def) (subst send_chunk.simps, simp)
qed

definition stuck_raw :: "(unit, byte list \<times> byte list list) raw_stream" where
  "stuck_raw = demo_raw\<lparr>rs_send := (\<lambda>bs fl s st. (0, s, st))\<rparr>"

theorem handshake_stalls_witness:
  "handshake demo_lib stuck_raw Client (ssl_stream_new () demo_session) ([], []) = None"
proof -
  let ?x = "ssl_stream_new () demo_session"
  let ?l1 = "demo_session\<lparr>d_out := [22], d_emitted := [22], d_stage := 1\<rparr>"
  have "perform demo_lib (ssl_connect demo_lib) (set_connect_state demo_lib (sl_lib ?x)) =
      (Ssl_want_write, ?l1)"
    by (simp add: perform_def demo_lib_def demo_handshake_def demo_session_def ssl_stream_new_def)
  moreover have "no_send stuck_raw" by (simp add: no_send_def stuck_raw_def)
  ultimately show ?thesis using handshake_stalls [OF demo_bio] by fastforce
qed

subsection \<open>Receiving\<close>

definition read_contract :: "'l ssl_lib \<Rightarrow> ('l \<Rightarrow> byte list) \<Rightarrow> bool" where
  "read_contract lib delivered \<longleftrightarrow>
     (\<forall>n l r bs l'. lib_ssl_read lib n l = (r, bs, l') \<longrightarrow>
        (if 0 < r then r \<le> n \<and> length bs = nat r \<and> delivered l' = delivered l @ bs
         else delivered l' = delivered l)) \<and>
     (\<forall>bs l. delivered (snd (bio_write lib bs l)) = delivered l)"

lemma read_contract_read:
  assumes "read_contract lib delivered" and "engine_ssl_read lib n l = (r, status, bs, l')"
  shows "0 < r \<Longrightarrow> r \<le> n \<and> length bs = nat r \<and> delivered l' = delivered l @ bs"
    "r \<le> 0 \<Longrightarrow> delivered l' = delivered l" "status = get_ssl_status lib l' r"
proof -
  have "lib_ssl_read lib n l = (r, bs, l')" "status = get_ssl_status lib l' r"
    using assms(2) by (auto simp: engine_ssl_read_def split: prod.splits)
  with assms(1) [unfolded read_contract_def, THEN conjunct1, rule_format, of n l r bs l']
  show "0 < r \<Longrightarrow> r \<le> n \<and> length bs = nat r \<and> delivered l' = delivered l @ bs"
    "r \<le> 0 \<Longrightarrow> delivered l' = delivered l" "status = get_ssl_status lib l' r"
    by (auto split: if_splits)
qed

lemma read_contract_write:
  "read_contract lib delivered \<Longrightarrow> engine_write lib bs l = (r, l') \<Longrightarrow> delivered l' = delivered l"
  unfolding read_contract_def engine_write_def by (metis snd_conv)

text \<open>The loop of \<^verbatim>\<open>recv\<close> runs once: a positive read has the status ok.\<close>

lemma recv_loop_once:
  assumes st: "status_contract lib" and rd: "read_contract lib delivered"
    and len: "0 < len" "len < 2 ^ 31"
  shows "\<exists>n got l'. recv_loop lib len [] x = Some (n, got, x\<lparr>sl_lib := l'\<rparr>) \<and> n \<le> int len \<and>
    (if 0 < n then length got = nat n else got = []) \<and>
    delivered l' = delivered (sl_lib x) @ got"
proof -
  obtain r status bs l' where e: "engine_ssl_read lib (int len) (sl_lib x) = (r, status, bs, l')"
    by (cases "engine_ssl_read lib (int len) (sl_lib x)") auto
  note read = read_contract_read [OF rd e]
  show ?thesis
  proof (cases "0 < r")
    case True
    then have f: "take (nat r) (filled len bs) = bs" and ok: "status = Ssl_ok"
      using read get_ssl_status_ok [OF st] by (simp_all add: filled_count)
    have "recv_loop lib len [] x = Some (r, bs, x\<lparr>sl_lib := l'\<rparr>)"
      using True read(1) len e f ok
      by (subst recv_loop.simps) (simp add: Let_def del: length_take)
    with True read(1) show ?thesis by fastforce
  next
    case False
    have "\<exists>n. recv_loop lib len [] x = Some (n, [], x\<lparr>sl_lib := l'\<rparr>) \<and> n \<le> 0"
      using False len e by (subst recv_loop.simps) (auto simp: Let_def)
    with False read(2) len show ?thesis by fastforce
  qed
qed

text \<open>
  C20: \<^verbatim>\<open>recv\<close> always returns, and passes on exactly the plaintext the session delivers. A
  positive result is the number of bytes put into the buffer, never more than its size;
  any other result puts none; and the bytes are the whole plaintext \<^verbatim>\<open>SSL_read\<close> gave during
  the call, none lost and none twice. \<^verbatim>\<open>leftover_\<close> stays empty, so the branches that fill
  and empty it never run.
\<close>

theorem ssl_recv_delivers:
  assumes st: "status_contract lib" and rd: "read_contract lib delivered"
    and raw: "raw_contract raw wire" and len: "len < 2 ^ 31" and left: "sl_left x = []"
  shows "\<exists>n got x' st'. ssl_recv lib raw len flag x st = Some (n, got, x', st') \<and> n \<le> int len \<and>
    (if 0 < n then length got = nat n else got = []) \<and>
    delivered (sl_lib x') = delivered (sl_lib x) @ got \<and> sl_left x' = []"
proof -
  have lo: "read_leftover len x = (0, [], x)" by (simp add: read_leftover_def left)
  obtain r status bs l1 where e: "engine_ssl_read lib (int len) (sl_lib x) = (r, status, bs, l1)"
    by (cases "engine_ssl_read lib (int len) (sl_lib x)") auto
  note read = read_contract_read [OF rd e]
  show ?thesis
  proof (cases "0 < r")
    case True
    with read have f: "take (nat r) (filled len bs) = bs" by (simp add: filled_count)
    have "ssl_recv lib raw len flag x st = Some (r, bs, x\<lparr>sl_lib := l1\<rparr>, st)"
      using True len by (simp add: ssl_recv_def lo e f Let_def)
    with True read left show ?thesis by fastforce
  next
    case False
    then have d1: "delivered l1 = delivered (sl_lib x)" using read by simp
    obtain k data s' st' where rv: "rs_recv raw len flag (sl_raw x) st = (k, data, s', st')"
      by (cases "rs_recv raw len flag (sl_raw x) st") auto
    note kdata = raw_recv [OF raw rv]
    let ?x3 = "x\<lparr>sl_lib := l1, sl_raw := s'\<rparr>"
    show ?thesis
    proof (cases "0 < k")
      case False
      have "ssl_recv lib raw len flag x st = Some (k, [], ?x3, st')"
        using False \<open>\<not> 0 < r\<close> len by (simp add: ssl_recv_def lo e rv Let_def)
      with False d1 left kdata show ?thesis by fastforce
    next
      case True
      obtain w l2 where wr: "engine_write lib (take (nat k) (filled len data)) l1 = (w, l2)"
        by (cases "engine_write lib (take (nat k) (filled len data)) l1")
      have d2: "delivered l2 = delivered (sl_lib x)"
        using read_contract_write [OF rd wr] d1 by simp
      have run: "ssl_recv lib raw len flag x st =
          (if w \<le> 0 then Some (- 1, [], ?x3\<lparr>sl_lib := l2\<rparr>, st')
           else Option.bind (recv_loop lib len [] (?x3\<lparr>sl_lib := l2\<rparr>))
                  (\<lambda>(n, got, x5). Some (n, got, x5, st')))"
        using True \<open>\<not> 0 < r\<close> len wr by (simp add: ssl_recv_def lo e rv Let_def)
      have "0 < len" using True kdata by simp
      from recv_loop_once [OF st rd this len, of "?x3\<lparr>sl_lib := l2\<rparr>"] obtain n got l' where
        "recv_loop lib len [] (?x3\<lparr>sl_lib := l2\<rparr>) = Some (n, got, ?x3\<lparr>sl_lib := l'\<rparr>)"
        "n \<le> int len" "if 0 < n then length got = nat n else got = []"
        "delivered l' = delivered (sl_lib x) @ got" using d2 by auto
      with run d2 left show ?thesis by (cases "w \<le> 0") fastforce+
    qed
  qed
qed

lemma demo_read: "read_contract demo_lib d_delivered"
  unfolding read_contract_def demo_lib_def by (auto simp: Let_def)

theorem ssl_recv_delivers_witness:
  "\<exists>n got x' st'. ssl_recv demo_lib demo_raw 8 0 (ssl_stream_new () demo_session) ([], [[1, 2, 3]]) =
     Some (n, got, x', st') \<and> n \<le> 8 \<and> d_delivered (sl_lib x') = got"
  using ssl_recv_delivers [OF demo_status demo_read demo_raw_contract,
      where len = 8 and x = "ssl_stream_new () demo_session" and st = "([], [[1, 2, 3]])" and flag = 0]
  by (fastforce simp: ssl_stream_new_def demo_session_def)

text \<open>
  A result of 0 does not mean the end of the stream. When the bytes the raw stream
  received complete no TLS record, \<^verbatim>\<open>recv\<close> returns the 0 it also returns when the peer has
  closed, though the connection is open and the bytes are waiting in the session.
\<close>

lemma ssl_recv_zero_is_not_eof:
  assumes bio: "bio_contract lib out inp" and left: "sl_left x = []" and len: "len < 2 ^ 31"
    and first: "engine_ssl_read lib (int len) (sl_lib x) = (r, status, bs, la)" "r \<le> 0"
    and recv: "rs_recv raw len flag (sl_raw x) st = (int (length data), data, s', st')"
    and data: "data \<noteq> []" "length data \<le> len"
    and wr: "engine_write lib data la = (w, lb)"
    and second: "engine_ssl_read lib (int len) lb = (r', Ssl_want_read, bs', l')" "r' \<le> 0"
      "inp l' = inp lb"
  shows "\<exists>x'. ssl_recv lib raw len flag x st = Some (0, [], x', st') \<and>
    inp (sl_lib x') = inp la @ data"
proof -
  have lo: "read_leftover len x = (0, [], x)" by (simp add: read_leftover_def left)
  have f: "take (length data) (filled len data) = data" using data by (simp add: filled_full)
  from bio_write_some [OF bio wr data(1)] have w: "0 < w" "inp lb = inp la @ data"
    using data by auto
  have "0 < len" using data by (cases len) auto
  then have "recv_loop lib len [] (x\<lparr>sl_raw := s', sl_lib := lb\<rparr>) =
      Some (0, [], x\<lparr>sl_raw := s', sl_lib := l'\<rparr>)"
    using second len by (subst recv_loop.simps) (simp add: Let_def)
  then have "ssl_recv lib raw len flag x st = Some (0, [], x\<lparr>sl_raw := s', sl_lib := l'\<rparr>, st')"
    using first recv wr w len data f by (simp add: ssl_recv_def lo Let_def)
  with second w show ?thesis by simp
qed

lemma ssl_recv_zero_is_not_eof_example:
  "(\<exists>x'. ssl_recv demo_lib demo_raw 8 0 (ssl_stream_new () demo_session) ([], [[7]]) =
     Some (0, [], x', ([], [])) \<and> d_inp (sl_lib x') = [7]) \<and>
   (\<exists>x'. ssl_recv demo_lib demo_raw 8 0 (ssl_stream_new () demo_session) ([], []) =
     Some (0, [], x', ([], [])) \<and> d_inp (sl_lib x') = [])"
proof (rule conjI)
  let ?x = "ssl_stream_new () demo_session" and ?l2 = "demo_session\<lparr>d_inp := [7]\<rparr>"
  have "\<exists>x'. ssl_recv demo_lib demo_raw 8 0 ?x ([], [[7]]) = Some (0, [], x', ([], [])) \<and>
      d_inp (sl_lib x') = d_inp demo_session @ [7]"
    by (rule ssl_recv_zero_is_not_eof [OF demo_bio, where r = "- 1" and bs = "[]" and s' = "()"
          and la = demo_session and w = 1 and lb = ?l2 and r' = "- 1" and bs' = "[]" and l' = ?l2])
      (simp_all add: demo_lib_def demo_session_def ssl_stream_new_def engine_ssl_read_def
        engine_write_def demo_raw_def get_ssl_status_def ssl_error_defs)
  then show "\<exists>x'. ssl_recv demo_lib demo_raw 8 0 ?x ([], [[7]]) = Some (0, [], x', ([], [])) \<and>
      d_inp (sl_lib x') = [7]" by (simp add: demo_session_def)
  show "\<exists>x'. ssl_recv demo_lib demo_raw 8 0 ?x ([], []) = Some (0, [], x', ([], [])) \<and>
      d_inp (sl_lib x') = []"
    by (simp add: ssl_recv_def demo_lib_def demo_session_def ssl_stream_new_def
        engine_ssl_read_def demo_raw_def read_leftover_def)
qed

end
