(* ===== verification/Stream.thy ===== *)
theory Stream
  imports Net_Socket Ssl_Stream
begin

section \<open>The stream variant\<close>

text \<open>
  \<^verbatim>\<open>kkp-core/include/kkp/stream.hpp\<close>: \<^verbatim>\<open>base_stream\<close> over \<^verbatim>\<open>net::socket\<close> and
  \<^verbatim>\<open>ssl_stream<net::socket>\<close>, the type \<^verbatim>\<open>kkp::stream\<close>. What awaiting the socket's
  submissions yields is the field of \<open>net_calls\<close>, a parameter.
\<close>

subsection \<open>The socket as a raw stream\<close>

record 'o net_calls =
  aw_send :: "int \<Rightarrow> byte list \<Rightarrow> int \<Rightarrow> 'o \<Rightarrow> int \<times> 'o"
  aw_recv :: "int \<Rightarrow> nat \<Rightarrow> int \<Rightarrow> 'o \<Rightarrow> int \<times> byte list \<times> 'o"

definition socket_raw :: "'o os \<Rightarrow> 'o net_calls \<Rightarrow> (socket, 'o) raw_stream" where
  "socket_raw sys net =
     \<lparr>rs_send = (\<lambda>bs fl s st. let (r, st') = aw_send net (s_fd s) bs fl st in (send_resume r, s, st')),
      rs_recv = (\<lambda>n fl s st. let (r, bs, st') = aw_recv net (s_fd s) n fl st in
        (recv_resume r, bs, s, st')),
      rs_alive = socket_is_alive sys, rs_close = socket_close sys\<rparr>"

subsection \<open>The variant\<close>

datatype 'l stream = Plain socket | Tls "('l, socket) ssl_stream"

fun stream_send_body ::
  "'l ssl_lib \<Rightarrow> 'o os \<Rightarrow> 'o net_calls \<Rightarrow> byte list \<Rightarrow> int \<Rightarrow> 'l stream \<Rightarrow> 'o \<Rightarrow>
   (int outcome \<times> 'l stream \<times> 'o) option" where
  "stream_send_body lib sys net buf flags (Plain s) st =
     (let (r, s', st') = rs_send (socket_raw sys net) buf flags s st in Some (Ret r, Plain s', st'))"
| "stream_send_body lib sys net buf flags (Tls x) st =
     Option.bind (ssl_send lib (socket_raw sys net) buf flags x st)
       (\<lambda>(r, x', st'). Some (r, Tls x', st'))"

fun stream_recv_body ::
  "'l ssl_lib \<Rightarrow> 'o os \<Rightarrow> 'o net_calls \<Rightarrow> nat \<Rightarrow> int \<Rightarrow> 'l stream \<Rightarrow> 'o \<Rightarrow>
   (int \<times> byte list \<times> 'l stream \<times> 'o) option" where
  "stream_recv_body lib sys net n flags (Plain s) st =
     (let (r, bs, s', st') = rs_recv (socket_raw sys net) n flags s st in Some (r, bs, Plain s', st'))"
| "stream_recv_body lib sys net n flags (Tls x) st =
     Option.bind (ssl_recv lib (socket_raw sys net) n flags x st)
       (\<lambda>(r, bs, x', st'). Some (r, bs, Tls x', st'))"

text \<open>
  \<^verbatim>\<open>send\<close> and \<^verbatim>\<open>recv\<close> are not coroutines: they visit the variant with a coroutine lambda that
  captures their parameters by reference and return its task, which starts suspended. The
  parameters live in the activation of the call, a slot of \<open>acts\<close> that the return
  clears; the task keeps the number of that activation.
\<close>

type_synonym 'p activations = "nat \<rightharpoonup> 'p"

definition stream_call :: "'p \<Rightarrow> nat \<Rightarrow> 'p activations \<Rightarrow> nat \<times> 'p activations" where
  "stream_call params frame acts =
     (let acts1 = acts(frame \<mapsto> params); task = frame in (task, acts1(frame := None)))"

definition stream_send :: "byte list \<Rightarrow> int \<Rightarrow> nat \<Rightarrow> (byte list \<times> int) activations \<Rightarrow>
    nat \<times> (byte list \<times> int) activations" where
  "stream_send buf flags frame acts = stream_call (buf, flags) frame acts"

definition stream_recv :: "nat \<Rightarrow> int \<Rightarrow> nat \<Rightarrow> (nat \<times> int) activations \<Rightarrow>
    nat \<times> (nat \<times> int) activations" where
  "stream_recv n flags frame acts = stream_call (n, flags) frame acts"

text \<open>Resuming the task reads the captured parameters first.\<close>

definition stream_send_resume ::
  "'l ssl_lib \<Rightarrow> 'o os \<Rightarrow> 'o net_calls \<Rightarrow> nat \<Rightarrow> (byte list \<times> int) activations \<Rightarrow> 'l stream \<Rightarrow> 'o \<Rightarrow>
   (int outcome \<times> 'l stream \<times> 'o) option" where
  "stream_send_resume lib sys net task acts x st =
     (case acts task of
        None \<Rightarrow> Some (Fault Dangling, x, st)
      | Some (buf, flags) \<Rightarrow> stream_send_body lib sys net buf flags x st)"

definition stream_recv_resume ::
  "'l ssl_lib \<Rightarrow> 'o os \<Rightarrow> 'o net_calls \<Rightarrow> nat \<Rightarrow> (nat \<times> int) activations \<Rightarrow> 'l stream \<Rightarrow> 'o \<Rightarrow>
   ((int \<times> byte list) outcome \<times> 'l stream \<times> 'o) option" where
  "stream_recv_resume lib sys net task acts x st =
     (case acts task of
        None \<Rightarrow> Some (Fault Dangling, x, st)
      | Some (n, flags) \<Rightarrow>
          Option.bind (stream_recv_body lib sys net n flags x st)
            (\<lambda>(r, bs, x', st'). Some (Ret (r, bs), x', st')))"

fun stream_is_alive :: "'o os \<Rightarrow> 'o net_calls \<Rightarrow> 'l stream \<Rightarrow> 'o \<Rightarrow> bool" where
  "stream_is_alive sys net (Plain s) st = socket_is_alive sys s st"
| "stream_is_alive sys net (Tls x) st = ssl_is_alive (socket_raw sys net) x st"

fun stream_close :: "'o os \<Rightarrow> 'o net_calls \<Rightarrow> 'l stream \<Rightarrow> 'o \<Rightarrow> bool \<times> 'l stream \<times> 'o" where
  "stream_close sys net (Plain s) st = (let (r, s', st') = socket_close sys s st in (r, Plain s', st'))"
| "stream_close sys net (Tls x) st =
     (let (r, x', st') = ssl_close (socket_raw sys net) x st in (r, Tls x', st'))"

fun stream_clear_left :: "'l stream \<Rightarrow> nat \<times> 'l stream" where
  "stream_clear_left (Tls x) = (let (n, x') = clear_left x in (n, Tls x'))"
| "stream_clear_left (Plain s) = (0, Plain s)"

subsection \<open>The stream contract, up the stack\<close>

interpretation raw_socket:
  kk_stream "rs_close (socket_raw sys net)" "rs_alive (socket_raw sys net)"
  for sys :: "'o os" and net :: "'o net_calls"
  by (simp add: socket_raw_def) (rule socket_stream.kk_stream_axioms)

interpretation tls_stream:
  kk_stream "ssl_close (socket_raw sys net)" "ssl_is_alive (socket_raw sys net)"
  for sys :: "'o os" and net :: "'o net_calls"
  by (rule raw_socket.over_tls) (rule refl)+

lemma stream_close_tls:
  "stream_close sys net (Tls x) st = (r, y, st') \<longleftrightarrow>
     (\<exists>x'. ssl_close (socket_raw sys net) x st = (r, x', st') \<and> y = Tls x')"
  by (auto split: prod.splits)

lemma stream_close_plain:
  "stream_close sys net (Plain s) st = (r, y, st') \<longleftrightarrow>
     (\<exists>s'. socket_close sys s st = (r, s', st') \<and> y = Plain s')"
  by (auto split: prod.splits)

interpretation base_stream: kk_stream "stream_close sys net" "stream_is_alive sys net"
  for sys :: "'o os" and net :: "'o net_calls"
proof
  fix x y :: "'l stream" and st st' u
  assume c: "stream_close sys net x st = (True, y, st')"
  show "\<not> stream_is_alive sys net y u"
    by (cases x) (use c in \<open>auto simp: stream_close_tls stream_close_plain simp del: stream_close.simps
        dest: socket_stream.close_dead tls_stream.close_dead\<close>)
  show "stream_close sys net y u = (False, y, u)"
    by (cases x) (use c in \<open>auto simp: stream_close_tls stream_close_plain simp del: stream_close.simps
        dest: socket_stream.close_again tls_stream.close_again\<close>)
qed

subsection \<open>Properties\<close>


definition quiet_net :: "'o net_calls" where
  "quiet_net = \<lparr>aw_send = (\<lambda>fd bs fl st. (0, st)), aw_recv = (\<lambda>fd n fl st. (0, [], st))\<rparr>"



end
