(* ===== verification/Stream_Moves.thy ===== *)
theory Stream_Moves
  imports Stream
begin

section \<open>Streams as owners\<close>

text \<open>
  The life of \<^verbatim>\<open>ssl_stream<socket>\<close> and of \<^verbatim>\<open>base_stream\<close>: construction, moves, move assignment
  and destruction, with the descriptors and the OpenSSL objects they own. The theories
  \<open>Ssl_Stream\<close> and \<open>Stream\<close> have what the streams do in between.
\<close>

subsection \<open>What is released\<close>

datatype release = Close int | Ssl_free nat | Bio_free nat

definition call_if :: "(nat \<Rightarrow> release) \<Rightarrow> nat option \<Rightarrow> release list" where
  "call_if call p = (case p of None \<Rightarrow> [] | Some a \<Rightarrow> [call a])"

lemma call_if_simps [simp]: "call_if call None = []" "call_if call (Some a) = [call a]"
  by (simp_all add: call_if_def)

text \<open>The calls of \<^verbatim>\<open>ssl_engine\<close>'s assignment and destructor, and that they are these.\<close>

definition engine_assign_calls :: "ssl_engine \<Rightarrow> release list" where
  "engine_assign_calls this =
     call_if Ssl_free (en_ssl this) @ call_if Bio_free (en_read_bio this) @ call_if Bio_free (en_write_bio this)"

definition engine_drop_calls :: "ssl_engine \<Rightarrow> release list" where
  "engine_drop_calls e = call_if Ssl_free (en_ssl e)"

fun make_call :: "'h ssl_heap \<Rightarrow> release \<Rightarrow> 'h \<Rightarrow> 'h outcome" where
  "make_call hp (Ssl_free s) h = ssl_free hp s h"
| "make_call hp (Bio_free b) h = bio_free hp b h"
| "make_call hp (Close fd) h = Ret h"

fun make_calls :: "'h ssl_heap \<Rightarrow> release list \<Rightarrow> 'h \<Rightarrow> 'h outcome" where
  "make_calls hp [] h = Ret h"
| "make_calls hp (c # cs) h = obind (make_call hp c h) (make_calls hp cs)"

lemma obind_Ret_right [simp]: "obind m Ret = m"
  by (cases m) auto

lemma make_calls_Nil [simp]: "make_calls hp [] = Ret"
  by (rule ext) simp

lemma make_calls_append: "make_calls hp (cs @ ds) = (\<lambda>h. obind (make_calls hp cs h) (make_calls hp ds))"
  by (induction cs) (auto simp: obind_assoc)

lemma free_if_calls:
  "free_if (ssl_free hp) p = make_calls hp (call_if Ssl_free p)"
  "free_if (bio_free hp) p = make_calls hp (call_if Bio_free p)"
  by (rule ext, cases p, simp_all add: free_if_def)+

lemma engine_drop_makes: "engine_drop hp e h = make_calls hp (engine_drop_calls e) h"
  by (simp add: engine_drop_def engine_drop_calls_def free_if_calls)

lemma engine_assign_makes:
  "engine_assign hp e e' h =
     obind (make_calls hp (engine_assign_calls e) h) (\<lambda>h. Ret (fst (engine_move e'), snd (engine_move e'), h))"
  by (cases e, cases e') (simp add: engine_assign_def engine_assign_calls_def engine_move_def free_if_calls make_calls_append obind_assoc)

subsection \<open>\<^verbatim>\<open>ssl_stream<socket>\<close>\<close>

record tls_object =
  to_raw :: socket
  to_engine :: ssl_engine
  to_left :: "byte list"
  to_cap :: nat

text \<open>
  The constructor: when the engine cannot be built, the member \<^verbatim>\<open>raw_stream_\<close> is destroyed
  with the socket it took over. The second component is the socket that was moved from.
\<close>

definition tls_new :: "'h ssl_heap \<Rightarrow> socket \<Rightarrow> 'h \<Rightarrow> tls_object outcome \<times> socket \<times> release list \<times> 'h" where
  "tls_new hp raw_stream h =
     (let (raw, old) = socket_move raw_stream; (e, h') = engine_new hp h in
      case e of
        Ret en \<Rightarrow> (Ret \<lparr>to_raw = raw, to_engine = en, to_left = [], to_cap = 4096\<rparr>, old, [], h')
      | Thrown x \<Rightarrow> (Thrown x, old, map Close (socket_drop raw), h')
      | Fault u \<Rightarrow> (Fault u, old, [], h'))"

text \<open>The vector moves with its capacity and leaves an empty one without.\<close>

definition tls_move :: "tls_object \<Rightarrow> tls_object \<times> tls_object" where
  "tls_move other =
     (let (raw, raw0) = socket_move (to_raw other); (en, en0) = engine_move (to_engine other) in
      (\<lparr>to_raw = raw, to_engine = en, to_left = to_left other, to_cap = to_cap other\<rparr>,
       \<lparr>to_raw = raw0, to_engine = en0, to_left = [], to_cap = 0\<rparr>))"

definition tls_assign :: "tls_object \<Rightarrow> tls_object \<Rightarrow> tls_object \<times> tls_object \<times> release list" where
  "tls_assign this other =
     (let (raw, raw0, fds) = socket_assign (to_raw this) (to_raw other);
          (en, en0) = engine_move (to_engine other) in
      (\<lparr>to_raw = raw, to_engine = en, to_left = to_left other, to_cap = to_cap other\<rparr>,
       \<lparr>to_raw = raw0, to_engine = en0, to_left = [], to_cap = 0\<rparr>,
       map Close fds @ engine_assign_calls (to_engine this)))"

text \<open>The members are destroyed in reverse order.\<close>

definition tls_drop :: "tls_object \<Rightarrow> release list" where
  "tls_drop x = engine_drop_calls (to_engine x) @ map Close (socket_drop (to_raw x))"

subsection \<open>\<^verbatim>\<open>base_stream\<close>\<close>

datatype stream_object = Plain_object socket | Tls_object tls_object

text \<open>
  The constructors from a socket and from a TLS stream take them by value and move them into
  the variant; the second component is the parameter, which the caller destroys.
\<close>

definition stream_of_socket :: "socket \<Rightarrow> stream_object \<times> socket" where
  "stream_of_socket s = (let (s', old) = socket_move s in (Plain_object s', old))"

definition stream_of_tls :: "tls_object \<Rightarrow> stream_object \<times> tls_object" where
  "stream_of_tls x = (let (x', old) = tls_move x in (Tls_object x', old))"

fun stream_move :: "stream_object \<Rightarrow> stream_object \<times> stream_object" where
  "stream_move (Plain_object s) = (let (s', old) = socket_move s in (Plain_object s', Plain_object old))"
| "stream_move (Tls_object x) = (let (x', old) = tls_move x in (Tls_object x', Tls_object old))"

fun stream_drop :: "stream_object \<Rightarrow> release list" where
  "stream_drop (Plain_object s) = map Close (socket_drop s)"
| "stream_drop (Tls_object x) = tls_drop x"

text \<open>
  Assignment of the variant: the same alternative is assigned; another one is destroyed and
  the new one constructed in its place.
\<close>

fun stream_assign :: "stream_object \<Rightarrow> stream_object \<Rightarrow> stream_object \<times> stream_object \<times> release list" where
  "stream_assign (Plain_object s) (Plain_object t) =
     (let (s', t', fds) = socket_assign s t in (Plain_object s', Plain_object t', map Close fds))"
| "stream_assign (Tls_object x) (Tls_object y) =
     (let (x', y', rs) = tls_assign x y in (Tls_object x', Tls_object y', rs))"
| "stream_assign this other =
     (let (this', other') = stream_move other in (this', other', stream_drop this))"

text \<open>
  \<^verbatim>\<open>get_stream\<close> is \<^verbatim>\<open>noexcept\<close>, so the exception of \<^verbatim>\<open>std::get\<close> for the other alternative ends
  the program.
\<close>

fun get_stream_socket :: "stream_object \<Rightarrow> socket outcome" where
  "get_stream_socket (Plain_object s) = Ret s"
| "get_stream_socket (Tls_object x) = Fault Terminate"

fun get_stream_tls :: "stream_object \<Rightarrow> tls_object outcome" where
  "get_stream_tls (Tls_object x) = Ret x"
| "get_stream_tls (Plain_object s) = Fault Terminate"

text \<open>What the object does between its moves, as \<open>Stream\<close> has it: \<open>l\<close> is the state of its session.\<close>

fun stream_at :: "'l \<Rightarrow> stream_object \<Rightarrow> 'l stream" where
  "stream_at l (Plain_object s) = Plain s"
| "stream_at l (Tls_object x) = Tls \<lparr>sl_raw = to_raw x, sl_lib = l, sl_left = to_left x, sl_cap = to_cap x\<rparr>"

subsection \<open>Ownership\<close>

fun frees :: "release \<Rightarrow> bool" where
  "frees (Close fd) \<longleftrightarrow> fd > 0"
| "frees (Ssl_free s) \<longleftrightarrow> True"
| "frees (Bio_free b) \<longleftrightarrow> False"

fun stream_owned :: "stream_object \<Rightarrow> release list" where
  "stream_owned (Plain_object s) = map Close (socket_owned s)"
| "stream_owned (Tls_object x) = call_if Ssl_free (en_ssl (to_engine x)) @ map Close (socket_owned (to_raw x))"

lemmas stream_life_defs = socket_move_def socket_assign_def socket_drop_def socket_owned_def
  tls_move_def tls_assign_def tls_drop_def engine_move_def engine_assign_calls_def engine_drop_calls_def

interpretation stream_owner: unique_owner frees stream_owned stream_move stream_assign stream_drop
proof
  fix h d s :: stream_object
  show "stream_owned (fst (stream_move h)) = stream_owned h" "stream_owned (snd (stream_move h)) = []"
    by (cases h; simp add: stream_life_defs)+
  show "stream_owned (fst (stream_assign d s)) = stream_owned s"
    "stream_owned (fst (snd (stream_assign d s))) = []"
    by (cases d; cases s; simp add: stream_life_defs)+
  show "mset (filter frees (stream_drop h)) = mset (stream_owned h)"
    by (cases h) (auto simp: stream_life_defs call_if_def split: option.splits)
  then show "mset (filter frees (snd (snd (stream_assign d s)))) = mset (stream_owned d)"
    by (cases d; cases s) (auto simp: stream_life_defs call_if_def split: option.splits)
qed

text \<open>The new object goes on where the old one was; the old one is dead and has nothing buffered.\<close>

lemma stream_moves_on:
  assumes "stream_move x = (y, old)"
  shows "stream_is_alive sys net (stream_at l y) st = stream_is_alive sys net (stream_at l x) st"
    and "fst (stream_clear_left (stream_at l y)) = fst (stream_clear_left (stream_at l x))"
    and "\<not> stream_is_alive sys net (stream_at l old) st"
    and "fst (stream_clear_left (stream_at l old)) = 0"
proof -
  note defs = tls_move_def socket_move_def ssl_is_alive_def socket_raw_def socket_is_alive_def clear_left_def
  from assms have y: "y = fst (stream_move x)" and old: "old = snd (stream_move x)" by simp_all
  show "stream_is_alive sys net (stream_at l y) st = stream_is_alive sys net (stream_at l x) st"
    unfolding y by (cases x) (simp_all add: defs case_prod_beta)
  show "\<not> stream_is_alive sys net (stream_at l old) st"
    unfolding old by (cases x) (simp_all add: defs case_prod_beta)
  show "fst (stream_clear_left (stream_at l y)) = fst (stream_clear_left (stream_at l x))"
    unfolding y by (cases x) (simp_all add: defs case_prod_beta)
  show "fst (stream_clear_left (stream_at l old)) = 0"
    unfolding old by (cases x) (simp_all add: defs case_prod_beta)
qed

lemma stream_owned_frees: "r \<in># held stream_owned pool \<Longrightarrow> frees r"
proof (induction pool)
  case (Cons x pool)
  have "frees r" if "r \<in> set (stream_owned s)" for s
    using that by (cases s) (auto simp: socket_owned_def call_if_def split: option.splits if_splits)
  with Cons show ?case by (auto simp: held_Cons split: option.splits)
qed simp

subsection \<open>Properties\<close>


text \<open>A TLS stream is moved, then moved over a plain one, and all three objects die.\<close>

definition demo_tls_object :: tls_object where
  "demo_tls_object = \<lparr>to_raw = socket_new 5,
     to_engine = \<lparr>en_ssl = Some 1, en_read_bio = Some 2, en_write_bio = Some 3\<rparr>, to_left = [], to_cap = 4096\<rparr>"


end
