(* ===== verification/Delay.thy ===== *)
theory Delay
  imports Uring "HOL-Library.Signed_Division"
begin

section \<open>Delays\<close>

text \<open>
  \<^verbatim>\<open>kkp-core/include/kkp/utils.hpp\<close> and the constructors of the awaiters with a time,
  \<^verbatim>\<open>uring/awaiter/timeout.hpp\<close> and \<^verbatim>\<open>link_timeout.hpp\<close>. The kernel reads a
  \<^verbatim>\<open>__kernel_timespec\<close> through the pointer of the submission when the ring is submitted, so
  the objects live in a store \<open>timespecs\<close> from addresses to values.
\<close>

record timespec =
  tv_sec :: int
  tv_nsec :: int

definition IORING_TIMEOUT_ETIME_SUCCESS :: nat where
  "IORING_TIMEOUT_ETIME_SUCCESS = 32"

type_synonym timespecs = "addr \<rightharpoonup> timespec"

text \<open>
  The awaiter submits a pointer to its own member \<open>ts_\<close>, at \<open>ts_at\<close>, into which it then
  copies what the caller's pointer \<open>ts\<close> designates. \<open>this\<close> is the address of its cell.
\<close>

definition timeout_new ::
  "'r uring_lib \<Rightarrow> addr \<Rightarrow> addr \<Rightarrow> addr \<Rightarrow> nat \<Rightarrow> nat \<Rightarrow> timespecs \<Rightarrow> ('r, 'z) uworld_scheme \<Rightarrow>
   (awaiter \<times> timespecs \<times> ('r, 'z) uworld_scheme) outcome" where
  "timeout_new lib this ts_at ts count flags timespecs w =
     (let (aw, w') = awaiter_new lib (timeout_op ts_at count flags) this w in
      case timespecs ts of
        None \<Rightarrow> Fault Dangling
      | Some t \<Rightarrow> Ret (aw, timespecs(ts_at \<mapsto> t), w'))"

definition link_timeout_new ::
  "'r uring_lib \<Rightarrow> addr \<Rightarrow> addr \<Rightarrow> addr \<Rightarrow> nat \<Rightarrow> timespecs \<Rightarrow> ('r, 'z) uworld_scheme \<Rightarrow>
   (awaiter \<times> timespecs \<times> ('r, 'z) uworld_scheme) outcome" where
  "link_timeout_new lib this ts_at ts flags timespecs w =
     (let (aw, w') = awaiter_new lib (link_timeout_op ts_at flags) this w in
      case timespecs ts of
        None \<Rightarrow> Fault Dangling
      | Some t \<Rightarrow> Ret (aw, timespecs(ts_at \<mapsto> t), w'))"

text \<open>\<^verbatim>\<open>delay(ring, ts)\<close>.\<close>

definition delay_ts ::
  "'r uring_lib \<Rightarrow> addr \<Rightarrow> addr \<Rightarrow> addr \<Rightarrow> timespecs \<Rightarrow> ('r, 'z) uworld_scheme \<Rightarrow>
   (awaiter \<times> timespecs \<times> ('r, 'z) uworld_scheme) outcome" where
  "delay_ts lib this ts_at ts timespecs w =
     timeout_new lib this ts_at ts 0 IORING_TIMEOUT_ETIME_SUCCESS timespecs w"

text \<open>\<^verbatim>\<open>long\<close> division and remainder truncate towards zero.\<close>

definition mills_timespec :: "int \<Rightarrow> timespec" where
  "mills_timespec mills = \<lparr>tv_sec = mills sdiv 1000, tv_nsec = mills smod 1000 * 1000000\<rparr>"

text \<open>\<^verbatim>\<open>delay(ring, mills)\<close>: its \<^verbatim>\<open>ts\<close> is a local at address \<open>loc\<close>, gone on return.\<close>

definition delay_mills ::
  "'r uring_lib \<Rightarrow> addr \<Rightarrow> addr \<Rightarrow> addr \<Rightarrow> int \<Rightarrow> timespecs \<Rightarrow> ('r, 'z) uworld_scheme \<Rightarrow>
   (awaiter \<times> timespecs \<times> ('r, 'z) uworld_scheme) outcome" where
  "delay_mills lib this ts_at loc mills timespecs w =
     obind (delay_ts lib this ts_at loc (timespecs(loc \<mapsto> mills_timespec mills)) w)
       (\<lambda>(aw, timespecs', w'). Ret (aw, timespecs'(loc := None), w'))"

text \<open>What the kernel reads through the pointer of a timeout when the ring is submitted.\<close>

fun submitted_timespec :: "timespecs \<Rightarrow> uring_op \<Rightarrow> timespec option" where
  "submitted_timespec timespecs (Op_timeout ts n fl) = timespecs ts"
| "submitted_timespec timespecs (Op_link_timeout ts fl) = timespecs ts"
| "submitted_timespec timespecs _ = None"

lemma mills_timespec_exact:
  "tv_sec (mills_timespec mills) * 1000000000 + tv_nsec (mills_timespec mills) = mills * 1000000 \<and>
   \<bar>tv_nsec (mills_timespec mills)\<bar> < 1000000000 \<and>
   (if 0 \<le> mills then 0 \<le> tv_sec (mills_timespec mills) \<and> 0 \<le> tv_nsec (mills_timespec mills)
    else tv_sec (mills_timespec mills) \<le> 0 \<and> tv_nsec (mills_timespec mills) \<le> 0)"
proof -
  have "mills sdiv 1000 * 1000 + mills smod 1000 = mills"
    by (rule sdiv_mult_smod_eq)
  moreover have "\<bar>mills smod 1000\<bar> < 1000"
    by (simp add: smod_int_alt_def sgn_if abs_if) (smt (verit) pos_mod_bound pos_mod_sign)
  moreover have "if 0 \<le> mills then 0 \<le> mills sdiv 1000 \<and> 0 \<le> mills smod 1000
      else mills sdiv 1000 \<le> 0 \<and> mills smod 1000 \<le> 0"
    by (simp add: smod_int_alt_def signed_divide_int_def sgn_if abs_if pos_imp_zdiv_nonneg_iff)
  ultimately show ?thesis by (auto simp: mills_timespec_def)
qed

subsection \<open>Properties\<close>

text \<open>
  A delay in milliseconds submits exactly that delay. The awaiter's submission is a
  timeout with the flag for a successful expiry; when the ring is submitted, after the
  function and its local are gone, the kernel reads through its pointer a timespec whose
  seconds and nanoseconds together are the milliseconds given, in the kernel's range for
  a delay that is not negative and with no positive part for a negative one.
\<close>

lemma delay_mills_submits:
  assumes "loc \<noteq> ts_at" and "awaiter_new lib (Op_timeout ts_at 0 32) this w = (aw, w')"
  shows "\<exists>timespecs' t. delay_mills lib this ts_at loc mills timespecs w = Ret (aw, timespecs', w') \<and>
    timespecs' loc = None \<and> submitted_timespec timespecs' (Op_timeout ts_at 0 32) = Some t \<and>
    tv_sec t * 1000000000 + tv_nsec t = mills * 1000000 \<and> \<bar>tv_nsec t\<bar> < 1000000000 \<and>
    (if 0 \<le> mills then 0 \<le> tv_sec t \<and> 0 \<le> tv_nsec t else tv_sec t \<le> 0 \<and> tv_nsec t \<le> 0)"
  using assms mills_timespec_exact [of mills]
  by (intro exI [of _ "timespecs(loc := None, ts_at \<mapsto> mills_timespec mills)"]
      exI [of _ "mills_timespec mills"])
    (simp add: delay_mills_def delay_ts_def timeout_new_def timeout_op_def
      IORING_TIMEOUT_ETIME_SUCCESS_def fun_upd_twist)

lemma delay_mills_submits_example:
  "\<exists>aw w' ts' t. delay_mills list_ring 3 4 100 1500 Map.empty (demo_world []) = Ret (aw, ts', w') \<and>
     submitted_timespec ts' (Op_timeout 4 0 32) = Some t \<and>
     tv_sec t * 1000000000 + tv_nsec t = 1500000000"
proof -
  obtain aw w' where new: "awaiter_new list_ring (Op_timeout 4 0 32) 3 (demo_world []) = (aw, w')"
    by (cases "awaiter_new list_ring (Op_timeout 4 0 32) 3 (demo_world [])")
  have "(100 :: addr) \<noteq> 4" by simp
  from delay_mills_submits [OF this new, of 1500 Map.empty] show ?thesis by fastforce
qed

end
