(* ===== verification/Http_Def.thy ===== *)
theory Http_Def
  imports Error_Code
begin

section \<open>HTTP constants\<close>

text \<open>
  \<^verbatim>\<open>kkp-http/include/kkp/http/http_def.hpp\<close> and \<^verbatim>\<open>versions.hpp\<close>: the methods, the status
  codes and their reason phrases with the lookup over them, the header names, content
  types and encodings, and the server name. The header names are the values of the
  \<^verbatim>\<open>header_*\<close> constants in the order of the file; each status code is an abbreviation with
  the name it has in the file.
\<close>

definition kkp_version :: string where "kkp_version = ''0.1.0''"

definition kkp_server_name :: string where "kkp_server_name = ''kankan/'' @ kkp_version"

definition methods :: "string list" where
  "methods =
    [''GET'', ''POST'', ''PUT'', ''DELETE'', ''HEAD'', ''OPTIONS'', ''TRACE'', ''CONNECT'',
     ''PATCH'']"

subsection \<open>Status codes and reason phrases\<close>

abbreviation (input) status_continue :: int where "status_continue \<equiv> 100"
abbreviation (input) status_switching_protocols :: int where "status_switching_protocols \<equiv> 101"
abbreviation (input) status_processing :: int where "status_processing \<equiv> 102"
abbreviation (input) status_ok :: int where "status_ok \<equiv> 200"
abbreviation (input) status_created :: int where "status_created \<equiv> 201"
abbreviation (input) status_accepted :: int where "status_accepted \<equiv> 202"
abbreviation (input) status_non_authoritative_information :: int where "status_non_authoritative_information \<equiv> 203"
abbreviation (input) status_no_content :: int where "status_no_content \<equiv> 204"
abbreviation (input) status_reset_content :: int where "status_reset_content \<equiv> 205"
abbreviation (input) status_partial_content :: int where "status_partial_content \<equiv> 206"
abbreviation (input) status_multi_status :: int where "status_multi_status \<equiv> 207"
abbreviation (input) status_already_reported :: int where "status_already_reported \<equiv> 208"
abbreviation (input) status_im_used :: int where "status_im_used \<equiv> 226"
abbreviation (input) status_multiple_choices :: int where "status_multiple_choices \<equiv> 300"
abbreviation (input) status_moved_permanently :: int where "status_moved_permanently \<equiv> 301"
abbreviation (input) status_found :: int where "status_found \<equiv> 302"
abbreviation (input) status_see_other :: int where "status_see_other \<equiv> 303"
abbreviation (input) status_not_modified :: int where "status_not_modified \<equiv> 304"
abbreviation (input) status_use_proxy :: int where "status_use_proxy \<equiv> 305"
abbreviation (input) status_switch_proxy :: int where "status_switch_proxy \<equiv> 306"
abbreviation (input) status_temporary_redirect :: int where "status_temporary_redirect \<equiv> 307"
abbreviation (input) status_permanent_redirect :: int where "status_permanent_redirect \<equiv> 308"
abbreviation (input) status_bad_request :: int where "status_bad_request \<equiv> 400"
abbreviation (input) status_unauthorized :: int where "status_unauthorized \<equiv> 401"
abbreviation (input) status_payment_required :: int where "status_payment_required \<equiv> 402"
abbreviation (input) status_forbidden :: int where "status_forbidden \<equiv> 403"
abbreviation (input) status_not_found :: int where "status_not_found \<equiv> 404"
abbreviation (input) status_method_not_allowed :: int where "status_method_not_allowed \<equiv> 405"
abbreviation (input) status_not_acceptable :: int where "status_not_acceptable \<equiv> 406"
abbreviation (input) status_proxy_authentication_required :: int where "status_proxy_authentication_required \<equiv> 407"
abbreviation (input) status_request_timeout :: int where "status_request_timeout \<equiv> 408"
abbreviation (input) status_conflict :: int where "status_conflict \<equiv> 409"
abbreviation (input) status_gone :: int where "status_gone \<equiv> 410"
abbreviation (input) status_length_required :: int where "status_length_required \<equiv> 411"
abbreviation (input) status_precondition_failed :: int where "status_precondition_failed \<equiv> 412"
abbreviation (input) status_payload_too_large :: int where "status_payload_too_large \<equiv> 413"
abbreviation (input) status_uri_too_long :: int where "status_uri_too_long \<equiv> 414"
abbreviation (input) status_unsupported_media_type :: int where "status_unsupported_media_type \<equiv> 415"
abbreviation (input) status_range_not_satisfiable :: int where "status_range_not_satisfiable \<equiv> 416"
abbreviation (input) status_expectation_failed :: int where "status_expectation_failed \<equiv> 417"
abbreviation (input) status_im_a_teapot :: int where "status_im_a_teapot \<equiv> 418"
abbreviation (input) status_misdirected_request :: int where "status_misdirected_request \<equiv> 421"
abbreviation (input) status_unprocessable_entity :: int where "status_unprocessable_entity \<equiv> 422"
abbreviation (input) status_locked :: int where "status_locked \<equiv> 423"
abbreviation (input) status_failed_dependency :: int where "status_failed_dependency \<equiv> 424"
abbreviation (input) status_upgrade_required :: int where "status_upgrade_required \<equiv> 426"
abbreviation (input) status_precondition_required :: int where "status_precondition_required \<equiv> 428"
abbreviation (input) status_too_many_requests :: int where "status_too_many_requests \<equiv> 429"
abbreviation (input) status_request_header_fields_too_large :: int where "status_request_header_fields_too_large \<equiv> 431"
abbreviation (input) status_unavailable_for_legal_reasons :: int where "status_unavailable_for_legal_reasons \<equiv> 451"
abbreviation (input) status_internal_server_error :: int where "status_internal_server_error \<equiv> 500"
abbreviation (input) status_not_implemented :: int where "status_not_implemented \<equiv> 501"
abbreviation (input) status_bad_gateway :: int where "status_bad_gateway \<equiv> 502"
abbreviation (input) status_service_unavailable :: int where "status_service_unavailable \<equiv> 503"
abbreviation (input) status_gateway_timeout :: int where "status_gateway_timeout \<equiv> 504"
abbreviation (input) status_http_version_not_supported :: int where "status_http_version_not_supported \<equiv> 505"
abbreviation (input) status_variant_also_negotiates :: int where "status_variant_also_negotiates \<equiv> 506"
abbreviation (input) status_insufficient_storage :: int where "status_insufficient_storage \<equiv> 507"
abbreviation (input) status_loop_detected :: int where "status_loop_detected \<equiv> 508"
abbreviation (input) status_not_extended :: int where "status_not_extended \<equiv> 510"
abbreviation (input) status_network_authentication_required :: int where "status_network_authentication_required \<equiv> 511"

definition status_map :: "(int \<times> string) list" where
  "status_map =
    [(status_continue, ''Continue''),
     (status_switching_protocols, ''Switching Protocols''),
     (status_processing, ''Processing''),
     (status_ok, ''OK''),
     (status_created, ''Created''),
     (status_accepted, ''Accepted''),
     (status_non_authoritative_information, ''Non-Authoritative Information''),
     (status_no_content, ''No Content''),
     (status_reset_content, ''Reset Content''),
     (status_partial_content, ''Partial Content''),
     (status_multi_status, ''Multi-Status''),
     (status_already_reported, ''Already Reported''),
     (status_im_used, ''IM Used''),
     (status_multiple_choices, ''Multiple Choices''),
     (status_moved_permanently, ''Moved Permanently''),
     (status_found, ''Found''),
     (status_see_other, ''See Other''),
     (status_not_modified, ''Not Modified''),
     (status_use_proxy, ''Use Proxy''),
     (status_switch_proxy, ''Switch Proxy''),
     (status_temporary_redirect, ''Temporary Redirect''),
     (status_permanent_redirect, ''Permanent Redirect''),
     (status_bad_request, ''Bad Request''),
     (status_unauthorized, ''Unauthorized''),
     (status_payment_required, ''Payment Required''),
     (status_forbidden, ''Forbidden''),
     (status_not_found, ''Not Found''),
     (status_method_not_allowed, ''Method Not Allowed''),
     (status_not_acceptable, ''Not Acceptable''),
     (status_proxy_authentication_required, ''Proxy Authentication Required''),
     (status_request_timeout, ''Request Timeout''),
     (status_conflict, ''Conflict''),
     (status_gone, ''Gone''),
     (status_length_required, ''Length Required''),
     (status_precondition_failed, ''Precondition Failed''),
     (status_payload_too_large, ''Payload Too Large''),
     (status_uri_too_long, ''URI TooLong''),
     (status_unsupported_media_type, ''Unsupported Media Type''),
     (status_range_not_satisfiable, ''Range Not Satisfiable''),
     (status_expectation_failed, ''Expectation Failed''),
     (status_im_a_teapot, ''I'm a teapot''),
     (status_misdirected_request, ''Misdirected Request''),
     (status_unprocessable_entity, ''Unprocessable Entity''),
     (status_locked, ''Locked''),
     (status_failed_dependency, ''Failed Dependency''),
     (status_upgrade_required, ''Upgrade Required''),
     (status_precondition_required, ''Precondition Required''),
     (status_too_many_requests, ''Too Many Requests''),
     (status_request_header_fields_too_large, ''Request Header Fields Too Large''),
     (status_unavailable_for_legal_reasons, ''Unavailable For Legal Reasons''),
     (status_internal_server_error, ''Internal Server Error''),
     (status_not_implemented, ''Not Implemented''),
     (status_bad_gateway, ''Bad Gateway''),
     (status_service_unavailable, ''Service Unavailable''),
     (status_gateway_timeout, ''Gateway Timeout''),
     (status_http_version_not_supported, ''HTTP Version Not Supported''),
     (status_variant_also_negotiates, ''Variant Also Negotiates''),
     (status_insufficient_storage, ''Insufficient Storage''),
     (status_loop_detected, ''Loop Detected''),
     (status_not_extended, ''Not Extended''),
     (status_network_authentication_required, ''Network Authentication Required'')]"

definition header_unknown :: string where "header_unknown = ''Unknown Status''"

text \<open>The range-for with its early return.\<close>

fun status_loop :: "(int \<times> string) list \<Rightarrow> int \<Rightarrow> string" where
  "status_loop [] status = header_unknown"
| "status_loop ((s, msg) # rest) status = (if s = status then msg else status_loop rest status)"

definition get_status_message :: "int \<Rightarrow> string" where
  "get_status_message status = status_loop status_map status"

subsection \<open>Header names, content types, encodings, versions\<close>

definition header_names :: "string list" where
  "header_names =
    [''Accept'', ''Accept-Charset'', ''Accept-Encoding'', ''Accept-Language'',
     ''Accept-Ranges'', ''Access-Control-Allow-Credentials'', ''Access-Control-Allow-Headers'',
     ''Access-Control-Allow-Methods'', ''Access-Control-Allow-Origin'',
     ''Access-Control-Expose-Headers'', ''Access-Control-Max-Age'',
     ''Access-Control-Request-Headers'', ''Access-Control-Request-Method'', ''Age'', ''Allow'',
     ''Authorization'', ''Cache-Control'', ''Connection'', ''Content-Disposition'',
     ''Content-Encoding'', ''Content-Language'', ''Content-Length'', ''Content-Location'',
     ''Content-Range'', ''Content-Type'', ''Cookie'', ''Date'', ''ETag'', ''Expect'',
     ''Expires'', ''From'', ''Host'', ''If-Match'', ''If-Modified-Since'', ''If-None-Match'',
     ''If-Range'', ''If-Unmodified-Since'', ''Last-Modified'', ''Link'', ''Location'',
     ''Max-Forwards'', ''Origin'', ''Pragma'', ''Proxy-Authenticate'', ''Proxy-Authorization'',
     ''Range'', ''Referer'', ''Retry-After'', ''Server'', ''Set-Cookie'',
     ''Strict-Transport-Security'', ''Transfer-Encoding'', ''User-Agent'', ''Vary'', ''Via'',
     ''Warning'', ''WWW-Authenticate'', ''X-Frame-Options'', ''X-XSS-Protection'',
     ''X-Content-Type-Options'', ''X-Forwarded-For'', ''X-Forwarded-Host'',
     ''X-Forwarded-Proto'', ''X-Forwarded-Server'', ''X-Real-IP'', ''X-Requested-With'',
     ''X-UA-Compatible'', ''X-Forwarded'', ''X-Forwarded-Port'', ''X-Forwarded-Path'',
     ''X-CSRF-Token'', ''X-Content-Security-Policy'',
     ''X-Content-Security-Policy-Report-Only'', ''X-WebKit-CSP'', ''X-Content-Duration'',
     ''X-Powered-By'', ''X-Request-ID'', ''X-Correlation-ID'', ''X-Robots-Tag'']"

definition content_types :: "string list" where
  "content_types =
    [''application/json'', ''application/xml'', ''application/x-www-form-urlencoded'',
     ''application/octet-stream'', ''text/plain'', ''text/html'', ''text/xml'']"

definition content_encodings :: "string list" where
  "content_encodings =
    [''gzip'', ''deflate'', ''br'']"

definition tls_versions :: "string list" where
  "tls_versions = [''TLSv1.0'', ''TLSv1.1'', ''TLSv1.2'', ''TLSv1.3'']"

definition http_version_strings :: "string list" where
  "http_version_strings = [''HTTP/1.0'', ''HTTP/1.1'', ''HTTP/2.0'', ''HTTP/3.0'']"

subsection \<open>The lookup is the map of the table\<close>

lemma status_loop_map_of:
  "status_loop xs status = (case map_of xs status of None \<Rightarrow> header_unknown | Some m \<Rightarrow> m)"
  by (induction xs status rule: status_loop.induct) auto

lemma status_keys_distinct: "distinct (map fst status_map)"
  by code_simp

lemma status_messages_distinct: "distinct (map snd status_map)"
  by code_simp

lemma header_unknown_not_listed: "header_unknown \<notin> set (map snd status_map)"
  by code_simp

text \<open>
  Letters, digits and the hyphen, read off the bits of a character (a letter has the value
  1 to 26 in its five low bits), and names compared without case, which is bit 5.
\<close>

fun letter :: "char \<Rightarrow> bool" where
  "letter (Char b0 b1 b2 b3 b4 b5 b6 b7) \<longleftrightarrow>
     \<not> b7 \<and> b6 \<and> (b0 \<or> b1 \<or> b2 \<or> b3 \<or> b4) \<and> \<not> (b4 \<and> b3 \<and> (b2 \<or> b1 \<and> b0))"

fun digit :: "char \<Rightarrow> bool" where
  "digit (Char b0 b1 b2 b3 b4 b5 b6 b7) \<longleftrightarrow> \<not> b7 \<and> \<not> b6 \<and> b5 \<and> b4 \<and> \<not> (b3 \<and> (b2 \<or> b1))"

definition name_char :: "char \<Rightarrow> bool" where
  "name_char c \<longleftrightarrow> letter c \<or> digit c \<or> c = CHR ''-''"

fun set_bit5 :: "char \<Rightarrow> char" where
  "set_bit5 (Char b0 b1 b2 b3 b4 b5 b6 b7) = Char b0 b1 b2 b3 b4 True b6 b7"

definition lower_char :: "char \<Rightarrow> char" where
  "lower_char c = (if letter c then set_bit5 c else c)"

lemma lower_char_examples:
  "map lower_char ''AZaz09-@['' = ''azaz09-@[''" "list_all name_char ''AZaz09-''"
  "\<not> name_char CHR '':''" "\<not> name_char CHR '' ''" "\<not> name_char CHR ''@''" "\<not> name_char CHR ''[''"
  by code_simp+

subsection \<open>Properties\<close>

text \<open>
  The status text of a code is the one the table lists for it, and the unknown text
  exactly for the codes it does not list; a listed text belongs to one code only.
\<close>

lemma status_message_exact:
  "(get_status_message s = m \<longleftrightarrow>
      (s, m) \<in> set status_map \<or> s \<notin> fst ` set status_map \<and> m = header_unknown) \<and>
   ((s, m) \<in> set status_map \<and> (s', m) \<in> set status_map \<longrightarrow> s = s')"
proof (intro conjI impI)
  show "get_status_message s = m \<longleftrightarrow>
      (s, m) \<in> set status_map \<or> s \<notin> fst ` set status_map \<and> m = header_unknown"
  proof (cases "map_of status_map s")
    case None
    then have "s \<notin> fst ` set status_map" by (simp add: map_of_eq_None_iff)
    with None show ?thesis by (auto simp: get_status_message_def status_loop_map_of image_iff)
  next
    case (Some m')
    then have in_table: "(s, m') \<in> set status_map" by (rule map_of_SomeD)
    then have "s \<in> fst ` set status_map" by (rule image_eqI [rotated]) simp
    moreover have "(s, m) \<in> set status_map \<longleftrightarrow> m = m'"
      using in_table eq_key_imp_eq_value [OF status_keys_distinct] by metis
    ultimately show ?thesis using Some by (auto simp: get_status_message_def status_loop_map_of)
  qed
  assume "(s, m) \<in> set status_map \<and> (s', m) \<in> set status_map"
  then show "s = s'"
    using status_messages_distinct inj_onD [of snd "set status_map" "(s, m)" "(s', m)"]
    by (simp add: distinct_map)
qed

lemma status_message_exact_example:
  "get_status_message 404 = ''Not Found'' \<and> get_status_message 299 = ''Unknown Status''"
  using status_message_exact [of 404 "''Not Found''" 404] status_message_exact [of 299 "''Unknown Status''" 299]
  by (simp add: status_map_def header_unknown_def)

text \<open>
  The header names are usable as they are. Each of them is a non-empty sequence of letters, digits and hyphens, and no
  two name the same field when case is ignored.
\<close>

lemma header_names_valid:
  "list_all (\<lambda>n. n \<noteq> [] \<and> list_all name_char n) header_names \<and>
   distinct (map (map lower_char) header_names)"
  by code_simp

end
