(* ===== verification/Http_Headers.thy ===== *)
theory Http_Headers
  imports Prelude "HOL-Library.List_Lexorder" "HOL-Library.Char_ord"
begin

section \<open>The header multimap\<close>

text \<open>
  \<^verbatim>\<open>kkp-http/include/kkp/http/http_common.hpp\<close>: \<^verbatim>\<open>headers\<close>, a class over a
  \<^verbatim>\<open>std::multimap<std::string, header_value>\<close>. A multimap is the list of its elements in
  iteration order: sorted by key (\<^verbatim>\<open>std::less<std::string>\<close>, the lexicographic order of
  bytes), equal keys in insertion order, so that \<^verbatim>\<open>emplace\<close> inserts at the upper bound and
  \<^verbatim>\<open>equal_range\<close> is the pair of positions of the lower and the upper bound.
\<close>

subsection \<open>\<^verbatim>\<open>std::multimap\<close>\<close>

fun mm_emplace :: "'k::linorder \<Rightarrow> 'v \<Rightarrow> ('k \<times> 'v) list \<Rightarrow> ('k \<times> 'v) list" where
  "mm_emplace k v [] = [(k, v)]"
| "mm_emplace k v ((k', v') # m) =
     (if k < k' then (k, v) # (k', v') # m else (k', v') # mm_emplace k v m)"

definition lower_bound :: "'k::linorder \<Rightarrow> ('k \<times> 'v) list \<Rightarrow> nat" where
  "lower_bound k m = length (takeWhile (\<lambda>p. fst p < k) m)"

definition upper_bound :: "'k::linorder \<Rightarrow> ('k \<times> 'v) list \<Rightarrow> nat" where
  "upper_bound k m = length (takeWhile (\<lambda>p. fst p \<le> k) m)"

definition equal_range :: "'k::linorder \<Rightarrow> ('k \<times> 'v) list \<Rightarrow> nat \<times> nat" where
  "equal_range k m = (lower_bound k m, upper_bound k m)"

text \<open>The loop \<^verbatim>\<open>for (it = first; it != last; ++it) it->second = v\<close>.\<close>

function assign_range :: "nat \<Rightarrow> nat \<Rightarrow> 'v \<Rightarrow> ('k \<times> 'v) list \<Rightarrow> ('k \<times> 'v) list" where
  "assign_range it stop v m =
     (if it < stop then assign_range (Suc it) stop v (m[it := (fst (m ! it), v)]) else m)"
  by pat_completeness auto
termination
  by (relation "measure (\<lambda>(it, stop, v, m). stop - it)") auto

declare assign_range.simps [simp del]

definition mm_sorted :: "('k::linorder \<times> 'v) list \<Rightarrow> bool" where
  "mm_sorted m \<longleftrightarrow> sorted (map fst m)"

text \<open>The values under a key, in iteration order: the observation of the contract.\<close>

definition mm_vals :: "('k \<times> 'v) list \<Rightarrow> 'k \<Rightarrow> 'v list" where
  "mm_vals m k = map snd (filter (\<lambda>p. fst p = k) m)"

definition mm_overwrite :: "'k::linorder \<Rightarrow> 'v \<Rightarrow> ('k \<times> 'v) list \<Rightarrow> ('k \<times> 'v) list" where
  "mm_overwrite k v m = (let (lo, hi) = equal_range k m in assign_range lo hi v m)"

lemma set_mm_emplace: "set (mm_emplace k v m) = insert (k, v) (set m)"
  by (induction k v m rule: mm_emplace.induct) auto

lemma mm_sorted_emplace: "mm_sorted m \<Longrightarrow> mm_sorted (mm_emplace k v m)"
  unfolding mm_sorted_def
  by (induction k v m rule: mm_emplace.induct) (auto simp: set_mm_emplace)

lemma mm_vals_emplace:
  "mm_sorted m \<Longrightarrow>
   mm_vals (mm_emplace k v m) k' = (if k' = k then mm_vals m k @ [v] else mm_vals m k')"
  unfolding mm_sorted_def
proof (induction k v m rule: mm_emplace.induct)
  case (1 k v)
  then show ?case by (simp add: mm_vals_def)
next
  case (2 k v k2 v2 m)
  show ?case
  proof (cases "k < k2")
    case True
    with "2.prems" have "filter (\<lambda>p. fst p = k) ((k2, v2) # m) = []"
      by (auto simp: filter_empty_conv)
    with True show ?thesis by (auto simp: mm_vals_def)
  next
    case False
    with 2 show ?thesis by (auto simp: mm_vals_def)
  qed
qed

text \<open>In a sorted list the elements with a key are those between the two bounds.\<close>

lemma lower_bound_Cons:
  "lower_bound k (p # m) = (if fst p < k then Suc (lower_bound k m) else 0)"
  by (simp add: lower_bound_def)

lemma upper_bound_Cons:
  "upper_bound k (p # m) = (if fst p \<le> k then Suc (upper_bound k m) else 0)"
  by (simp add: upper_bound_def)

lemma lower_le_upper: "lower_bound k m \<le> upper_bound k m"
  by (induction m) (auto simp: lower_bound_Cons upper_bound_Cons, simp add: lower_bound_def)

lemma upper_le_length: "upper_bound k m \<le> length m"
  unfolding upper_bound_def by (rule length_takeWhile_le)

lemma equal_range_slice:
  "mm_sorted m \<Longrightarrow>
   filter (\<lambda>p. fst p = k) m =
     take (upper_bound k m - lower_bound k m) (drop (lower_bound k m) m)"
proof (induction m)
  case Nil
  then show ?case by simp
next
  case (Cons p m)
  then have IH: "filter (\<lambda>p. fst p = k) m =
      take (upper_bound k m - lower_bound k m) (drop (lower_bound k m) m)"
    by (simp add: mm_sorted_def)
  consider "fst p < k" | "fst p = k" | "k < fst p" by fastforce
  then show ?case
  proof cases
    case 1
    then show ?thesis by (simp add: IH lower_bound_Cons upper_bound_Cons)
  next
    case 2
    have "lower_bound k m = 0"
      using Cons.prems 2 by (cases m) (auto simp: lower_bound_def mm_sorted_def)
    with 2 show ?thesis by (simp add: IH lower_bound_Cons upper_bound_Cons)
  next
    case 3
    with Cons.prems have "filter (\<lambda>p. fst p = k) (p # m) = []"
      by (auto simp: filter_empty_conv mm_sorted_def)
    moreover have "upper_bound k (p # m) = 0" using 3 by (simp add: upper_bound_Cons)
    ultimately show ?thesis by (simp only: diff_0_eq_0 take_0)
  qed
qed

lemma range_empty_iff:
  assumes "mm_sorted m"
  shows "lower_bound k m = upper_bound k m \<longleftrightarrow> mm_vals m k = []"
  using equal_range_slice [OF assms, of k] lower_le_upper [of k m] upper_le_length [of k m]
  by (auto simp: mm_vals_def)

lemma assign_range_eq:
  "stop \<le> length m \<Longrightarrow> it \<le> stop \<Longrightarrow>
   assign_range it stop v m =
     take it m @ map (\<lambda>p. (fst p, v)) (take (stop - it) (drop it m)) @ drop stop m"
proof (induction it stop v m rule: assign_range.induct)
  case (1 it stop v m)
  show ?case
  proof (cases "it < stop")
    case True
    then have IH: "assign_range (Suc it) stop v (m[it := (fst (m ! it), v)]) =
        take (Suc it) (m[it := (fst (m ! it), v)]) @
        map (\<lambda>p. (fst p, v)) (take (stop - Suc it) (drop (Suc it) (m[it := (fst (m ! it), v)]))) @
        drop stop (m[it := (fst (m ! it), v)])"
      using 1 by simp
    have "take (Suc it) (m[it := (fst (m ! it), v)]) = take it m @ [(fst (m ! it), v)]"
      using True "1.prems" by (simp add: take_Suc_conv_app_nth)
    moreover have "take (stop - it) (drop it m) = m ! it # take (stop - Suc it) (drop (Suc it) m)"
      using True "1.prems" by (simp add: Cons_nth_drop_Suc [symmetric] Suc_diff_Suc [symmetric])
    ultimately show ?thesis
      using True by (subst assign_range.simps) (simp add: IH)
  next
    case False
    then show ?thesis using "1.prems" by (subst assign_range.simps) simp
  qed
qed


lemma keys_below_lower: "p \<in> set (take (lower_bound k m) m) \<Longrightarrow> fst p < k"
  by (auto simp: lower_bound_def takeWhile_eq_take [symmetric] dest: set_takeWhileD)

lemma keys_above_upper:
  "mm_sorted m \<Longrightarrow> p \<in> set (drop (upper_bound k m) m) \<Longrightarrow> k < fst p"
proof (induction m)
  case Nil
  then show ?case by simp
next
  case (Cons q m)
  then show ?case
    by (cases "fst q \<le> k") (fastforce simp: upper_bound_Cons mm_sorted_def)+
qed

lemma slice_keys:
  assumes "mm_sorted m"
    and "p \<in> set (take (upper_bound k m - lower_bound k m) (drop (lower_bound k m) m))"
  shows "fst p = k"
  using assms by (auto simp: equal_range_slice [symmetric])

lemma split_by_range:
  "m = take (lower_bound k m) m @
       take (upper_bound k m - lower_bound k m) (drop (lower_bound k m) m) @
       drop (upper_bound k m) m"
  using lower_le_upper [of k m]
  by (metis append_take_drop_id drop_drop le_add_diff_inverse2)

lemma mm_overwrite_eq:
  assumes m: "mm_sorted m"
  shows "mm_overwrite k v m = map (\<lambda>p. (fst p, if fst p = k then v else snd p)) m"
    (is "_ = map ?f m")
proof -
  let ?lo = "lower_bound k m" and ?hi = "upper_bound k m"
  have "map ?f (take ?lo m) = take ?lo m"
    by (rule map_idI) (auto dest: keys_below_lower)
  moreover have "map ?f (drop ?hi m) = drop ?hi m"
    by (rule map_idI) (auto dest: keys_above_upper [OF m])
  moreover have "map ?f (take (?hi - ?lo) (drop ?lo m)) =
      map (\<lambda>p. (fst p, v)) (take (?hi - ?lo) (drop ?lo m))"
    using slice_keys [OF m] by (auto simp: map_eq_conv)
  moreover have "map ?f m = map ?f (take ?lo m) @
      map ?f (take (?hi - ?lo) (drop ?lo m)) @ map ?f (drop ?hi m)"
    by (subst split_by_range [of m k]) simp
  ultimately show ?thesis
    by (simp add: mm_overwrite_def equal_range_def
        assign_range_eq [OF upper_le_length lower_le_upper])
qed

lemma mm_sorted_overwrite: "mm_sorted m \<Longrightarrow> mm_sorted (mm_overwrite k v m)"
  by (simp add: mm_overwrite_eq mm_sorted_def comp_def)

lemma mm_vals_overwrite:
  "mm_sorted m \<Longrightarrow>
   mm_vals (mm_overwrite k v m) k' =
     (if k' = k then replicate (length (mm_vals m k)) v else mm_vals m k')"
  unfolding mm_overwrite_eq mm_vals_def
  by (induction m) (auto simp: mm_sorted_def)

subsection \<open>The interface the class relies on\<close>

text \<open>
  What \<^verbatim>\<open>headers\<close> needs of its container: \<open>vals\<close> observes the elements of
  \<^verbatim>\<open>equal_range\<close> in order, \<open>ins\<close> is \<^verbatim>\<open>emplace\<close>, \<open>over\<close> writes one value over the range.
\<close>

locale multimap =
  fixes wf :: "'m \<Rightarrow> bool"
    and vals :: "'m \<Rightarrow> 'k \<Rightarrow> 'v list"
    and ins :: "'k \<Rightarrow> 'v \<Rightarrow> 'm \<Rightarrow> 'm"
    and over :: "'k \<Rightarrow> 'v \<Rightarrow> 'm \<Rightarrow> 'm"
  assumes wf_ins: "wf m \<Longrightarrow> wf (ins k v m)"
    and wf_over: "wf m \<Longrightarrow> wf (over k v m)"
    and vals_ins: "wf m \<Longrightarrow> vals (ins k v m) = (vals m)(k := vals m k @ [v])"
    and vals_over: "wf m \<Longrightarrow>
      vals (over k v m) = (vals m)(k := replicate (length (vals m k)) v)"
begin

text \<open>Insert when the range is empty, else overwrite it: what \<^verbatim>\<open>headers::set\<close> does.\<close>

lemma wf_set: "wf m \<Longrightarrow> wf (if vals m k = [] then ins k v m else over k v m)"
  by (simp add: wf_ins wf_over)

lemma vals_set:
  "wf m \<Longrightarrow> vals (if vals m k = [] then ins k v m else over k v m) =
     (vals m)(k := replicate (max 1 (length (vals m k))) v)"
  by (cases "vals m k") (simp_all add: vals_ins vals_over max_def)

end

interpretation mm: multimap mm_sorted mm_vals mm_emplace mm_overwrite
  by unfold_locales
    (auto simp: mm_sorted_emplace mm_sorted_overwrite mm_vals_emplace mm_vals_overwrite)

subsection \<open>The class \<^verbatim>\<open>headers\<close>\<close>

record header_value =
  hvalue :: string
  sensitive :: bool

type_synonym header_map = "(string \<times> header_value) list"

text \<open>The parts of a URI; no code of the repository uses them.\<close>

record uri_ref =
  scheme :: string
  host :: string
  path :: string
  raw_path :: string
  raw_query :: string
  fragment :: string

record headers =
  hmap :: header_map

definition headers_new :: headers where
  "headers_new = \<lparr>hmap = []\<rparr>"

definition headers_of :: "header_map \<Rightarrow> headers" where
  "headers_of m = \<lparr>hmap = m\<rparr>"

definition headers_copy :: "headers \<Rightarrow> headers" where
  "headers_copy h = headers_of (hmap h)"

definition headers_add :: "headers \<Rightarrow> string \<Rightarrow> string \<Rightarrow> bool \<Rightarrow> headers" where
  "headers_add h name val sens =
     h\<lparr>hmap := mm_emplace name \<lparr>hvalue = val, sensitive = sens\<rparr> (hmap h)\<rparr>"

definition headers_set :: "headers \<Rightarrow> string \<Rightarrow> string \<Rightarrow> bool \<Rightarrow> headers" where
  "headers_set h name val sens =
     (let (first, second) = equal_range name (hmap h) in
      if first = second
      then h\<lparr>hmap := mm_emplace name \<lparr>hvalue = val, sensitive = sens\<rparr> (hmap h)\<rparr>
      else h\<lparr>hmap := assign_range first second \<lparr>hvalue = val, sensitive = sens\<rparr> (hmap h)\<rparr>)"

text \<open>\<^verbatim>\<open>return {}\<close> is the empty view.\<close>

definition headers_get :: "headers \<Rightarrow> string \<Rightarrow> string" where
  "headers_get h name =
     (let (first, second) = equal_range name (hmap h) in
      if first = second then [] else hvalue (snd (hmap h ! first)))"

text \<open>The mutating calls a user of the class can make, and their runs.\<close>

datatype header_op = Add_header string string bool | Set_header string string bool

fun header_step :: "headers \<Rightarrow> header_op \<Rightarrow> headers" where
  "header_step h (Add_header n v s) = headers_add h n v s"
| "header_step h (Set_header n v s) = headers_set h n v s"

definition header_run :: "header_op list \<Rightarrow> headers \<Rightarrow> headers" where
  "header_run ops h = foldl header_step h ops"

text \<open>The specification: a list of values for each name.\<close>

fun spec_step ::
  "(string \<Rightarrow> header_value list) \<Rightarrow> header_op \<Rightarrow> string \<Rightarrow> header_value list" where
  "spec_step f (Add_header n v s) = f(n := f n @ [\<lparr>hvalue = v, sensitive = s\<rparr>])"
| "spec_step f (Set_header n v s) =
     f(n := replicate (max 1 (length (f n))) \<lparr>hvalue = v, sensitive = s\<rparr>)"

definition spec_run :: "header_op list \<Rightarrow> string \<Rightarrow> header_value list" where
  "spec_run ops = foldl spec_step (\<lambda>_. []) ops"

lemma headers_set_eq:
  assumes "mm_sorted (hmap h)"
  shows "hmap (headers_set h n v s) =
    (if mm_vals (hmap h) n = [] then mm_emplace n \<lparr>hvalue = v, sensitive = s\<rparr> (hmap h)
     else mm_overwrite n \<lparr>hvalue = v, sensitive = s\<rparr> (hmap h))"
  using range_empty_iff [OF assms, of n]
  by (simp add: headers_set_def equal_range_def mm_overwrite_def)

lemma header_step_sorted:
  "mm_sorted (hmap h) \<Longrightarrow> mm_sorted (hmap (header_step h x))"
  by (cases x) (simp_all only: header_step.simps headers_set_eq mm.wf_set,
      simp add: headers_add_def mm.wf_ins)

lemma header_step_refines:
  "mm_sorted (hmap h) \<Longrightarrow>
   mm_vals (hmap (header_step h x)) = spec_step (mm_vals (hmap h)) x"
  by (cases x) (simp_all only: header_step.simps headers_set_eq mm.vals_set spec_step.simps,
      simp add: headers_add_def mm.vals_ins)

lemma header_run_invariant:
  "mm_sorted (hmap (header_run ops headers_new)) \<and>
   mm_vals (hmap (header_run ops headers_new)) = spec_run ops"
proof (induction ops rule: rev_induct)
  case Nil
  then show ?case
    by (simp add: header_run_def spec_run_def headers_new_def mm_sorted_def mm_vals_def fun_eq_iff)
next
  case (snoc x ops)
  then show ?case
    using header_step_sorted [of "header_run ops headers_new" x]
      header_step_refines [of "header_run ops headers_new" x]
    by (simp add: header_run_def spec_run_def)
qed

lemma headers_get_vals:
  assumes m: "mm_sorted (hmap h)"
  shows "headers_get h k = (case mm_vals (hmap h) k of [] \<Rightarrow> [] | v # _ \<Rightarrow> hvalue v)"
proof (cases "mm_vals (hmap h) k")
  case Nil
  with range_empty_iff [OF m, of k] show ?thesis
    by (simp add: headers_get_def equal_range_def)
next
  case (Cons v vs)
  let ?m = "hmap h" and ?lo = "lower_bound k (hmap h)"
  have ne: "?lo \<noteq> upper_bound k ?m" using range_empty_iff [OF m, of k] Cons by simp
  then have lt: "?lo < length ?m"
    using lower_le_upper [of k ?m] upper_le_length [of k ?m] by linarith
  have "mm_vals ?m k = map snd (take (upper_bound k ?m - ?lo) (drop ?lo ?m))"
    by (simp add: mm_vals_def equal_range_slice [OF m])
  also have "\<dots> = snd (?m ! ?lo) # map snd (take (upper_bound k ?m - Suc ?lo) (drop (Suc ?lo) ?m))"
    using lt ne lower_le_upper [of k ?m]
    by (simp add: Cons_nth_drop_Suc [symmetric] take_Cons' )
  finally show ?thesis using Cons ne by (simp add: headers_get_def equal_range_def)
qed

subsection \<open>Properties\<close>

text \<open>
  C26: the header map implements its specification, a list of values for each name: \<^verbatim>\<open>add\<close>
  appends a value, \<^verbatim>\<open>set\<close> overwrites every value of the name or adds the first, other names
  are untouched, and \<^verbatim>\<open>get\<close> returns the oldest value, or the empty text.
\<close>

theorem headers_refine_spec:
  "mm_vals (hmap (header_run ops headers_new)) = spec_run ops \<and>
   headers_get (header_run ops headers_new) n =
     (case spec_run ops n of [] \<Rightarrow> [] | v # _ \<Rightarrow> hvalue v)"
  using header_run_invariant [of ops] by (simp add: headers_get_vals)

text \<open>
  Whatever was done before, after \<^verbatim>\<open>set\<close> the name has the value that was set and every
  other name the value it had.
\<close>

lemma headers_get_set:
  "headers_get (headers_set (header_run ops headers_new) n v s) n' =
     (if n' = n then v else headers_get (header_run ops headers_new) n')"
proof -
  let ?h = "header_run ops headers_new"
  have sorted: "mm_sorted (hmap ?h)" using header_run_invariant by blast
  have sorted': "mm_sorted (hmap (headers_set ?h n v s))"
    using header_step_sorted [OF sorted, of "Set_header n v s"] by simp
  have vals: "mm_vals (hmap (headers_set ?h n v s)) = spec_step (mm_vals (hmap ?h)) (Set_header n v s)"
    using header_step_refines [OF sorted, of "Set_header n v s"] by simp
  show ?thesis
    by (simp add: headers_get_vals [OF sorted'] headers_get_vals [OF sorted] vals max_def
        split: list.split)
      (metis hd_replicate length_replicate list.sel(1) list.size(3) not_less_eq_eq replicate_empty
        zero_le header_value.select_convs(1) list.distinct(1))
qed

end
