(* ===== verification/Http_Session.thy ===== *)
theory Http_Session
  imports Stream Http_Headers
begin

section \<open>Sessions and frames\<close>

text \<open>
  \<^verbatim>\<open>kkp-http/include/kkp/http/base_session.hpp\<close> and \<^verbatim>\<open>v2/frames/ping_frame.hpp\<close>.
\<close>

subsection \<open>\<^verbatim>\<open>http_version\<close>\<close>

datatype http_version = Http_1_0 | Http_1_1 | Http_2_0 | Quic

text \<open>The enumerators compare in the order they are declared.\<close>

primrec version_index :: "http_version \<Rightarrow> nat" where
  "version_index Http_1_0 = 0"
| "version_index Http_1_1 = 1"
| "version_index Http_2_0 = 2"
| "version_index Quic = 3"

lemma version_index_inject: "version_index a = version_index b \<Longrightarrow> a = b"
  by (cases a; cases b) simp_all

instantiation http_version :: linorder
begin

definition less_eq_http_version :: "http_version \<Rightarrow> http_version \<Rightarrow> bool" where
  "less_eq_http_version a b \<longleftrightarrow> version_index a \<le> version_index b"

definition less_http_version :: "http_version \<Rightarrow> http_version \<Rightarrow> bool" where
  "less_http_version a b \<longleftrightarrow> version_index a < version_index b"

instance
  by standard (auto simp: less_eq_http_version_def less_http_version_def version_index_inject)

end

subsection \<open>\<^verbatim>\<open>base_session\<close>\<close>

record 'l base_session =
  bs_stream :: "'l stream"
  bs_keep_alive :: bool

definition base_session_new :: "'l stream \<Rightarrow> 'l base_session" where
  "base_session_new s = \<lparr>bs_stream = s, bs_keep_alive = True\<rparr>"

definition underlying_stream :: "'l base_session \<Rightarrow> 'l stream" where
  "underlying_stream b = bs_stream b"

definition session_is_alive :: "'o os \<Rightarrow> 'o net_calls \<Rightarrow> 'l base_session \<Rightarrow> 'o \<Rightarrow> bool" where
  "session_is_alive sys net b st = stream_is_alive sys net (bs_stream b) st"

definition session_close :: "'l base_session \<Rightarrow> 'o \<Rightarrow> 'l base_session \<times> 'o" where
  "session_close b st = (b, st)"

subsection \<open>\<^verbatim>\<open>ping_frame\<close>\<close>

record ping_frame =
  pf_ack :: bool
  pf_payload :: "byte list"

definition ping_frame_default :: ping_frame where
  "ping_frame_default = \<lparr>pf_ack = False, pf_payload = replicate 8 0\<rparr>"

text \<open>The constructor copies eight bytes over the payload.\<close>

definition ping_frame_new :: "bool \<Rightarrow> byte list \<Rightarrow> ping_frame outcome" where
  "ping_frame_new ack payload =
     obind (mem_read 0 8 payload) (\<lambda>bs.
     obind (mem_write 0 bs (replicate 8 0)) (\<lambda>m. Ret \<lparr>pf_ack = ack, pf_payload = m\<rparr>))"

definition ping_frame_payload :: "ping_frame \<Rightarrow> byte list" where
  "ping_frame_payload f = pf_payload f"

definition is_ack :: "ping_frame \<Rightarrow> bool" where
  "is_ack f = pf_ack f"

definition ping_frame_type :: byte where "ping_frame_type = 6"
definition ping_frame_length :: int where "ping_frame_length = 8"

subsection \<open>Properties\<close>

text \<open>
  Closing a session closes nothing. A session is alive exactly when its stream is, and
  \<^verbatim>\<open>close\<close> of the base class leaves both as they were; closing the stream under it is what
  ends the session.
\<close>

lemma session_close_keeps_stream:
  "session_close b st = (b', st') \<Longrightarrow> stream_close sys net (bs_stream b) st = (True, s, st2) \<Longrightarrow>
   session_is_alive sys net b' st' = session_is_alive sys net b st \<and>
   \<not> session_is_alive sys net (b\<lparr>bs_stream := s\<rparr>) st2"
  by (auto simp: session_close_def session_is_alive_def dest: base_stream.close_dead)

text \<open>A ping frame carries exactly the eight bytes and the flag it was built from.\<close>

lemma ping_frame_payload:
  "ping_frame_new ack payload = (if 8 \<le> length payload
     then Ret \<lparr>pf_ack = ack, pf_payload = take 8 payload\<rparr> else Fault Out_of_bounds)"
  by (simp add: ping_frame_new_def mem_read_def mem_write_def)

end
