(* ===== verification/Coro_Flow.thy ===== *)
theory Coro_Flow
  imports Coro_Program
begin

section \<open>Coroutine bodies as flow charts\<close>

text \<open>
  The body of a coroutine with loops is given as a flow chart: a type of program points with
  the local variables that are live there, and what the body does next at each of them.
  \<open>flow_body\<close> is the body, \<open>flow\<close> its direct executions, one step at a time.
\<close>

datatype ('p, 'v) act =
    is_return: Act_return (the_value: 'v)
  | is_throw: Act_throw (the_exn: exn)
  | is_io: Act_io (the_op: uring_op) (after_io: "int \<Rightarrow> 'p")
  | is_sync: Act_sync (the_sync: sync_call) (after_sync: "int \<Rightarrow> 'p")
  | is_call: Act_call (the_callee: "'v body") (after_call: "exn + 'v \<Rightarrow> 'p")
  | is_launch: Act_launch (the_task: "'v body") (after_launch: "exn + coro \<Rightarrow> 'p")

primcorec flow_body :: "('p \<Rightarrow> ('p, 'v) act) \<Rightarrow> 'p \<Rightarrow> 'v body" where
  "is_return (f p) \<Longrightarrow> flow_body f p = Co_return (the_value (f p))"
| "is_throw (f p) \<Longrightarrow> flow_body f p = Co_throw (the_exn (f p))"
| "is_io (f p) \<Longrightarrow> flow_body f p = Co_io (the_op (f p)) (\<lambda>i. flow_body f (after_io (f p) i))"
| "is_sync (f p) \<Longrightarrow> flow_body f p = Co_sync (the_sync (f p)) (\<lambda>i. flow_body f (after_sync (f p) i))"
| "is_call (f p) \<Longrightarrow> flow_body f p = Co_call (the_callee (f p)) (\<lambda>r. flow_body f (after_call (f p) r))"
| "is_launch (f p) \<Longrightarrow> flow_body f p = Co_launch (the_task (f p)) (\<lambda>r. flow_body f (after_launch (f p) r))"

lemma flow_body_simps:
  "f p = Act_return v \<Longrightarrow> flow_body f p = Co_return v"
  "f p = Act_throw e \<Longrightarrow> flow_body f p = Co_throw e"
  "f p = Act_io op k \<Longrightarrow> flow_body f p = Co_io op (\<lambda>i. flow_body f (k i))"
  "f p = Act_sync c k \<Longrightarrow> flow_body f p = Co_sync c (\<lambda>i. flow_body f (k i))"
  "f p = Act_call b kr \<Longrightarrow> flow_body f p = Co_call b (\<lambda>r. flow_body f (kr r))"
  "f p = Act_launch b kl \<Longrightarrow> flow_body f p = Co_launch b (\<lambda>r. flow_body f (kl r))"
  by (simp_all add: flow_body.ctr)

inductive_cases direct_returnE: "direct ctx (Co_return v) es r"
inductive_cases direct_throwE: "direct ctx (Co_throw e) es r"
inductive_cases direct_ioE: "direct ctx (Co_io op k) es r"
inductive_cases direct_syncE: "direct ctx (Co_sync c k) es r"
inductive_cases direct_callE: "direct ctx (Co_call b k) es r"
inductive_cases direct_contextE: "direct ctx (Co_context k) es r"
inductive_cases direct_launchE: "direct ctx (Co_launch b k) es r"
inductive_cases direct_joinE: "direct ctx (Co_join t k) es r"

lemma direct_return [simp]: "direct ctx (Co_return v) es r \<longleftrightarrow> es = [] \<and> r = Inr v"
  using d_end [of ctx "Inr v"] by (auto elim: direct_returnE)

lemma direct_throw [simp]: "direct ctx (Co_throw e) es r \<longleftrightarrow> es = [] \<and> r = Inl e"
  using d_end [of ctx "Inl e"] by (auto elim: direct_throwE)

lemma direct_io: "direct ctx (Co_io op k) es r \<longleftrightarrow> (\<exists>i es'. es = Io op i # es' \<and> direct ctx (k i) es' r)"
  by (auto elim: direct_ioE intro: d_io)

lemma direct_sync: "direct ctx (Co_sync c k) es r \<longleftrightarrow> (\<exists>i es'. es = Sync c i # es' \<and> direct ctx (k i) es' r)"
  by (auto elim: direct_syncE intro: d_sync)

lemma direct_context [simp]: "direct ctx (Co_context k) es r \<longleftrightarrow> direct ctx (k (Some ctx)) es r"
  by (auto elim: direct_contextE intro: d_context)

lemma direct_call:
  "direct ctx (Co_call b k) es r \<longleftrightarrow>
     direct ctx (k (Inl Bad_alloc)) es r \<or>
     (\<exists>es1 r1 es2. es = es1 @ es2 \<and> direct ctx b es1 r1 \<and> direct ctx (k r1) es2 r)"
  by (auto elim: direct_callE intro: d_call d_call_fails)

lemma direct_launch:
  "direct ctx (Co_launch b k) es r \<longleftrightarrow>
     direct ctx (k (Inl Bad_alloc)) es r \<or>
     (\<exists>t es'. es = Launch t b # es' \<and> direct ctx (k (Inr t)) es' r)"
  by (auto elim: direct_launchE intro: d_launch d_launch_fails)

lemma direct_join:
  "direct ctx (Co_join t k) es r \<longleftrightarrow> (\<exists>r1 es'. es = Join t r1 # es' \<and> direct ctx (k r1) es' r)"
  by (auto elim: direct_joinE intro: d_join)

subsection \<open>Flow charts in an environment\<close>

text \<open>
  An environment answers the calls and the I/O of a coroutine: \<open>do_sync\<close> and \<open>do_io\<close> give
  the answer and the environment afterwards. \<open>answers\<close> are the runs of events in which
  every answer is the one the environment gives.
\<close>

record 'e env_ops =
  do_sync :: "sync_call \<Rightarrow> 'e \<Rightarrow> (int \<times> 'e) option"
  do_io :: "uring_op \<Rightarrow> 'e \<Rightarrow> (int \<times> 'e) option"

fun answer :: "'e env_ops \<Rightarrow> 'v event \<Rightarrow> 'e \<Rightarrow> 'e option" where
  "answer env (Sync c i) E =
     (case do_sync env c E of Some (j, E') \<Rightarrow> if j = i then Some E' else None | None \<Rightarrow> None)"
| "answer env (Io op i) E =
     (case do_io env op E of Some (j, E') \<Rightarrow> if j = i then Some E' else None | None \<Rightarrow> None)"
| "answer env (Launch t b) E = None"
| "answer env (Join t r) E = None"
| "answer env (Done r) E = Some E"

fun answers :: "'e env_ops \<Rightarrow> 'v event list \<Rightarrow> 'e \<Rightarrow> 'e option" where
  "answers env [] E = Some E"
| "answers env (ev # es) E = Option.bind (answer env ev E) (answers env es)"

lemma answers_append: "answers env (es @ es') E = Option.bind (answers env es E) (answers env es')"
  by (induction es arbitrary: E) (auto split: Option.bind_splits)

text \<open>The flow chart run in the environment, as a function: \<open>None\<close> is a run that never ends.\<close>

partial_function (option) drive ::
  "'e env_ops \<Rightarrow> ('p \<Rightarrow> ('p, 'v) act) \<Rightarrow> 'p \<Rightarrow> 'e \<Rightarrow> ((exn + 'v) \<times> 'e) option" where
  "drive env f p E =
     (case f p of
        Act_return v \<Rightarrow> Some (Inr v, E)
      | Act_throw e \<Rightarrow> Some (Inl e, E)
      | Act_io op k \<Rightarrow> Option.bind (do_io env op E) (\<lambda>(i, E'). drive env f (k i) E')
      | Act_sync c k \<Rightarrow> Option.bind (do_sync env c E) (\<lambda>(i, E'). drive env f (k i) E')
      | Act_call b k \<Rightarrow> None
      | Act_launch b k \<Rightarrow> None)"

definition plain :: "('p \<Rightarrow> ('p, 'v) act) \<Rightarrow> bool" where
  "plain f \<longleftrightarrow> (\<forall>p. \<not> is_call (f p) \<and> \<not> is_launch (f p))"

lemma drive_sync:
  "f p = Act_sync c k \<Longrightarrow> do_sync env c E = Some (i, E') \<Longrightarrow> drive env f p E = drive env f (k i) E'"
  by (subst drive.simps) simp

lemma drive_io:
  "f p = Act_io op k \<Longrightarrow> do_io env op E = Some (i, E') \<Longrightarrow> drive env f p E = drive env f (k i) E'"
  by (subst drive.simps) simp

lemma drive_return: "f p = Act_return v \<Longrightarrow> drive env f p E = Some (Inr v, E)"
  by (subst drive.simps) simp

lemma drive_throw: "f p = Act_throw e \<Longrightarrow> drive env f p E = Some (Inl e, E)"
  by (subst drive.simps) simp

text \<open>The direct executions that the environment answers are the run of the function.\<close>

lemma drive_direct:
  assumes "drive env f p E = Some (r, E')"
  shows "\<exists>es. direct ctx (flow_body f p) es r \<and> answers env es E = Some E'"
proof -
  have "\<exists>es. direct ctx (flow_body f p) es (fst y) \<and> answers env es E = Some (snd y)"
    if "drive env f p E = Some y" for y
  proof (rule drive.raw_induct [where P = "\<lambda>env f p E y. \<exists>es. direct ctx (flow_body f p) es (fst y) \<and>
      answers env es E = Some (snd y)", OF _ that], goal_cases)
    case (1 dr env f p E y)
    show ?case
    proof (cases "f p")
      case (Act_io op k)
      with 1(2) obtain i E1 where e: "do_io env op E = Some (i, E1)" "dr env f (k i) E1 = Some y"
        by (auto split: Option.bind_splits)
      from 1(1) [OF e(2)] obtain es where "direct ctx (flow_body f (k i)) es (fst y)"
        "answers env es E1 = Some (snd y)" by blast
      with Act_io e show ?thesis
        by (intro exI [of _ "Io op i # es"]) (auto simp: flow_body_simps direct_io)
    next
      case (Act_sync c k)
      with 1(2) obtain i E1 where e: "do_sync env c E = Some (i, E1)" "dr env f (k i) E1 = Some y"
        by (auto split: Option.bind_splits)
      from 1(1) [OF e(2)] obtain es where "direct ctx (flow_body f (k i)) es (fst y)"
        "answers env es E1 = Some (snd y)" by blast
      with Act_sync e show ?thesis
        by (intro exI [of _ "Sync c i # es"]) (auto simp: flow_body_simps direct_sync)
    qed (use 1(2) in \<open>auto simp: flow_body_simps\<close>)
  qed
  with assms show ?thesis by fastforce
qed

lemma plain_cases:
  assumes "plain f"
  obtains (return) v where "f p = Act_return v" | (throw) e where "f p = Act_throw e"
    | (io) op k where "f p = Act_io op k" | (sync) c k where "f p = Act_sync c k"
  using assms unfolding plain_def by (cases "f p") (metis act.disc)+

lemma direct_drive:
  assumes "plain f"
  shows "direct ctx (flow_body f p) es r \<Longrightarrow> answers env es E = Some E' \<Longrightarrow> drive env f p E = Some (r, E')"
proof (induction es arbitrary: p E)
  case Nil
  from assms show ?case
  proof (cases rule: plain_cases [of f p])
  qed (use Nil in \<open>(subst drive.simps, auto simp: flow_body_simps direct_io direct_sync)+\<close>)
next
  case (Cons ev es)
  from assms show ?case
  proof (cases rule: plain_cases [of f p])
  qed (use Cons in \<open>(subst drive.simps, auto simp: flow_body_simps direct_io direct_sync
      split: option.splits if_splits Option.bind_splits)+\<close>)
qed

text \<open>So the two descriptions of a flow chart agree.\<close>

lemma flow_exact:
  assumes "plain f"
  shows "(\<exists>es. direct ctx (flow_body f p) es r \<and> answers env es E = Some E') \<longleftrightarrow>
    drive env f p E = Some (r, E')"
  using direct_drive [OF assms] drive_direct [of env f p E r E' ctx] by metis

subsection \<open>Bodies in an environment\<close>

text \<open>The body has a direct execution that the environment answers, with this outcome.\<close>

definition runs_to ::
  "addr \<Rightarrow> 'e env_ops \<Rightarrow> 'v body \<Rightarrow> 'e \<Rightarrow> exn + 'v \<Rightarrow> 'e \<Rightarrow> bool" where
  "runs_to ctx env b E r F \<longleftrightarrow> (\<exists>es. direct ctx b es r \<and> answers env es E = Some F)"

lemma runs_to_flow: "plain f \<Longrightarrow> runs_to ctx env (flow_body f p) E r F \<longleftrightarrow> drive env f p E = Some (r, F)"
  unfolding runs_to_def by (rule flow_exact)

lemma runs_to_return [simp]: "runs_to ctx env (Co_return v) E r F \<longleftrightarrow> r = Inr v \<and> F = E"
  by (auto simp: runs_to_def)

lemma runs_to_throw [simp]: "runs_to ctx env (Co_throw e) E r F \<longleftrightarrow> r = Inl e \<and> F = E"
  by (auto simp: runs_to_def)

lemma runs_to_sync:
  "runs_to ctx env (Co_sync c k) E r F \<longleftrightarrow> (\<exists>i E1. do_sync env c E = Some (i, E1) \<and> runs_to ctx env (k i) E1 r F)"
proof
  assume "runs_to ctx env (Co_sync c k) E r F"
  then show "\<exists>i E1. do_sync env c E = Some (i, E1) \<and> runs_to ctx env (k i) E1 r F"
    by (fastforce simp: runs_to_def direct_sync split: option.splits if_splits Option.bind_splits)
next
  assume "\<exists>i E1. do_sync env c E = Some (i, E1) \<and> runs_to ctx env (k i) E1 r F"
  then obtain i E1 es where "do_sync env c E = Some (i, E1)" "direct ctx (k i) es r" "answers env es E1 = Some F"
    by (auto simp: runs_to_def)
  then have "direct ctx (Co_sync c k) (Sync c i # es) r \<and> answers env (Sync c i # es) E = Some F"
    by (auto simp: direct_sync)
  then show "runs_to ctx env (Co_sync c k) E r F" unfolding runs_to_def by blast
qed

lemma runs_to_call:
  "runs_to ctx env (Co_call b k) E r F \<longleftrightarrow>
     runs_to ctx env (k (Inl Bad_alloc)) E r F \<or>
     (\<exists>r1 E1. runs_to ctx env b E r1 E1 \<and> runs_to ctx env (k r1) E1 r F)"
  by (fastforce simp: runs_to_def direct_call answers_append split: Option.bind_splits)

end
