(* ===== verification/Coro_Begins.thy ===== *)
theory Coro_Begins
  imports Runtime_Results Coro_Flow
begin

section \<open>Programs that do not end\<close>

text \<open>
  \<open>begins ctx b es\<close>: a direct execution of the body may begin with \<open>es\<close>. Whatever a fiber
  has done at any moment of a run is the beginning of a direct execution of its body, so
  what holds of all beginnings holds of a server that never returns.
\<close>

inductive begins :: "addr \<Rightarrow> 'v body \<Rightarrow> 'v event list \<Rightarrow> bool" for ctx where
  b_empty: "begins ctx b []"
| b_io: "begins ctx (k i) es \<Longrightarrow> begins ctx (Co_io op k) (Io op i # es)"
| b_in_call: "begins ctx b es \<Longrightarrow> begins ctx (Co_call b k) es"
| b_call: "direct ctx b es1 r1 \<Longrightarrow> begins ctx (k r1) es2 \<Longrightarrow> begins ctx (Co_call b k) (es1 @ es2)"
| b_call_fails: "begins ctx (k (Inl Bad_alloc)) es \<Longrightarrow> begins ctx (Co_call b k) es"
| b_context: "begins ctx (kc (Some ctx)) es \<Longrightarrow> begins ctx (Co_context kc) es"
| b_launch: "begins ctx (kl (Inr t)) es \<Longrightarrow> begins ctx (Co_launch b kl) (Launch t b # es)"
| b_launch_fails: "begins ctx (kl (Inl Bad_alloc)) es \<Longrightarrow> begins ctx (Co_launch b kl) es"
| b_join: "begins ctx (k r1) es \<Longrightarrow> begins ctx (Co_join t k) (Join t r1 # es)"
| b_sync: "begins ctx (ks i) es \<Longrightarrow> begins ctx (Co_sync c ks) (Sync c i # es)"

lemma direct_begins: "direct ctx b es r \<Longrightarrow> begins ctx b es"
  by (induction rule: direct.induct) (auto intro: begins.intros)

lemma direct_no_done: "direct ctx b es r \<Longrightarrow> Done r' \<notin> set es"
  by (induction rule: direct.induct) auto

lemma begins_no_done: "begins ctx b es \<Longrightarrow> Done r \<notin> set es"
  by (induction rule: begins.induct) (auto dest: direct_no_done)

fun unwound ::
  "addr \<Rightarrow> 'v body \<Rightarrow> (exn + 'v \<Rightarrow> 'v body) list \<Rightarrow> 'v event list \<Rightarrow> bool"
where
  "unwound ctx b [] es \<longleftrightarrow> begins ctx b es"
| "unwound ctx b (k # ks) es \<longleftrightarrow> begins ctx b es \<or>
     (\<exists>es1 r1 es2. es = es1 @ es2 \<and> direct ctx b es1 r1 \<and> unwound ctx (k r1) ks es2)"

definition run_starts ::
  "addr \<Rightarrow> 'v body \<Rightarrow> (exn + 'v \<Rightarrow> 'v body) list \<Rightarrow> 'v event list \<Rightarrow> bool" where
  "run_starts ctx b ks ls \<longleftrightarrow> unwound ctx b ks ls \<or> future ctx (A_run b ks) ls"

fun starts :: "addr \<Rightarrow> 'v astate \<Rightarrow> 'v event list \<Rightarrow> bool" where
  "starts ctx (A_run b ks) ls \<longleftrightarrow> run_starts ctx b ks ls"
| "starts ctx (A_wait op k ks) ls \<longleftrightarrow> ls = [] \<or> (\<exists>i ls'. ls = Io op i # ls' \<and> run_starts ctx (k i) ks ls')"
| "starts ctx (A_join t k ks) ls \<longleftrightarrow> ls = [] \<or> (\<exists>r ls'. ls = Join t r # ls' \<and> run_starts ctx (k r) ks ls')"
| "starts ctx (A_finished r) ls \<longleftrightarrow> ls = []"

lemma unwound_begins: "begins ctx b es \<Longrightarrow> unwound ctx b ks es"
  by (cases ks) auto

lemma run_starts_Nil [simp]: "run_starts ctx b ks []"
  by (simp add: run_starts_def unwound_begins b_empty)

lemma unwound_step:
  assumes "\<And>es. begins ctx b' es \<Longrightarrow> begins ctx b (es0 @ es)"
    and "\<And>es r. direct ctx b' es r \<Longrightarrow> direct ctx b (es0 @ es) r"
    and "unwound ctx b' ks es"
  shows "unwound ctx b ks (es0 @ es)"
proof (cases ks)
  case Nil
  with assms show ?thesis by simp
next
  case (Cons k ks')
  with assms(3) consider "begins ctx b' es"
    | es1 r1 es2 where "es = es1 @ es2" "direct ctx b' es1 r1" "unwound ctx (k r1) ks' es2" by auto
  then show ?thesis
  proof cases
    case 1
    with assms(1) show ?thesis by (auto intro: unwound_begins)
  next
    case 2
    with assms(2) have "direct ctx b (es0 @ es1) r1" by blast
    with 2 Cons show ?thesis by (metis append.assoc unwound.simps(2))
  qed
qed

lemma starts_step:
  assumes "run_starts ctx b' ks ls"
    and "\<And>es. begins ctx b' es \<Longrightarrow> begins ctx b (es0 @ es)"
    and "\<And>es r. direct ctx b' es r \<Longrightarrow> direct ctx b (es0 @ es) r"
  shows "run_starts ctx b ks (es0 @ ls)"
  using assms(1) unwound_step [of ctx b' b es0, OF assms(2,3)] future_run [of ctx b' ks ls b es0, OF _ assms(3)]
  unfolding run_starts_def starts.simps by blast

lemma unwound_call:
  assumes "unwound ctx b (k # ks) es"
  shows "unwound ctx (Co_call b k) ks es"
proof -
  from assms consider "begins ctx b es"
    | es1 r1 es2 where "es = es1 @ es2" "direct ctx b es1 r1" "unwound ctx (k r1) ks es2" by auto
  then show ?thesis
  proof cases
    case 1
    then show ?thesis by (auto intro: unwound_begins b_in_call)
  next
    case 2
    from unwound_step [of ctx "k r1" "Co_call b k" es1, OF _ _ 2(3)] 2(1,2)
    show ?thesis by (auto intro: b_call d_call)
  qed
qed

lemma astep_starts: "astep ctx st es st' \<Longrightarrow> starts ctx st' ls \<Longrightarrow> starts ctx st (es @ ls)"
proof (induction rule: astep.induct)
  case (a_io_ready op k ks i)
  from starts_step [OF this [unfolded starts.simps], of "Co_io op k" "[Io op i]"] show ?case by (auto intro: b_io d_io)
next
  case (a_io op k ks)
  then show ?case
    using starts_step [of ctx "k _" ks _ "Co_io op k" "[Io op _]"] by (fastforce intro: b_io d_io)
next
  case (a_call b kr ks)
  have "astep ctx (A_run (Co_call b kr) ks) [] (A_run b (kr # ks))" by (rule astep.a_call)
  from astep_future [OF this, of ls] a_call unwound_call [of ctx b kr ks ls] show ?case
    by (auto simp: run_starts_def simp del: unwound.simps future.simps)
next
  case (a_call_fails b kr ks)
  from starts_step [OF this [unfolded starts.simps], of "Co_call b kr" "[]"] show ?case by (auto intro: b_call_fails d_call_fails)
next
  case (a_context kc ks)
  from starts_step [OF this [unfolded starts.simps], of "Co_context kc" "[]"] show ?case by (auto intro: b_context d_context)
next
  case (a_launch b kl ks t)
  from starts_step [OF this [unfolded starts.simps], of "Co_launch b kl" "[Launch t b]"] show ?case by (auto intro: b_launch d_launch)
next
  case (a_launch_fails b kl ks)
  from starts_step [OF this [unfolded starts.simps], of "Co_launch b kl" "[]"] show ?case by (auto intro: b_launch_fails d_launch_fails)
next
  case (a_join t kr ks)
  then show ?case
    using starts_step [of ctx "kr _" ks _ "Co_join t kr" "[Join t _]"] by (fastforce intro: b_join d_join)
next
  case (a_join_ready t kr ks r)
  from starts_step [OF this [unfolded starts.simps], of "Co_join t kr" "[Join t r]"] show ?case by (auto intro: b_join d_join)
next
  case (a_sync c kc ks i)
  from starts_step [OF this [unfolded starts.simps], of "Co_sync c kc" "[Sync c i]"] show ?case by (auto intro: b_sync d_sync)
next
  case (a_return r kr ks)
  have "astep ctx (A_run (result_body r) (kr # ks)) [] (A_run (kr r) ks)" by (rule astep.a_return)
  from astep_future [OF this] a_return show ?case
    unfolding run_starts_def starts.simps by (fastforce intro: d_end)
next
  case (a_finish r)
  have "astep ctx (A_run (result_body r) []) [Done r] (A_finished r)" by (rule astep.a_finish)
  from astep_future [OF this, of "[]"] a_finish show ?case unfolding run_starts_def starts.simps by simp
qed auto

lemma asteps_starts: "asteps ctx st es st' \<Longrightarrow> starts ctx st es"
proof (induction rule: asteps.induct)
  case (as_refl st)
  then show ?case by (cases st) auto
qed (auto intro: astep_starts)

text \<open>What a fiber has done is a beginning, or all, of a direct execution of its body.\<close>

lemma fiber_begins:
  assumes "pend_contract lib pend" and "fresh_program pend tk w" and "program_start tk b w = Ret cfg"
    and "rsteps lib cfg ls cfg'" and "fiber_body b ls f bf"
  shows "begins (this_ctx w) bf (trace f ls) \<or>
    (\<exists>es r. trace f ls = es @ [Done r] \<and> direct (this_ctx w) bf es r)"
proof -
  from program_sim [OF assms(1-4)] obtain S where "fibers_ok (this_ctx w) b ls S" by blast
  from fibers_okD(1) [OF this assms(5)] obtain st where
    "asteps (this_ctx w) (A_run bf []) (trace f ls) st" by blast
  from asteps_starts [OF this] show ?thesis by (auto simp: run_starts_def)
qed

subsection \<open>Beginnings of the constructs\<close>

inductive_cases begins_returnE: "begins ctx (Co_return v) es"
inductive_cases begins_throwE: "begins ctx (Co_throw e) es"
inductive_cases begins_ioE: "begins ctx (Co_io op k) es"
inductive_cases begins_syncE: "begins ctx (Co_sync c k) es"
inductive_cases begins_callE: "begins ctx (Co_call b k) es"
inductive_cases begins_contextE: "begins ctx (Co_context k) es"
inductive_cases begins_launchE: "begins ctx (Co_launch b k) es"

lemma begins_return [simp]: "begins ctx (Co_return v) es \<longleftrightarrow> es = []"
  by (auto elim: begins_returnE intro: b_empty)

lemma begins_throw [simp]: "begins ctx (Co_throw e) es \<longleftrightarrow> es = []"
  by (auto elim: begins_throwE intro: b_empty)

lemma begins_io:
  "begins ctx (Co_io op k) es \<longleftrightarrow> es = [] \<or> (\<exists>i es'. es = Io op i # es' \<and> begins ctx (k i) es')"
  by (auto elim: begins_ioE intro: b_io b_empty)

lemma begins_sync:
  "begins ctx (Co_sync c k) es \<longleftrightarrow> es = [] \<or> (\<exists>i es'. es = Sync c i # es' \<and> begins ctx (k i) es')"
  by (auto elim: begins_syncE intro: b_sync b_empty)

lemma begins_context [simp]: "begins ctx (Co_context k) es \<longleftrightarrow> es = [] \<or> begins ctx (k (Some ctx)) es"
  by (auto elim: begins_contextE intro: b_context b_empty)

lemma begins_call:
  "begins ctx (Co_call b k) es \<longleftrightarrow>
     es = [] \<or> begins ctx b es \<or> begins ctx (k (Inl Bad_alloc)) es \<or>
     (\<exists>es1 r1 es2. es = es1 @ es2 \<and> direct ctx b es1 r1 \<and> begins ctx (k r1) es2)"
  by (auto elim: begins_callE intro: begins.intros)

lemma begins_launch:
  "begins ctx (Co_launch b k) es \<longleftrightarrow>
     es = [] \<or> begins ctx (k (Inl Bad_alloc)) es \<or>
     (\<exists>t es'. es = Launch t b # es' \<and> begins ctx (k (Inr t)) es')"
  by (auto elim: begins_launchE intro: begins.intros)

end
