(* ===== verification/Tls_Env.thy ===== *)
theory Tls_Env
  imports Coro_Flow Ssl_Stream Net_Socket Fs_File
begin

section \<open>What a TLS coroutine calls\<close>

text \<open>
  \<^verbatim>\<open>send\<close>, \<^verbatim>\<open>recv\<close> and \<^verbatim>\<open>handshake\<close> of \<^verbatim>\<open>ssl_stream<socket>\<close> are coroutines. \<open>Ssl_Stream\<close>
  describes them as functions over a raw stream; the theories that build on this one have
  them as bodies for the runtime, with the calls of OpenSSL and the submissions of the socket
  in the order of the code, and the buffers at their addresses. This theory has the
  environment that answers those calls: memory, the session, and the raw stream.
\<close>

subsection \<open>Values and objects\<close>

datatype val =
    V_unit
  | V_int int
  | V_status "unit result"
  | V_socket socket
  | V_server server_socket
  | V_file fs_file

text \<open>An \<^verbatim>\<open>ssl_stream<socket>\<close>: its session's number and its socket.\<close>

record tls_stream =
  tls_ses :: nat
  tls_sock :: socket

text \<open>\<^verbatim>\<open>get_ssl_status\<close>, of the code \<^verbatim>\<open>SSL_get_error\<close> gave.\<close>

definition ssl_status_of :: "int \<Rightarrow> ssl_status" where
  "ssl_status_of code =
     (if code = SSL_ERROR_NONE then Ssl_ok
      else if code = SSL_ERROR_WANT_READ then Ssl_want_read
      else if code = SSL_ERROR_WANT_WRITE then Ssl_want_write
      else if code = SSL_ERROR_SYSCALL then Ssl_error_syscall
      else Ssl_error)"

lemma get_ssl_status_of: "get_ssl_status lib l n = ssl_status_of (ssl_get_error lib l n)"
  by (simp add: get_ssl_status_def ssl_status_of_def Let_def)

subsection \<open>Memory, OpenSSL and the socket\<close>

text \<open>
  The environment of one stream: the memory, the session with its BIOs, and the socket as a
  raw stream. A call that names another session or descriptor has no answer here; calls that
  name none are answered by \<open>os\<close> and leave the stream alone.
\<close>

record ('l, 's, 'o) tls_env =
  te_mem :: "addr \<Rightarrow> byte"
  te_lib :: 'l
  te_raw :: 's
  te_st :: 'o
  te_left :: "byte list"
  te_cap :: nat

definition stream_of :: "('l, 's, 'o) tls_env \<Rightarrow> ('l, 's) ssl_stream" where
  "stream_of E = \<lparr>sl_raw = te_raw E, sl_lib = te_lib E, sl_left = te_left E, sl_cap = te_cap E\<rparr>"

lemma stream_of_simps [simp]:
  "sl_raw (stream_of E) = te_raw E" "sl_lib (stream_of E) = te_lib E"
  "sl_left (stream_of E) = te_left E" "sl_cap (stream_of E) = te_cap E"
  "stream_of (E\<lparr>te_mem := m\<rparr>) = stream_of E" "stream_of (E\<lparr>te_st := st\<rparr>) = stream_of E"
  "stream_of (E\<lparr>te_lib := l\<rparr>) = (stream_of E)\<lparr>sl_lib := l\<rparr>"
  "stream_of (E\<lparr>te_raw := s\<rparr>) = (stream_of E)\<lparr>sl_raw := s\<rparr>"
  "stream_of (E\<lparr>te_left := bs\<rparr>) = (stream_of E)\<lparr>sl_left := bs\<rparr>"
  "stream_of (E\<lparr>te_cap := k\<rparr>) = (stream_of E)\<lparr>sl_cap := k\<rparr>"
  by (simp_all add: stream_of_def)

lemma tls_env_same [simp]:
  "te_mem E = m \<Longrightarrow> E\<lparr>te_mem := m\<rparr> = E" "te_lib E = l \<Longrightarrow> E\<lparr>te_lib := l\<rparr> = E"
  "te_raw E = s \<Longrightarrow> E\<lparr>te_raw := s\<rparr> = E" "te_st E = st \<Longrightarrow> E\<lparr>te_st := st\<rparr> = E"
  by auto

lemma tls_env_upd:
  fixes E E' :: "('l, 's, 'o) tls_env"
  assumes "te_left E' = te_left E" and "te_cap E' = te_cap E"
  shows "E'\<lparr>te_mem := m, te_lib := l, te_raw := s, te_st := st\<rparr> =
      E\<lparr>te_mem := m, te_lib := l, te_raw := s, te_st := st\<rparr>"
    and "E\<lparr>te_mem := te_mem E', te_lib := te_lib E', te_raw := te_raw E', te_st := te_st E'\<rparr> = E'"
  using assms by (auto intro: tls_env.equality)

definition bytes_at :: "(addr \<Rightarrow> byte) \<Rightarrow> addr \<Rightarrow> nat \<Rightarrow> byte list" where
  "bytes_at m a n = map (\<lambda>i. m (a + i)) [0..<n]"

definition put_at :: "(addr \<Rightarrow> byte) \<Rightarrow> addr \<Rightarrow> byte list \<Rightarrow> addr \<Rightarrow> byte" where
  "put_at m a bs x = (if a \<le> x \<and> x < a + length bs then bs ! (x - a) else m x)"

lemma length_bytes_at [simp]: "length (bytes_at m a n) = n"
  by (simp add: bytes_at_def)

lemma put_at_Nil [simp]: "put_at m a [] = m"
  by (rule ext) (auto simp: put_at_def)

lemma bytes_at_drop: "drop k (bytes_at m a n) = bytes_at m (a + k) (n - k)"
  by (rule nth_equalityI) (auto simp: bytes_at_def add.assoc)

lemma bytes_at_add: "bytes_at m a (i + j) = bytes_at m a i @ bytes_at m (a + i) j"
  by (rule nth_equalityI) (auto simp: bytes_at_def nth_append)

lemma bytes_at_put: "k \<le> length bs \<Longrightarrow> bytes_at (put_at m a bs) a k = take k bs"
  by (rule nth_equalityI) (auto simp: bytes_at_def put_at_def)

lemma bytes_at_other:
  "length bs \<le> k \<Longrightarrow> a + n \<le> b \<or> b + k \<le> a \<Longrightarrow> bytes_at (put_at m b bs) a n = bytes_at m a n"
  by (rule nth_equalityI) (auto simp: bytes_at_def put_at_def)

fun tls_sync ::
  "'l ssl_lib \<Rightarrow> (sync_call \<Rightarrow> int) \<Rightarrow> nat \<Rightarrow> sync_call \<Rightarrow> ('l, 's, 'o) tls_env \<Rightarrow> (int \<times> ('l, 's, 'o) tls_env) option"
where
  "tls_sync lib os ses (Sc_ssl_write n a k) E =
     (if n = ses then
        (case lib_ssl_write lib (bytes_at (te_mem E) a (nat k)) k (te_lib E) of
           (r, l) \<Rightarrow> Some (r, E\<lparr>te_lib := l\<rparr>))
      else None)"
| "tls_sync lib os ses (Sc_ssl_read n a k) E =
     (if n = ses then
        (case lib_ssl_read lib k (te_lib E) of
           (r, bs, l) \<Rightarrow> Some (r, E\<lparr>te_mem := put_at (te_mem E) a bs, te_lib := l\<rparr>))
      else None)"
| "tls_sync lib os ses (Sc_ssl_get_error n r) E =
     (if n = ses then Some (ssl_get_error lib (te_lib E) r, E) else None)"
| "tls_sync lib os ses (Sc_bio_pending_write n) E =
     (if n = ses then Some (int (bio_pending_write lib (te_lib E)), E) else None)"
| "tls_sync lib os ses (Sc_bio_pending_read n) E =
     (if n = ses then Some (int (bio_pending_read lib (te_lib E)), E) else None)"
| "tls_sync lib os ses (Sc_read_leftover n a k) E =
     (if n = ses then
        (case read_leftover k (stream_of E) of
           (r, bs, x) \<Rightarrow> Some (int r, E\<lparr>te_mem := put_at (te_mem E) a bs, te_left := sl_left x\<rparr>))
      else None)"
| "tls_sync lib os ses (Sc_fill_leftover n) E =
     (if n = ses then
        (case fill_leftover lib (stream_of E) of
           (r, x) \<Rightarrow> Some (r, E\<lparr>te_lib := sl_lib x, te_left := sl_left x, te_cap := sl_cap x\<rparr>))
      else None)"
| "tls_sync lib os ses (Sc_bio_read n a k) E =
     (if n = ses then
        (case bio_read lib k (te_lib E) of
           (r, bs, l) \<Rightarrow> Some (r, E\<lparr>te_mem := put_at (te_mem E) a bs, te_lib := l\<rparr>))
      else None)"
| "tls_sync lib os ses (Sc_bio_write n a k) E =
     (if n = ses then
        (case bio_write lib (bytes_at (te_mem E) a k) (te_lib E) of (r, l) \<Rightarrow> Some (r, E\<lparr>te_lib := l\<rparr>))
      else None)"
| "tls_sync lib os ses (Sc_ssl_connect n) E =
     (if n = ses then (case ssl_connect lib (te_lib E) of (r, l) \<Rightarrow> Some (r, E\<lparr>te_lib := l\<rparr>)) else None)"
| "tls_sync lib os ses (Sc_ssl_accept n) E =
     (if n = ses then (case ssl_accept lib (te_lib E) of (r, l) \<Rightarrow> Some (r, E\<lparr>te_lib := l\<rparr>)) else None)"
| "tls_sync lib os ses (Sc_set_connect_state n) E =
     (if n = ses then Some (0, E\<lparr>te_lib := set_connect_state lib (te_lib E)\<rparr>) else None)"
| "tls_sync lib os ses (Sc_set_accept_state n) E =
     (if n = ses then Some (0, E\<lparr>te_lib := set_accept_state lib (te_lib E)\<rparr>) else None)"
| "tls_sync lib os ses Sc_err_get_error E =
     (case err_get_error lib (te_lib E) of (r, l) \<Rightarrow> Some (r, E\<lparr>te_lib := l\<rparr>))"
| "tls_sync lib os ses Sc_err_print E = Some (0, E\<lparr>te_lib := err_print lib (te_lib E)\<rparr>)"
| "tls_sync lib os ses c E = Some (os c, E)"

fun tls_io ::
  "('s, 'o) raw_stream \<Rightarrow> int \<Rightarrow> uring_op \<Rightarrow> ('l, 's, 'o) tls_env \<Rightarrow> (int \<times> ('l, 's, 'o) tls_env) option"
where
  "tls_io raw fd (Op_send f a k flag) E =
     (if f = fd then
        (case rs_send raw (bytes_at (te_mem E) a k) flag (te_raw E) (te_st E) of
           (r, s, st) \<Rightarrow> Some (r, E\<lparr>te_raw := s, te_st := st\<rparr>))
      else None)"
| "tls_io raw fd (Op_recv f a k flag) E =
     (if f = fd then
        (case rs_recv raw k flag (te_raw E) (te_st E) of
           (r, bs, s, st) \<Rightarrow> Some (r, E\<lparr>te_mem := put_at (te_mem E) a bs, te_raw := s, te_st := st\<rparr>))
      else None)"
| "tls_io raw fd _ E = None"

definition tls_ops ::
  "'l ssl_lib \<Rightarrow> (sync_call \<Rightarrow> int) \<Rightarrow> ('s, 'o) raw_stream \<Rightarrow> tls_stream \<Rightarrow>
   ('l, 's, 'o) tls_env env_ops" where
  "tls_ops lib os raw x =
     \<lparr>do_sync = tls_sync lib os (tls_ses x), do_io = tls_io raw (s_fd (tls_sock x))\<rparr>"

lemma tls_ops_simps [simp]:
  "do_sync (tls_ops lib os raw x) = tls_sync lib os (tls_ses x)"
  "do_io (tls_ops lib os raw x) = tls_io raw (s_fd (tls_sock x))"
  by (simp_all add: tls_ops_def)

text \<open>A call that reads into a buffer writes as many bytes as it reports, at most the buffer's size.\<close>

definition fills_buffers :: "'l ssl_lib \<Rightarrow> bool" where
  "fills_buffers lib \<longleftrightarrow>
     (\<forall>k l r bs l'. bio_read lib k l = (r, bs, l') \<longrightarrow> length bs = nat r \<and> r \<le> int k) \<and>
     (\<forall>k l r bs l'. lib_ssl_read lib k l = (r, bs, l') \<longrightarrow> length bs = nat r \<and> r \<le> max 0 k)"

lemma fills_bio:
  "fills_buffers lib \<Longrightarrow> bio_read lib k l = (r, bs, l') \<Longrightarrow> length bs = nat r \<and> r \<le> int k"
  unfolding fills_buffers_def by blast

lemma fills_read:
  "fills_buffers lib \<Longrightarrow> lib_ssl_read lib k l = (r, bs, l') \<Longrightarrow> length bs = nat r \<and> r \<le> max 0 k"
  unfolding fills_buffers_def by blast

definition raw_fills :: "('s, 'o) raw_stream \<Rightarrow> bool" where
  "raw_fills raw \<longleftrightarrow>
     (\<forall>k flag s st r bs s' st'. rs_recv raw k flag s st = (r, bs, s', st') \<longrightarrow> length bs = nat r \<and> r \<le> int k)"

lemma raw_fillsD:
  "raw_fills raw \<Longrightarrow> rs_recv raw k flag s st = (r, bs, s', st') \<Longrightarrow> length bs = nat r \<and> r \<le> int k"
  unfolding raw_fills_def by blast

lemma raw_contract_fills: "raw_contract raw wire \<Longrightarrow> raw_fills raw"
  unfolding raw_fills_def by (auto dest: raw_recv)

text \<open>Two environments that differ at most in the memory from \<open>b\<close> to \<open>b + k\<close>.\<close>

definition agree_but :: "addr \<Rightarrow> nat \<Rightarrow> (addr \<Rightarrow> byte) \<Rightarrow> (addr \<Rightarrow> byte) \<Rightarrow> bool" where
  "agree_but b k m m' \<longleftrightarrow> (\<forall>x. x < b \<or> b + k \<le> x \<longrightarrow> m' x = m x)"

lemma agree_but_refl [simp]: "agree_but b k m m"
  by (simp add: agree_but_def)

lemma agree_but_trans: "agree_but b k m m1 \<Longrightarrow> agree_but b k m1 m2 \<Longrightarrow> agree_but b k m m2"
  by (simp add: agree_but_def)

lemma agree_but_put: "length bs \<le> k \<Longrightarrow> agree_but b k m (put_at m b bs)"
  by (auto simp: agree_but_def put_at_def)

lemma agree_but_bytes: "agree_but b k m m' \<Longrightarrow> a + n \<le> b \<or> b + k \<le> a \<Longrightarrow> bytes_at m' a n = bytes_at m a n"
  by (auto simp: agree_but_def bytes_at_def)

end
