(* ===== verification/Tls_Send.thy ===== *)
theory Tls_Send
  imports Tls_Env
begin

section \<open>\<^verbatim>\<open>ssl_stream::send\<close> as a coroutine\<close>

text \<open>
  The body of the coroutine, and that it does what the function \<open>ssl_send\<close> does.
\<close>

subsection \<open>The body\<close>

text \<open>
  \<open>c\<close> is \<^verbatim>\<open>bytes_consumed\<close>, \<open>n\<close> the bytes in \<^verbatim>\<open>write_buf\<close> (at \<open>wb\<close>), \<open>sent\<close> is \<^verbatim>\<open>bytes_sent\<close>.
\<close>

datatype send_pc =
    S_top nat
  | S_drain nat
  | S_read nat
  | S_status nat int
  | S_chunk nat nat nat
  | S_return int
  | S_throw exn

definition send_more :: "nat \<Rightarrow> nat \<Rightarrow> nat \<Rightarrow> send_pc" where
  "send_more c n sent = (if sent < n then S_chunk c n sent else S_drain c)"

fun send_act :: "tls_stream \<Rightarrow> addr \<Rightarrow> nat \<Rightarrow> int \<Rightarrow> addr \<Rightarrow> send_pc \<Rightarrow> (send_pc, val) act" where
  "send_act x buf len flag wb (S_top c) =
     (if c < len then
        Act_sync (Sc_ssl_write (tls_ses x) (buf + c) (to_int32 (int (len - c))))
          (\<lambda>res. if res \<le> 0 then S_throw (Runtime_error ''ssl write error TODO'') else S_drain (c + nat res))
      else Act_return (V_int (to_int32 (int c))))"
| "send_act x buf len flag wb (S_drain c) =
     Act_sync (Sc_bio_pending_write (tls_ses x)) (\<lambda>pending. if pending \<le> 0 then S_top c else S_read c)"
| "send_act x buf len flag wb (S_read c) =
     Act_sync (Sc_bio_read (tls_ses x) wb 4096)
       (\<lambda>n. if n \<le> 0 then S_status c n else send_more c (nat n) 0)"
| "send_act x buf len flag wb (S_status c n) =
     Act_sync (Sc_ssl_get_error (tls_ses x) n)
       (\<lambda>code. let status = ssl_status_of code in
          if status = Ssl_want_read \<or> status = Ssl_want_write then S_top c
          else S_throw (Runtime_error ''ssl read error TODO''))"
| "send_act x buf len flag wb (S_chunk c n sent) =
     Act_io (socket_send (tls_sock x) (wb + sent) (n - sent) flag)
       (\<lambda>r. let r = send_resume r in if r \<le> 0 then S_return r else send_more c n (sent + nat r))"
| "send_act x buf len flag wb (S_return r) = Act_return (V_int r)"
| "send_act x buf len flag wb (S_throw e) = Act_throw e"

definition tls_send :: "tls_stream \<Rightarrow> addr \<Rightarrow> nat \<Rightarrow> int \<Rightarrow> addr \<Rightarrow> val body" where
  "tls_send x buf len flag wb = flow_body (send_act x buf len flag wb) (S_top 0)"

subsection \<open>The coroutine and the function\<close>

text \<open>Each loop of the function, when it ends, is a stretch of the coroutine's run.\<close>

lemma drive_chunk:
  fixes E :: "('l, 's, 'o) tls_env"
  assumes "send_chunk raw out flag sent (te_raw E) (te_st E) = Some (e, s', st')"
    and "out = bytes_at (te_mem E) wb n"
  shows "drive (tls_ops lib os raw x) (send_act x buf len flag wb) (send_more c n sent) E =
    drive (tls_ops lib os raw x) (send_act x buf len flag wb)
      (case e of Inl r \<Rightarrow> S_return r | Inr _ \<Rightarrow> S_drain c) (E\<lparr>te_raw := s', te_st := st'\<rparr>)"
proof -
  let ?d = "\<lambda>raw flag. drive (tls_ops lib os raw x) (send_act x buf len flag wb)"
  have "\<forall>E n. out = bytes_at (te_mem E) wb n \<longrightarrow> te_raw E = s \<longrightarrow> te_st E = st \<longrightarrow>
      ?d raw flag (send_more c n sent) E =
      ?d raw flag (case fst y of Inl r \<Rightarrow> S_return r | Inr _ \<Rightarrow> S_drain c)
        (E\<lparr>te_raw := fst (snd y), te_st := snd (snd y)\<rparr>)"
    if "send_chunk raw out flag sent s st = Some y"
    for raw :: "('s, 'o) raw_stream" and out flag sent s st y
  proof (rule send_chunk.raw_induct [where P = "\<lambda>raw out flag sent s st y.
      \<forall>E n. out = bytes_at (te_mem E) wb n \<longrightarrow> te_raw E = s \<longrightarrow> te_st E = st \<longrightarrow>
      ?d raw flag (send_more c n sent) E =
      ?d raw flag (case fst y of Inl r \<Rightarrow> S_return r | Inr _ \<Rightarrow> S_drain c)
        (E\<lparr>te_raw := fst (snd y), te_st := snd (snd y)\<rparr>)", OF _ that], goal_cases)
    case (1 sc raw out flag sent s st y)
    show ?case
    proof (intro allI impI)
      fix E :: "('l, 's, 'o) tls_env" and n
      assume E: "out = bytes_at (te_mem E) wb n" "te_raw E = s" "te_st E = st"
      show "?d raw flag (send_more c n sent) E =
        ?d raw flag (case fst y of Inl r \<Rightarrow> S_return r | Inr _ \<Rightarrow> S_drain c)
          (E\<lparr>te_raw := fst (snd y), te_st := snd (snd y)\<rparr>)"
      proof (cases "sent < n")
        case False
        with 1(2) E show ?thesis by (auto simp: send_more_def)
      next
        case True
        obtain r s1 st1 where r: "rs_send raw (drop sent out) flag s st = (r, s1, st1)"
          by (cases "rs_send raw (drop sent out) flag s st") auto
        let ?E1 = "E\<lparr>te_raw := s1, te_st := st1\<rparr>"
        have step: "?d raw flag (S_chunk c n sent) E =
          ?d raw flag (if r \<le> 0 then S_return r else send_more c n (sent + nat r)) ?E1"
          using r E
          by (subst drive_io, simp, simp add: socket_send_def send_op_def bytes_at_drop)
            (simp add: send_resume_def)
        show ?thesis
        proof (cases "r \<le> 0")
          case True
          with step 1(2) E r \<open>sent < n\<close> show ?thesis by (auto simp: send_more_def)
        next
          case False
          with 1(2) E r \<open>sent < n\<close> have "sc raw out flag (sent + nat r) s1 st1 = Some y" by auto
          from 1(1) [OF this, rule_format, of ?E1 n] step False E \<open>sent < n\<close> show ?thesis
            by (simp add: send_more_def)
        qed
      qed
    qed
  qed
  from this [OF assms(1)] assms(2) show ?thesis by auto
qed

fun drained :: "nat \<Rightarrow> (int + unit) outcome \<Rightarrow> send_pc" where
  "drained c (Ret (Inl r)) = S_return r"
| "drained c (Ret (Inr u)) = S_top c"
| "drained c (Thrown e) = S_throw e"
| "drained c (Fault u) = S_top c"

lemma drive_drain:
  fixes E :: "('l, 's, 'o) tls_env"
  assumes "drain_loop lib raw flag (te_lib E) (te_raw E) (te_st E) = Some (e, l', s', st')"
    and fb: "fills_buffers lib"
  shows "(\<forall>u. e \<noteq> Fault u) \<and> (\<exists>m'. agree_but wb 4096 (te_mem E) m' \<and>
    drive (tls_ops lib os raw x) (send_act x buf len flag wb) (S_drain c) E =
    drive (tls_ops lib os raw x) (send_act x buf len flag wb) (drained c e)
      (E\<lparr>te_mem := m', te_lib := l', te_raw := s', te_st := st'\<rparr>))"
proof -
  let ?d = "\<lambda>lib raw flag. drive (tls_ops lib os raw x) (send_act x buf len flag wb)"
  let ?P = "\<lambda>lib raw flag l s st y. fills_buffers lib \<longrightarrow> (\<forall>E. te_lib E = l \<longrightarrow> te_raw E = s \<longrightarrow> te_st E = st \<longrightarrow>
      (\<forall>u. fst y \<noteq> Fault u) \<and> (\<exists>m'. agree_but wb 4096 (te_mem E) m' \<and>
      ?d lib raw flag (S_drain c) E = ?d lib raw flag (drained c (fst y))
        (E\<lparr>te_mem := m', te_lib := fst (snd y), te_raw := fst (snd (snd y)), te_st := snd (snd (snd y))\<rparr>)))"
  have "?P lib raw flag l s st y" if "drain_loop lib raw flag l s st = Some y"
    for lib :: "'l ssl_lib" and raw :: "('s, 'o) raw_stream" and flag l s st y
  proof (rule drain_loop.raw_induct [where P = ?P, OF _ that], goal_cases)
    case (1 dl lib raw flag l s st y)
    show ?case
    proof (intro impI allI)
      fix E :: "('l, 's, 'o) tls_env"
      assume fb: "fills_buffers lib" and E: "te_lib E = l" "te_raw E = s" "te_st E = st"
      let ?C = "(\<forall>u. fst y \<noteq> Fault u) \<and> (\<exists>m'. agree_but wb 4096 (te_mem E) m' \<and>
        ?d lib raw flag (S_drain c) E = ?d lib raw flag (drained c (fst y))
          (E\<lparr>te_mem := m', te_lib := fst (snd y), te_raw := fst (snd (snd y)), te_st := snd (snd (snd y))\<rparr>))"
      have pend: "?d lib raw flag (S_drain c) E =
          ?d lib raw flag (if bio_pending_write lib l \<le> 0 then S_top c else S_read c) E"
        using E by (subst drive_sync, simp, simp) simp
      show ?C
      proof (cases "write_pending lib l \<le> 0")
        case True
        with 1(2) pend E show ?thesis
          by (auto simp: write_pending_def intro!: exI [of _ "te_mem E"])
      next
        case False
        obtain n out l1 where rd: "bio_read lib 4096 l = (n, out, l1)" by (cases "bio_read lib 4096 l")
        from fills_bio [OF fb this] have out: "length out = nat n" "n \<le> 4096" by auto
        let ?m = "put_at (te_mem E) wb out"
        let ?E = "E\<lparr>te_mem := ?m, te_lib := l1\<rparr>"
        have ag: "agree_but wb 4096 (te_mem E) ?m" using out by (auto intro!: agree_but_put)
        have step: "?d lib raw flag (S_drain c) E =
            ?d lib raw flag (if n \<le> 0 then S_status c n else send_more c (nat n) 0) ?E"
      proof -
        have "?d lib raw flag (S_read c) E =
            ?d lib raw flag (if n \<le> 0 then S_status c n else send_more c (nat n) 0) ?E"
          using E rd by (subst drive_sync, simp, simp) simp
        with False pend show ?thesis by (simp add: write_pending_def)
      qed
        show ?thesis
        proof (cases "n \<le> 0")
          case True
          have "?d lib raw flag (S_status c n) ?E = ?d lib raw flag
              (let status = get_ssl_status lib l1 n in
               if status = Ssl_want_read \<or> status = Ssl_want_write then S_top c
               else S_throw (Runtime_error ''ssl read error TODO'')) ?E"
            by (subst drive_sync, simp, simp) (simp add: get_ssl_status_of)
          with step 1(2) True False rd E ag show ?thesis
            by (auto simp: engine_read_def Let_def intro!: exI [of _ ?m] split: if_splits)
        next
          case False
          with 1(2) rd \<open>\<not> write_pending lib l \<le> 0\<close> obtain e2 s2 st2 where
            sc: "send_chunk raw (take (nat n) (filled 4096 out)) flag 0 s st = Some (e2, s2, st2)" and
            rest: "(case e2 of Inl r \<Rightarrow> Some (Ret (Inl r), l1, s2, st2) | Inr _ \<Rightarrow> dl lib raw flag l1 s2 st2) = Some y"
            by (auto simp: engine_read_def split: Option.bind_splits)
          have o: "take (nat n) (filled 4096 out) = bytes_at ?m wb (nat n)"
            using out False by (subst filled_full) (auto simp: bytes_at_put)
          let ?E2 = "?E\<lparr>te_raw := s2, te_st := st2\<rparr>"
          have "?d lib raw flag (send_more c (nat n) 0) ?E =
              ?d lib raw flag (case e2 of Inl r \<Rightarrow> S_return r | Inr _ \<Rightarrow> S_drain c) ?E2"
            using drive_chunk [of raw "take (nat n) (filled 4096 out)" flag 0 ?E e2 s2 st2 wb "nat n" lib os x buf len c]
              sc o E by simp
          with step False have step2: "?d lib raw flag (S_drain c) E =
              ?d lib raw flag (case e2 of Inl r \<Rightarrow> S_return r | Inr _ \<Rightarrow> S_drain c) ?E2" by simp
          show ?thesis
          proof (cases e2)
            case (Inl r)
            with rest step2 ag show ?thesis by (auto intro!: exI [of _ ?m])
          next
            case (Inr u)
            with rest have "dl lib raw flag l1 s2 st2 = Some y" by simp
            from 1(1) [OF this, rule_format, OF fb, of ?E2] obtain m' where
              "\<forall>u. fst y \<noteq> Fault u" "agree_but wb 4096 ?m m'"
              "?d lib raw flag (S_drain c) ?E2 = ?d lib raw flag (drained c (fst y))
                (E\<lparr>te_mem := m', te_lib := fst (snd y), te_raw := fst (snd (snd y)), te_st := snd (snd (snd y))\<rparr>)"
              by auto
            with step2 Inr agree_but_trans [OF ag] show ?thesis by auto
          qed
        qed
      qed
    qed
  qed
  from this [OF assms(1)] fb show ?thesis by auto
qed

text \<open>The caller's buffer is \<open>b\<close>, and is apart from the coroutine's own.\<close>

fun end_of :: "int outcome \<Rightarrow> exn + val" where
  "end_of (Ret r) = Inr (V_int r)"
| "end_of (Thrown e) = Inl e"
| "end_of (Fault u) = Inl Unknown_exn"

lemma drive_send:
  fixes E :: "('l, 's, 'o) tls_env"
  assumes "send_loop lib raw b flag c (te_lib E) (te_raw E) (te_st E) = Some (e, l', s', st')"
    and fb: "fills_buffers lib"
    and "length b < 2 ^ 31" and "buf + length b \<le> wb \<or> wb + 4096 \<le> buf"
    and "bytes_at (te_mem E) buf (length b) = b"
  shows "(\<forall>u. e \<noteq> Fault u) \<and> (\<exists>m'. agree_but wb 4096 (te_mem E) m' \<and>
    drive (tls_ops lib os raw x) (send_act x buf (length b) flag wb) (S_top c) E =
    Some (end_of e, (E\<lparr>te_mem := m', te_lib := l', te_raw := s', te_st := st'\<rparr>)))"
proof -
  let ?d = "\<lambda>lib raw b flag. drive (tls_ops lib os raw x) (send_act x buf (length b) flag wb)"
  let ?P = "\<lambda>lib raw b flag c l s st y. fills_buffers lib \<longrightarrow> length b < 2 ^ 31 \<longrightarrow>
      buf + length b \<le> wb \<or> wb + 4096 \<le> buf \<longrightarrow>
      (\<forall>E. te_lib E = l \<longrightarrow> te_raw E = s \<longrightarrow> te_st E = st \<longrightarrow> bytes_at (te_mem E) buf (length b) = b \<longrightarrow>
      (\<forall>u. fst y \<noteq> Fault u) \<and> (\<exists>m'. agree_but wb 4096 (te_mem E) m' \<and>
      ?d lib raw b flag (S_top c) E = Some (end_of (fst y),
        (E\<lparr>te_mem := m', te_lib := fst (snd y), te_raw := fst (snd (snd y)), te_st := snd (snd (snd y))\<rparr>))))"
  have "?P lib raw b flag c l s st y" if "send_loop lib raw b flag c l s st = Some y"
    for lib :: "'l ssl_lib" and raw :: "('s, 'o) raw_stream" and b flag c l s st y
  proof (rule send_loop.raw_induct [where P = ?P, OF _ that], goal_cases)
    case (1 sl lib raw b flag c l s st y)
    show ?case
    proof (intro impI allI)
      fix E :: "('l, 's, 'o) tls_env"
      assume fb: "fills_buffers lib" and len: "length b < 2 ^ 31"
        and apart: "buf + length b \<le> wb \<or> wb + 4096 \<le> buf"
        and E: "te_lib E = l" "te_raw E = s" "te_st E = st" and b: "bytes_at (te_mem E) buf (length b) = b"
      let ?C = "(\<forall>u. fst y \<noteq> Fault u) \<and> (\<exists>m'. agree_but wb 4096 (te_mem E) m' \<and>
        ?d lib raw b flag (S_top c) E = Some (end_of (fst y),
          (E\<lparr>te_mem := m', te_lib := fst (snd y), te_raw := fst (snd (snd y)), te_st := snd (snd (snd y))\<rparr>)))"
      show ?C
      proof (cases "c < length b")
        case False
        with 1(2) E show ?thesis by (auto simp: drive_return intro!: exI [of _ "te_mem E"])
      next
        case True
        obtain res l1 where wr: "lib_ssl_write lib (drop c b) (to_int32 (int (length b - c))) l = (res, l1)"
          by (cases "lib_ssl_write lib (drop c b) (to_int32 (int (length b - c))) l")
        have n: "to_int32 (int (length b - c)) = int (length b - c)" using len by (intro to_int32_id) auto
        have db: "bytes_at (te_mem E) (buf + c) (length b - c) = drop c b"
          using bytes_at_drop [of c "te_mem E" buf "length b"] b by simp
        let ?E1 = "E\<lparr>te_lib := l1\<rparr>"
        have step: "?d lib raw b flag (S_top c) E =
            ?d lib raw b flag (if res \<le> 0 then S_throw (Runtime_error ''ssl write error TODO'')
              else S_drain (c + nat res)) ?E1"
        proof -
          have "send_act x buf (length b) flag wb (S_top c) =
              Act_sync (Sc_ssl_write (tls_ses x) (buf + c) (to_int32 (int (length b - c))))
                (\<lambda>res. if res \<le> 0 then S_throw (Runtime_error ''ssl write error TODO'')
                  else S_drain (c + nat res))"
            using True by simp
          moreover have "tls_sync lib os (tls_ses x)
              (Sc_ssl_write (tls_ses x) (buf + c) (to_int32 (int (length b - c)))) E = Some (res, ?E1)"
            using E wr n db by (simp del: of_nat_diff)
          ultimately show ?thesis by (simp only: drive_sync tls_ops_simps)
        qed
        show ?thesis
        proof (cases "res \<le> 0")
          case True
          with step 1(2) wr E \<open>c < length b\<close> show ?thesis
            by (auto simp: drive_throw intro!: exI [of _ "te_mem E"])
        next
          case False
          with 1(2) wr \<open>c < length b\<close> obtain e2 l2 s2 st2 where
            dl: "drain_loop lib raw flag l1 s st = Some (e2, l2, s2, st2)" and
            rest: "(case e2 of Ret (Inl r) \<Rightarrow> Some (Ret r, l2, s2, st2)
              | Ret (Inr _) \<Rightarrow> sl lib raw b flag (c + nat res) l2 s2 st2
              | Thrown exc \<Rightarrow> Some (Thrown exc, l2, s2, st2)
              | Fault u \<Rightarrow> Some (Fault u, l2, s2, st2)) = Some y"
            by (auto split: Option.bind_splits)
          from drive_drain [of lib raw flag ?E1 e2 l2 s2 st2 wb os x buf "length b" "c + nat res"] dl fb E
          obtain m2 where nf: "\<forall>u. e2 \<noteq> Fault u" and ag: "agree_but wb 4096 (te_mem E) m2" and
            d2: "?d lib raw b flag (S_drain (c + nat res)) ?E1 = ?d lib raw b flag (drained (c + nat res) e2)
              (E\<lparr>te_mem := m2, te_lib := l2, te_raw := s2, te_st := st2\<rparr>)" by auto
          let ?E2 = "(E\<lparr>te_mem := m2, te_lib := l2, te_raw := s2, te_st := st2\<rparr>)"
          from step d2 False have d3: "?d lib raw b flag (S_top c) E =
              ?d lib raw b flag (drained (c + nat res) e2) ?E2" by simp
          show ?thesis
          proof (cases "\<exists>u. e2 = Ret (Inr u)")
            case True
            with rest have "sl lib raw b flag (c + nat res) l2 s2 st2 = Some y" by auto
            moreover have "bytes_at m2 buf (length b) = b" using agree_but_bytes [OF ag] apart b by simp
            ultimately obtain m' where "\<forall>u. fst y \<noteq> Fault u" "agree_but wb 4096 m2 m'"
              "?d lib raw b flag (S_top (c + nat res)) ?E2 = Some (end_of (fst y),
                (E\<lparr>te_mem := m', te_lib := fst (snd y), te_raw := fst (snd (snd y)), te_st := snd (snd (snd y))\<rparr>))"
              using 1(1) [rule_format, of lib raw b flag "c + nat res" l2 s2 st2 y ?E2] fb len apart by auto
            with d3 True agree_but_trans [OF ag] show ?thesis by auto
          next
            case False
            with rest d3 nf ag show ?thesis
              by (cases e2) (auto simp: drive_return drive_throw intro!: exI [of _ m2] split: sum.splits)
          qed
        qed
      qed
    qed
  qed
  from this [OF assms(1)] assms(2-) show ?thesis by auto
qed

end
