(* ===== verification/Tls_Recv.thy ===== *)
theory Tls_Recv
  imports Tls_Env
begin

section \<open>\<^verbatim>\<open>ssl_stream::recv\<close> as a coroutine\<close>

text \<open>
  The body of the coroutine, and that it does what the function \<open>ssl_recv\<close> does.
\<close>

subsection \<open>The body\<close>

text \<open>
  \<open>rb\<close> is the address of \<^verbatim>\<open>raw_buf\<close>; \<open>t\<close> is \<^verbatim>\<open>total_decrypted\<close>. \<open>R_status\<close> is the
  \<^verbatim>\<open>get_ssl_status\<close> of the first \<^verbatim>\<open>ssl_read\<close>, whose status is not used.
\<close>

datatype recv_pc =
    R_start
  | R_first
  | R_status int
  | R_recv
  | R_write nat
  | R_pending_read nat
  | R_pending_write nat
  | R_decrypt nat
  | R_decrypted nat int
  | R_fill nat
  | R_filled nat int
  | R_return int

definition wants :: "int \<Rightarrow> bool" where
  "wants code \<longleftrightarrow> ssl_status_of code = Ssl_want_read \<or> ssl_status_of code = Ssl_want_write"

fun recv_act :: "tls_stream \<Rightarrow> addr \<Rightarrow> nat \<Rightarrow> int \<Rightarrow> addr \<Rightarrow> recv_pc \<Rightarrow> (recv_pc, val) act" where
  "recv_act x buf len flag rb R_start =
     Act_sync (Sc_read_leftover (tls_ses x) buf len) (\<lambda>n. if n > 0 then R_return n else R_first)"
| "recv_act x buf len flag rb R_first =
     Act_sync (Sc_ssl_read (tls_ses x) buf (to_int32 (int len))) R_status"
| "recv_act x buf len flag rb (R_status r) =
     Act_sync (Sc_ssl_get_error (tls_ses x) r) (\<lambda>_. if r > 0 then R_return r else R_recv)"
| "recv_act x buf len flag rb R_recv =
     Act_io (socket_recv (tls_sock x) rb len flag)
       (\<lambda>r. let r = recv_resume r in if r \<le> 0 then R_return r else R_write (nat r))"
| "recv_act x buf len flag rb (R_write n) =
     Act_sync (Sc_bio_write (tls_ses x) rb n)
       (\<lambda>written. if written \<le> 0 then R_return (- 1) else R_pending_read 0)"
| "recv_act x buf len flag rb (R_pending_read t) =
     Act_sync (Sc_bio_pending_read (tls_ses x)) (\<lambda>_. R_pending_write t)"
| "recv_act x buf len flag rb (R_pending_write t) =
     Act_sync (Sc_bio_pending_write (tls_ses x)) (\<lambda>_. if t < len then R_decrypt t else R_fill t)"
| "recv_act x buf len flag rb (R_decrypt t) =
     Act_sync (Sc_ssl_read (tls_ses x) (buf + t) (to_int32 (int (len - t)))) (R_decrypted t)"
| "recv_act x buf len flag rb (R_decrypted t d) =
     Act_sync (Sc_ssl_get_error (tls_ses x) d)
       (\<lambda>code. if d > 0 then
            (if ssl_status_of code = Ssl_ok then R_return (int (t + nat d)) else R_pending_read (t + nat d))
          else if wants code then R_return (int t) else R_return (- 1))"
| "recv_act x buf len flag rb (R_fill t) =
     Act_sync (Sc_fill_leftover (tls_ses x)) (\<lambda>d. if d > 0 then R_pending_read t else R_filled t d)"
| "recv_act x buf len flag rb (R_filled t d) =
     Act_sync (Sc_ssl_get_error (tls_ses x) d)
       (\<lambda>code. if wants code then R_return (int t) else R_return (- 1))"
| "recv_act x buf len flag rb (R_return r) = Act_return (V_int r)"

definition tls_recv :: "tls_stream \<Rightarrow> addr \<Rightarrow> nat \<Rightarrow> int \<Rightarrow> addr \<Rightarrow> val body" where
  "tls_recv x buf len flag rb = flow_body (recv_act x buf len flag rb) R_start"

subsection \<open>The coroutine and the function\<close>

lemma wants_status: "wants (ssl_get_error lib l n) \<longleftrightarrow> get_ssl_status lib l n \<in> {Ssl_want_read, Ssl_want_write}"
  by (auto simp: wants_def get_ssl_status_of)

lemma drive_recv_loop:
  fixes E :: "('l, 's, 'o) tls_env"
  assumes "recv_loop lib len got (stream_of E) = Some (r, got', xs')" and "fills_buffers lib"
    and "length got \<le> len" and "len < 2 ^ 31" and "bytes_at (te_mem E) buf (length got) = got"
  shows "\<exists>E'. drive (tls_ops lib os raw x) (recv_act x buf len flag rb) (R_pending_read (length got)) E =
      Some (Inr (V_int r), E') \<and> stream_of E' = xs' \<and> te_st E' = te_st E \<and>
    bytes_at (te_mem E') buf (length got') = got' \<and> length got' \<le> len \<and>
    agree_but buf len (te_mem E) (te_mem E')"
proof -
  let ?d = "\<lambda>lib len. drive (tls_ops lib os raw x) (recv_act x buf len flag rb)"
  let ?Q = "\<lambda>lib len got E y E'. ?d lib len (R_pending_read (length got)) E = Some (Inr (V_int (fst y)), E') \<and>
      stream_of E' = snd (snd y) \<and> te_st E' = te_st E \<and>
      bytes_at (te_mem E') buf (length (fst (snd y))) = fst (snd y) \<and> length (fst (snd y)) \<le> len \<and>
      agree_but buf len (te_mem E) (te_mem E')"
  let ?P = "\<lambda>lib len got xs y. fills_buffers lib \<longrightarrow> length got \<le> len \<longrightarrow> len < 2 ^ 31 \<longrightarrow>
      (\<forall>E. stream_of E = xs \<longrightarrow> bytes_at (te_mem E) buf (length got) = got \<longrightarrow> (\<exists>E'. ?Q lib len got E y E'))"
  have "?P lib len got xs y" if "recv_loop lib len got xs = Some y"
    for lib :: "'l ssl_lib" and len got y and xs :: "('l, 's) ssl_stream"
  proof (rule recv_loop.raw_induct [where P = ?P and xa = "(((lib, len), got), xs)", unfolded prod.case, OF _ that], goal_cases)
    case (1 rl lib len got xs y)
    show ?case
    proof (intro impI allI)
      fix E :: "('l, 's, 'o) tls_env"
      assume fb: "fills_buffers lib" and le: "length got \<le> len" and len: "len < 2 ^ 31"
        and E: "stream_of E = xs" and got: "bytes_at (te_mem E) buf (length got) = got"
      let ?t = "length got"
      have go: "\<exists>E'. ?Q lib len got E y E'"
        if "?d lib len (R_pending_read ?t) E = ?d lib len (R_pending_read (length g)) F" "rl lib len g (stream_of F) = Some y"
          "length g \<le> len" "bytes_at (te_mem F) buf (length g) = g" "te_st F = te_st E"
          "agree_but buf len (te_mem E) (te_mem F)" for g and F :: "('l, 's, 'o) tls_env"
      proof -
        from 1(1) [OF that(2), rule_format, OF fb that(3) len refl that(4)] obtain E' where
          "?Q lib len g F y E'" by blast
        with that agree_but_trans [OF that(6)] show ?thesis by auto
      qed
      have stop: "\<exists>E'. ?Q lib len got E y E'"
        if "?d lib len (R_pending_read ?t) E = ?d lib len (R_return r) F" "y = (r, g, stream_of F)"
          "length g \<le> len" "bytes_at (te_mem F) buf (length g) = g" "te_st F = te_st E"
          "agree_but buf len (te_mem E) (te_mem F)" for r g and F :: "('l, 's, 'o) tls_env"
        using that by (auto simp: drive_return)
      have "?d lib len (R_pending_read ?t) E = ?d lib len (R_pending_write ?t) E"
        by (subst drive_sync, simp, simp) simp
      also have "\<dots> = ?d lib len (if ?t < len then R_decrypt ?t else R_fill ?t) E"
        by (subst drive_sync, simp, simp) simp
      finally have d0: "?d lib len (R_pending_read ?t) E = \<dots>" .
      show "\<exists>E'. ?Q lib len got E y E'"
      proof (cases "?t < len")
        case True
        obtain d bs l1 where r: "lib_ssl_read lib (to_int32 (int (len - ?t))) (te_lib E) = (d, bs, l1)"
          by (cases "lib_ssl_read lib (to_int32 (int (len - ?t))) (te_lib E)") auto
        have n: "to_int32 (int (len - ?t)) = int (len - ?t)" using len by (intro to_int32_id) auto
        from fills_read [OF fb r] n have bs: "length bs = nat d" "d \<le> int (len - ?t)" by auto
        let ?m = "put_at (te_mem E) (buf + ?t) bs"
        let ?F = "E\<lparr>te_mem := ?m, te_lib := l1\<rparr>"
        have act: "recv_act x buf len flag rb (R_decrypt ?t) =
            Act_sync (Sc_ssl_read (tls_ses x) (buf + ?t) (to_int32 (int (len - ?t)))) (R_decrypted ?t)"
          by simp
        have "tls_sync lib os (tls_ses x) (Sc_ssl_read (tls_ses x) (buf + ?t) (to_int32 (int (len - ?t)))) E =
            Some (d, ?F)" using r by simp
        with act have "?d lib len (R_decrypt ?t) E = ?d lib len (R_decrypted ?t d) ?F"
          by (simp only: drive_sync tls_ops_simps)
        also have "\<dots> = ?d lib len (if d > 0 then
              (if get_ssl_status lib l1 d = Ssl_ok then R_return (int (?t + nat d)) else R_pending_read (?t + nat d))
            else if get_ssl_status lib l1 d \<in> {Ssl_want_read, Ssl_want_write} then R_return (int ?t)
            else R_return (- 1)) ?F"
          by (subst drive_sync, simp, simp) (simp add: get_ssl_status_of wants_def)
        finally have d1: "?d lib len (R_pending_read ?t) E = \<dots>" using d0 True by simp
        have ag: "agree_but buf len (te_mem E) ?m"
          using bs True by (auto simp: agree_but_def put_at_def)
        have old: "bytes_at ?m buf ?t = got"
          using got by (subst bytes_at_other [where k = "length bs"]) auto
        have new: "bytes_at ?m buf (length (got @ bs)) = got @ bs"
          using old by (simp add: bytes_at_add bytes_at_put)
        have f: "take (nat d) (filled (len - ?t) bs) = bs" using bs by (intro filled_full) auto
        have xsl: "sl_lib xs = te_lib E" "stream_of ?F = xs\<lparr>sl_lib := l1\<rparr>" using E by auto
        show ?thesis
        proof (cases "d > 0")
          case dpos: True
          have ln: "length (got @ bs) \<le> len" "?t + nat d = length (got @ bs)" using bs dpos True by auto
          show ?thesis
          proof (cases "get_ssl_status lib l1 d = Ssl_ok")
            case True
            with 1(2) r f dpos \<open>?t < len\<close> xsl have "y = (int (length (got @ bs)), got @ bs, stream_of ?F)"
              by (auto simp: engine_ssl_read_def Let_def simp del: length_take)
            with d1 dpos True ln new ag show ?thesis by (intro stop [of _ ?F "got @ bs"]) auto
          next
            case False
            with 1(2) r f dpos \<open>?t < len\<close> xsl have "rl lib len (got @ bs) (stream_of ?F) = Some y"
              by (auto simp: engine_ssl_read_def Let_def)
            with d1 dpos False ln new ag show ?thesis by (intro go [of "got @ bs" ?F]) auto
          qed
        next
          case False
          with bs have m: "?m = te_mem E" by simp
          from 1(2) r False \<open>?t < len\<close> xsl have
            "y = (if get_ssl_status lib l1 d \<in> {Ssl_want_read, Ssl_want_write} then int ?t else - 1, got, stream_of ?F)"
            by (auto simp: engine_ssl_read_def Let_def)
          with d1 False old le m show ?thesis by (intro stop [of _ ?F got]) (auto split: if_splits)
        qed
      next
        case False
        obtain d xs1 where fl: "fill_leftover lib xs = (d, xs1)" by (cases "fill_leftover lib xs")
        let ?F = "E\<lparr>te_lib := sl_lib xs1, te_left := sl_left xs1, te_cap := sl_cap xs1\<rparr>"
        have xs1: "stream_of ?F = xs1"
          using fl E by (cases xs1) (auto simp: stream_of_def fill_leftover_def Let_def split: prod.splits if_splits)
        have "?d lib len (R_fill ?t) E = ?d lib len (if d > 0 then R_pending_read ?t else R_filled ?t d) ?F"
          using fl E by (subst drive_sync, simp, simp) simp
        with d0 False have d1: "?d lib len (R_pending_read ?t) E =
            ?d lib len (if d > 0 then R_pending_read ?t else R_filled ?t d) ?F" by simp
        have d2: "?d lib len (R_filled ?t d) ?F =
            ?d lib len (if get_ssl_status lib (sl_lib xs1) d \<in> {Ssl_want_read, Ssl_want_write}
              then R_return (int ?t) else R_return (- 1)) ?F"
          by (subst drive_sync, simp, simp) (simp add: get_ssl_status_of wants_def)
        show ?thesis
        proof (cases "d > 0")
          case True
          with 1(2) fl False have "rl lib len got xs1 = Some y"
            by (auto simp: fill_leftover_def Let_def split: prod.splits)
          with d1 True le got xs1 show ?thesis by (intro go [of got ?F]) auto
        next
          case nd: False
          with 1(2) fl False have
            "y = (if get_ssl_status lib (sl_lib xs1) d \<in> {Ssl_want_read, Ssl_want_write} then int ?t else - 1, got, xs1)"
            by (auto simp: fill_leftover_def Let_def split: prod.splits if_splits)
          with d1 d2 nd le got xs1 show ?thesis by (intro stop [of _ ?F got]) (auto split: if_splits)
        qed
      qed
    qed
  qed
  from this [OF assms(1)] assms(2-) show ?thesis by fastforce
qed

lemma drive_recv:
  fixes E :: "('l, 's, 'o) tls_env"
  assumes run: "ssl_recv lib raw len flag (stream_of E) (te_st E) = Some (r, got, xs', st')"
    and fb: "fills_buffers lib" and rf: "raw_fills raw" and len: "len < 2 ^ 31"
  shows "\<exists>E'. drive (tls_ops lib os raw x) (recv_act x buf len flag rb) R_start E = Some (Inr (V_int r), E') \<and>
    stream_of E' = xs' \<and> te_st E' = st' \<and> bytes_at (te_mem E') buf (length got) = got"
    (is "\<exists>E'. ?Q E'")
proof -
  let ?d = "drive (tls_ops lib os raw x) (recv_act x buf len flag rb)"
  have stop: "\<exists>E'. ?Q E'"
    if "?d R_start E = ?d (R_return r) F" "stream_of F = xs'" "te_st F = st'"
      "bytes_at (te_mem F) buf (length got) = got" for F
    using that by (auto simp: drive_return)
  obtain k bs0 x1 where lo: "read_leftover len (stream_of E) = (k, bs0, x1)"
    by (cases "read_leftover len (stream_of E)") auto
  let ?E1 = "E\<lparr>te_mem := put_at (te_mem E) buf bs0, te_left := sl_left x1\<rparr>"
  have x1: "stream_of ?E1 = x1" "length bs0 = k"
    using lo by (auto simp: read_leftover_def Let_def stream_of_def split: if_splits)
  have d1: "?d R_start E = ?d (if int k > 0 then R_return (int k) else R_first) ?E1"
    using lo by (subst drive_sync, simp, simp) simp
  show ?thesis
  proof (cases "k > 0")
    case True
    with run lo have "r = int k" "got = bs0" "xs' = x1" "st' = te_st E" by (auto simp: ssl_recv_def)
    with True d1 x1 show ?thesis by (intro stop [of ?E1]) (auto simp: bytes_at_put)
  next
    case False
    have n: "to_int32 (int len) = int len" using len by (intro to_int32_id) auto
    obtain q bs1 l1 where sr: "lib_ssl_read lib (int len) (sl_lib x1) = (q, bs1, l1)"
      by (cases "lib_ssl_read lib (int len) (sl_lib x1)") auto
    from fills_read [OF fb this] have bs1: "length bs1 = nat q" "q \<le> int len" by auto
    let ?E2 = "?E1\<lparr>te_mem := put_at (te_mem ?E1) buf bs1, te_lib := l1\<rparr>"
    have x2: "stream_of ?E2 = x1\<lparr>sl_lib := l1\<rparr>" using x1 by auto
    have "sl_lib x1 = te_lib E" using arg_cong [OF x1(1), of sl_lib] by simp
    then have "?d R_first ?E1 = ?d (R_status q) ?E2" using sr n by (subst drive_sync, simp, simp) simp
    also have "\<dots> = ?d (if q > 0 then R_return q else R_recv) ?E2" by (subst drive_sync, simp, simp) simp
    finally have d2: "?d R_start E = \<dots>" using d1 False by simp
    show ?thesis
    proof (cases "q > 0")
      case True
      have "take (nat q) (filled len bs1) = bs1" using bs1 by (intro filled_full) auto
      with run lo False sr n True have "r = q" "got = bs1" "xs' = x1\<lparr>sl_lib := l1\<rparr>" "st' = te_st E"
        by (auto simp: ssl_recv_def engine_ssl_read_def Let_def)
      with True d2 x2 show ?thesis by (intro stop [of ?E2]) (auto simp: bytes_at_put)
    next
      case nq: False
      obtain c bs2 s1 st1 where rv: "rs_recv raw len flag (te_raw E) (te_st E) = (c, bs2, s1, st1)"
        by (cases "rs_recv raw len flag (te_raw E) (te_st E)") auto
      from raw_fillsD [OF rf this] have bs2: "length bs2 = nat c" "c \<le> int len" by auto
      let ?E3 = "?E2\<lparr>te_mem := put_at (te_mem ?E2) rb bs2, te_raw := s1, te_st := st1\<rparr>"
      have "?d R_recv ?E2 = ?d (if c \<le> 0 then R_return c else R_write (nat c)) ?E3"
        using rv by (subst drive_io, simp, simp add: socket_recv_def recv_op_def)
          (simp add: recv_resume_def Let_def)
      with d2 nq have d3: "?d R_start E = ?d (if c \<le> 0 then R_return c else R_write (nat c)) ?E3" by simp
      have x1r: "sl_raw x1 = te_raw E" using arg_cong [OF x1(1), of sl_raw] by simp
      have x3: "stream_of ?E3 = x1\<lparr>sl_lib := l1, sl_raw := s1\<rparr>" using x1 by auto
      show ?thesis
      proof (cases "c \<le> 0")
        case True
        with run lo False sr n nq rv x1r have "r = c" "got = []" "xs' = x1\<lparr>sl_lib := l1, sl_raw := s1\<rparr>" "st' = st1"
          by (auto simp: ssl_recv_def engine_ssl_read_def Let_def)
        with True d3 x3 show ?thesis by (intro stop [of ?E3]) (auto simp: bytes_at_def)
      next
        case nc: False
        have f: "take (nat c) (filled len bs2) = bs2" using bs2 by (intro filled_full) auto
        obtain w l2 where wr: "bio_write lib bs2 l1 = (w, l2)" by (cases "bio_write lib bs2 l1")
        let ?E4 = "?E3\<lparr>te_lib := l2\<rparr>"
        let ?x4 = "x1\<lparr>sl_raw := s1, sl_lib := l2\<rparr>"
        have "stream_of ?E4 = (stream_of ?E1)\<lparr>sl_raw := s1, sl_lib := l2\<rparr>" by simp
        then have x4: "stream_of ?E4 = ?x4" unfolding x1(1) .
        have "?d (R_write (nat c)) ?E3 = ?d (if w \<le> 0 then R_return (- 1) else R_pending_read 0) ?E4"
          using wr bs2 by (subst drive_sync, simp, simp add: bytes_at_put) simp
        with d3 nc have d4: "?d R_start E = ?d (if w \<le> 0 then R_return (- 1) else R_pending_read 0) ?E4" by simp
        show ?thesis
        proof (cases "w \<le> 0")
          case True
          with run lo False sr n nq rv x1r nc f wr have "r = - 1" "got = []" "xs' = ?x4" "st' = st1"
            by (auto simp: ssl_recv_def engine_ssl_read_def engine_write_def Let_def)
          with True d4 x4 show ?thesis by (intro stop [of ?E4]) (auto simp: bytes_at_def)
        next
          case nw: False
          with run lo False sr n nq rv x1r nc f wr have
            loop: "recv_loop lib len [] (stream_of ?E4) = Some (r, got, xs')" and st': "st' = st1"
            unfolding x4 by (auto simp: ssl_recv_def engine_ssl_read_def engine_write_def Let_def
              split: Option.bind_splits)
          from drive_recv_loop [OF loop fb, of buf os raw x flag rb] len d4 nw st' show ?thesis
            by (auto simp: bytes_at_def)
        qed
      qed
    qed
  qed
qed

end
