(* ===== verification/Tls_Handshake.thy ===== *)
theory Tls_Handshake
  imports Tls_Env
begin

section \<open>\<^verbatim>\<open>ssl_stream::handshake\<close> as a coroutine\<close>

text \<open>
  The body of the coroutine with \<^verbatim>\<open>ssl_engine::perform\<close> in it, and that it does what the
  function \<open>handshake\<close> does.
\<close>

subsection \<open>The body\<close>

text \<open>
  From \<open>H_before\<close> to \<open>H_status\<close> the program is in \<^verbatim>\<open>perform\<close>: \<open>r\<close> is \<^verbatim>\<open>result\<close>, \<open>e\<close> is
  \<^verbatim>\<open>ssl_error\<close>, \<open>p\<close> is \<^verbatim>\<open>pending_output_after\<close>. In \<open>H_send\<close>, \<open>n\<close> bytes are in \<^verbatim>\<open>buf\<close>, at \<open>hb\<close>,
  and \<open>sent\<close> is \<^verbatim>\<open>bytes_sent\<close>.
\<close>

datatype hs_pc =
    H_set
  | H_before
  | H_op
  | H_error int
  | H_queue int int
  | H_pending int int
  | H_print int int int
  | H_status int
  | H_fail
  | H_fail_print int
  | H_recv
  | H_write nat
  | H_write_error int
  | H_read
  | H_read_error int
  | H_send nat nat
  | H_return "unit result"

definition hs_next :: "ssl_status \<Rightarrow> hs_pc" where
  "hs_next status =
     (if status = Ssl_ok then H_return (Inr ())
      else if status = Ssl_want_read then H_recv
      else if status = Ssl_want_write then H_read
      else H_fail)"

definition hs_more :: "nat \<Rightarrow> nat \<Rightarrow> hs_pc" where
  "hs_more n sent = (if sent < n then H_send n sent else H_before)"

fun hs_act :: "tls_stream \<Rightarrow> handshake_type \<Rightarrow> addr \<Rightarrow> hs_pc \<Rightarrow> (hs_pc, val) act" where
  "hs_act x ty hb H_set =
     Act_sync (if ty = Client then Sc_set_connect_state (tls_ses x) else Sc_set_accept_state (tls_ses x))
       (\<lambda>_. H_before)"
| "hs_act x ty hb H_before = Act_sync (Sc_bio_pending_write (tls_ses x)) (\<lambda>_. H_op)"
| "hs_act x ty hb H_op =
     Act_sync (if ty = Client then Sc_ssl_connect (tls_ses x) else Sc_ssl_accept (tls_ses x)) H_error"
| "hs_act x ty hb (H_error r) = Act_sync (Sc_ssl_get_error (tls_ses x) r) (H_queue r)"
| "hs_act x ty hb (H_queue r e) = Act_sync Sc_err_get_error (\<lambda>_. H_pending r e)"
| "hs_act x ty hb (H_pending r e) = Act_sync (Sc_bio_pending_write (tls_ses x)) (H_print r e)"
| "hs_act x ty hb (H_print r e p) =
     Act_sync Sc_err_print
       (\<lambda>_. if p > 0 then hs_next Ssl_want_write
            else if e = SSL_ERROR_SYSCALL then hs_next Ssl_error
            else H_status r)"
| "hs_act x ty hb (H_status r) =
     Act_sync (Sc_ssl_get_error (tls_ses x) r) (\<lambda>code. hs_next (ssl_status_of code))"
| "hs_act x ty hb H_fail = Act_sync Sc_err_get_error H_fail_print"
| "hs_act x ty hb (H_fail_print err) =
     Act_sync Sc_err_print (\<lambda>_. H_return (make_sys_error (to_int32 (- to_int32 err))))"
| "hs_act x ty hb H_recv =
     Act_io (socket_recv (tls_sock x) hb 4096 4096)
       (\<lambda>r. let r = recv_resume r in
          if r = 0 then H_return (make_custom_error E_SSL_HANDSHAKE_SOCKET_READ_EOF)
          else if r < 0 then H_return (make_sys_error (- r))
          else H_write (nat r))"
| "hs_act x ty hb (H_write n) =
     Act_sync (Sc_bio_write (tls_ses x) hb n) (\<lambda>res. if res \<le> 0 then H_write_error res else H_before)"
| "hs_act x ty hb (H_write_error n) =
     Act_sync (Sc_ssl_get_error (tls_ses x) n) (\<lambda>_. H_return (make_custom_error E_SSL_HANDSHAKE_FAILED))"
| "hs_act x ty hb H_read =
     Act_sync (Sc_bio_read (tls_ses x) hb 4096) (\<lambda>res. if res \<le> 0 then H_read_error res else hs_more (nat res) 0)"
| "hs_act x ty hb (H_read_error n) =
     Act_sync (Sc_ssl_get_error (tls_ses x) n) (\<lambda>_. H_return (make_custom_error E_SSL_HANDSHAKE_FAILED))"
| "hs_act x ty hb (H_send n sent) =
     Act_io (socket_send (tls_sock x) (hb + sent) (n - sent) 0)
       (\<lambda>r. let r = send_resume r in
          if r < 0 then H_return (make_sys_error (- r)) else hs_more n (sent + nat r))"
| "hs_act x ty hb (H_return r) = Act_return (V_status r)"

definition tls_handshake :: "tls_stream \<Rightarrow> handshake_type \<Rightarrow> addr \<Rightarrow> val body" where
  "tls_handshake x ty hb = flow_body (hs_act x ty hb) H_set"

subsection \<open>The coroutine and the function\<close>

definition hs_op :: "'l ssl_lib \<Rightarrow> handshake_type \<Rightarrow> 'l \<Rightarrow> int \<times> 'l" where
  "hs_op lib ty = (if ty = Client then ssl_connect lib else ssl_accept lib)"

lemma drive_perform:
  fixes E :: "('l, 's, 'o) tls_env"
  assumes "perform lib (hs_op lib ty) (te_lib E) = (status, l1)"
  shows "drive (tls_ops lib os raw x) (hs_act x ty hb) H_before E =
    drive (tls_ops lib os raw x) (hs_act x ty hb) (hs_next status) (E\<lparr>te_lib := l1\<rparr>)"
proof -
  let ?d = "drive (tls_ops lib os raw x) (hs_act x ty hb)"
  obtain r la where a: "hs_op lib ty (te_lib E) = (r, la)" by (cases "hs_op lib ty (te_lib E)")
  obtain q lb where b: "err_get_error lib la = (q, lb)" by (cases "err_get_error lib la")
  let ?e = "ssl_get_error lib la r" and ?lc = "err_print lib lb"
  have "?d H_before E = ?d H_op E" by (subst drive_sync, simp, simp) simp
  also have "\<dots> = ?d (H_error r) (E\<lparr>te_lib := la\<rparr>)"
    using a by (cases ty) (subst drive_sync, simp, simp add: hs_op_def, simp)+
  also have "\<dots> = ?d (H_queue r ?e) (E\<lparr>te_lib := la\<rparr>)" by (subst drive_sync, simp, simp) simp
  also have "\<dots> = ?d (H_pending r ?e) (E\<lparr>te_lib := lb\<rparr>)"
    using b by (subst drive_sync, simp, simp) simp
  also have "\<dots> = ?d (H_print r ?e (int (bio_pending_write lib lb))) (E\<lparr>te_lib := lb\<rparr>)"
    by (subst drive_sync, simp, simp) simp
  also have "\<dots> = ?d (if bio_pending_write lib lb > 0 then hs_next Ssl_want_write
      else if ?e = SSL_ERROR_SYSCALL then hs_next Ssl_error else H_status r) (E\<lparr>te_lib := ?lc\<rparr>)"
    by (subst drive_sync, simp, simp) simp
  finally have step: "?d H_before E = \<dots>" .
  have "?d (H_status r) (E\<lparr>te_lib := ?lc\<rparr>) = ?d (hs_next (get_ssl_status lib ?lc r)) (E\<lparr>te_lib := ?lc\<rparr>)"
    by (subst drive_sync, simp, simp) (simp add: get_ssl_status_of)
  with step assms a b show ?thesis by (auto simp: perform_def Let_def split: if_splits)
qed

lemma drive_hs_send:
  fixes E :: "('l, 's, 'o) tls_env"
  assumes "handshake_send_all raw out sent (te_raw E) (te_st E) = Some (e, s', st')"
    and "out = bytes_at (te_mem E) hb n"
  shows "drive (tls_ops lib os raw x) (hs_act x ty hb) (hs_more n sent) E =
    drive (tls_ops lib os raw x) (hs_act x ty hb)
      (case e of Inl r \<Rightarrow> H_return (Inl r) | Inr _ \<Rightarrow> H_before) (E\<lparr>te_raw := s', te_st := st'\<rparr>)"
proof -
  let ?d = "\<lambda>raw. drive (tls_ops lib os raw x) (hs_act x ty hb)"
  let ?P = "\<lambda>raw out sent s st y. \<forall>E. out = bytes_at (te_mem E) hb (length out) \<longrightarrow> te_raw E = s \<longrightarrow> te_st E = st \<longrightarrow>
      ?d raw (hs_more (length out) sent) E =
      ?d raw (case fst y of Inl r \<Rightarrow> H_return (Inl r) | Inr _ \<Rightarrow> H_before)
        (E\<lparr>te_raw := fst (snd y), te_st := snd (snd y)\<rparr>)"
  have "?P raw out sent s st y" if "handshake_send_all raw out sent s st = Some y"
    for raw :: "('s, 'o) raw_stream" and out sent s st y
  proof (rule handshake_send_all.raw_induct [where P = ?P, OF _ that], goal_cases)
    case (1 sa raw out sent s st y)
    show ?case
    proof (intro allI impI)
      fix E :: "('l, 's, 'o) tls_env"
      assume E: "out = bytes_at (te_mem E) hb (length out)" "te_raw E = s" "te_st E = st"
      let ?n = "length out"
      show "?d raw (hs_more ?n sent) E =
        ?d raw (case fst y of Inl r \<Rightarrow> H_return (Inl r) | Inr _ \<Rightarrow> H_before)
          (E\<lparr>te_raw := fst (snd y), te_st := snd (snd y)\<rparr>)"
      proof (cases "sent < ?n")
        case False
        with 1(2) E(2,3) show ?thesis by (auto simp: hs_more_def)
      next
        case True
        obtain r s1 st1 where r: "rs_send raw (drop sent out) 0 s st = (r, s1, st1)"
          by (cases "rs_send raw (drop sent out) 0 s st") auto
        let ?E1 = "E\<lparr>te_raw := s1, te_st := st1\<rparr>"
        have "bytes_at (te_mem E) (hb + sent) (?n - sent) = drop sent out"
          using bytes_at_drop [of sent "te_mem E" hb ?n] E(1) by simp
        then have step: "?d raw (H_send ?n sent) E =
          ?d raw (if r < 0 then H_return (make_sys_error (- r)) else hs_more ?n (sent + nat r)) ?E1"
          using r E(2,3)
          by (subst drive_io, simp, simp add: socket_send_def send_op_def) (simp add: send_resume_def)
        show ?thesis
        proof (cases "r < 0")
          case True
          with step 1(2) r \<open>sent < ?n\<close> show ?thesis by (auto simp: hs_more_def make_sys_error_def)
        next
          case False
          with 1(2) r \<open>sent < ?n\<close> have "sa raw out (sent + nat r) s1 st1 = Some y" by auto
          from 1(1) [OF this, rule_format, of ?E1] step False E(1) \<open>sent < ?n\<close> show ?thesis
            by (simp add: hs_more_def)
        qed
      qed
    qed
  qed
  from this [OF assms(1)] assms(2) show ?thesis by auto
qed

lemma drive_hs_loop:
  fixes E :: "('l, 's, 'o) tls_env"
  assumes "handshake_loop lib raw (hs_op lib ty) (te_lib E) (te_raw E) (te_st E) = Some (e, l', s', st')"
    and "fills_buffers lib" and "raw_fills raw"
  shows "\<exists>m'. drive (tls_ops lib os raw x) (hs_act x ty hb) H_before E =
    Some (Inr (V_status e), (E\<lparr>te_mem := m', te_lib := l', te_raw := s', te_st := st'\<rparr>))"
proof -
  let ?d = "\<lambda>lib raw. drive (tls_ops lib os raw x) (hs_act x ty hb)"
  let ?P = "\<lambda>lib raw op l s st y. op = hs_op lib ty \<longrightarrow> fills_buffers lib \<longrightarrow> raw_fills raw \<longrightarrow>
      (\<forall>E. te_lib E = l \<longrightarrow> te_raw E = s \<longrightarrow> te_st E = st \<longrightarrow> (\<exists>m'. ?d lib raw H_before E =
        Some (Inr (V_status (fst y)), (E\<lparr>te_mem := m', te_lib := fst (snd y), te_raw := fst (snd (snd y)), te_st := snd (snd (snd y))\<rparr>))))"
  have "?P lib raw op l s st y" if "handshake_loop lib raw op l s st = Some y"
    for lib :: "'l ssl_lib" and raw :: "('s, 'o) raw_stream" and op l s st y
  proof (rule handshake_loop.raw_induct [where P = ?P, OF _ that], goal_cases)
    case (1 hl lib raw op l s st y)
    show ?case
    proof (intro impI allI)
      fix E :: "('l, 's, 'o) tls_env"
      assume op: "op = hs_op lib ty" and fb: "fills_buffers lib" and rf: "raw_fills raw"
        and E: "te_lib E = l" "te_raw E = s" "te_st E = st"
      let ?C = "\<exists>m'. ?d lib raw H_before E =
        Some (Inr (V_status (fst y)), (E\<lparr>te_mem := m', te_lib := fst (snd y), te_raw := fst (snd (snd y)), te_st := snd (snd (snd y))\<rparr>))"
      have go: ?C if "?d lib raw H_before E = ?d lib raw H_before E'" "hl lib raw op (te_lib E') (te_raw E') (te_st E') = Some y"
        "te_left E' = te_left E" "te_cap E' = te_cap E" for E' :: "('l, 's, 'o) tls_env"
        using 1(1) [OF that(2), rule_format, of E'] that(1) op fb rf tls_env_upd(1) [OF that(3,4)] by simp
      have stop: ?C if "?d lib raw H_before E = ?d lib raw (H_return r) E'"
        "y = (r, te_lib E', te_raw E', te_st E')" "te_left E' = te_left E" "te_cap E' = te_cap E" for r and E' :: "('l, 's, 'o) tls_env"
        using that(1,2) tls_env_upd(2) [OF that(3,4)] by (auto simp: drive_return intro!: exI [of _ "te_mem E'"])
      obtain status l1 where pf: "perform lib op l = (status, l1)" by (cases "perform lib op l")
      let ?E1 = "E\<lparr>te_lib := l1\<rparr>"
      have d1: "?d lib raw H_before E = ?d lib raw (hs_next status) ?E1"
        using drive_perform [of lib ty E] pf op E by simp
      consider (ok) "status = Ssl_ok" | (rd) "status = Ssl_want_read" | (wr) "status = Ssl_want_write"
        | (fail) "status \<noteq> Ssl_ok" "status \<noteq> Ssl_want_read" "status \<noteq> Ssl_want_write" by blast
      then show ?C
      proof cases
        case ok
        with 1(2) pf d1 E show ?thesis by (intro stop [of "Inr ()" ?E1]) (auto simp: hs_next_def)
      next
        case rd
        obtain r bs s1 st1 where rv: "rs_recv raw 4096 4096 s st = (r, bs, s1, st1)"
          by (cases "rs_recv raw 4096 4096 s st") auto
        from raw_fillsD [OF rf this] have bs: "length bs = nat r" "r \<le> 4096" by auto
        let ?m = "put_at (te_mem E) hb bs"
        let ?E2 = "?E1\<lparr>te_mem := ?m, te_raw := s1, te_st := st1\<rparr>"
        have "?d lib raw H_recv ?E1 = ?d lib raw
            (if r = 0 then H_return (make_custom_error E_SSL_HANDSHAKE_SOCKET_READ_EOF)
             else if r < 0 then H_return (make_sys_error (- r)) else H_write (nat r)) ?E2"
          using rv E(2,3) by (subst drive_io, simp, simp add: socket_recv_def recv_op_def)
            (simp add: recv_resume_def Let_def)
        with d1 rd have d2: "?d lib raw H_before E = ?d lib raw
            (if r = 0 then H_return (make_custom_error E_SSL_HANDSHAKE_SOCKET_READ_EOF)
             else if r < 0 then H_return (make_sys_error (- r)) else H_write (nat r)) ?E2"
          by (simp add: hs_next_def)
        show ?thesis
        proof (cases "r \<le> 0")
          case True
          with 1(2) pf rd rv have "y = (if r = 0 then make_custom_error E_SSL_HANDSHAKE_SOCKET_READ_EOF
              else make_sys_error (- r), l1, s1, st1)" by (auto split: if_splits)
          with True d2 show ?thesis by (intro stop [of _ ?E2]) auto
        next
          case False
          obtain n l2 where w: "bio_write lib bs l1 = (n, l2)" by (cases "bio_write lib bs l1")
          have f: "take (nat r) (filled 4096 bs) = bs" using bs by (intro filled_full) auto
          have "bytes_at ?m hb (nat r) = bs" using bs by (simp add: bytes_at_put)
          with w have "?d lib raw (H_write (nat r)) ?E2 =
              ?d lib raw (if n \<le> 0 then H_write_error n else H_before) (?E2\<lparr>te_lib := l2\<rparr>)"
            by (subst drive_sync, simp, simp) simp
          with d2 False have d3: "?d lib raw H_before E =
              ?d lib raw (if n \<le> 0 then H_write_error n else H_before) (?E2\<lparr>te_lib := l2\<rparr>)" by simp
          show ?thesis
          proof (cases "n \<le> 0")
            case True
            have "?d lib raw (H_write_error n) (?E2\<lparr>te_lib := l2\<rparr>) =
                ?d lib raw (H_return (make_custom_error E_SSL_HANDSHAKE_FAILED)) (?E2\<lparr>te_lib := l2\<rparr>)"
              by (subst drive_sync, simp, simp) simp
            with 1(2) pf rd rv w f True False d3 show ?thesis
              by (intro stop [of "make_custom_error E_SSL_HANDSHAKE_FAILED" "?E2\<lparr>te_lib := l2\<rparr>"])
                (auto simp: engine_write_def)
          next
            case False
            with 1(2) pf rd rv w f d3 \<open>\<not> r \<le> 0\<close> show ?thesis
              by (intro go [of "?E2\<lparr>te_lib := l2\<rparr>"]) (auto simp: engine_write_def)
          qed
        qed
      next
        case wr
        obtain n out l2 where r: "bio_read lib 4096 l1 = (n, out, l2)" by (cases "bio_read lib 4096 l1")
        from fills_bio [OF fb this] have out: "length out = nat n" "n \<le> 4096" by auto
        let ?m = "put_at (te_mem E) hb out"
        let ?E2 = "E\<lparr>te_mem := ?m, te_lib := l2\<rparr>"
        have "?d lib raw H_read ?E1 = ?d lib raw (if n \<le> 0 then H_read_error n else hs_more (nat n) 0) ?E2"
          using r by (subst drive_sync, simp, simp) simp
        with d1 wr have d2: "?d lib raw H_before E =
            ?d lib raw (if n \<le> 0 then H_read_error n else hs_more (nat n) 0) ?E2"
          by (simp add: hs_next_def)
        show ?thesis
        proof (cases "n \<le> 0")
          case True
          have "?d lib raw (H_read_error n) ?E2 =
              ?d lib raw (H_return (make_custom_error E_SSL_HANDSHAKE_FAILED)) ?E2"
            by (subst drive_sync, simp, simp) simp
          with 1(2) pf wr r True d2 E show ?thesis
            by (intro stop [of "make_custom_error E_SSL_HANDSHAKE_FAILED" ?E2]) (auto simp: engine_read_def)
        next
          case False
          have f: "take (nat n) (filled 4096 out) = out" using out by (intro filled_full) auto
          from 1(2) pf wr r False f obtain e2 s2 st2 where
            sa: "handshake_send_all raw out 0 s st = Some (e2, s2, st2)" and
            rest: "(case e2 of Inl err \<Rightarrow> Some (Inl err, l2, s2, st2) | Inr _ \<Rightarrow> hl lib raw op l2 s2 st2) = Some y"
            by (auto simp: engine_read_def split: Option.bind_splits)
          let ?E3 = "?E2\<lparr>te_raw := s2, te_st := st2\<rparr>"
          have "out = bytes_at ?m hb (nat n)" using out by (simp add: bytes_at_put)
          with drive_hs_send [of raw out 0 ?E2 e2 s2 st2 hb "nat n" lib os x ty] sa E d2 False have
            d3: "?d lib raw H_before E = ?d lib raw (case e2 of Inl r \<Rightarrow> H_return (Inl r) | Inr _ \<Rightarrow> H_before) ?E3"
            by simp
          show ?thesis
          proof (cases e2)
            case (Inl err)
            with rest d3 show ?thesis by (intro stop [of "Inl err" ?E3]) auto
          next
            case (Inr u)
            with rest d3 show ?thesis by (intro go [of ?E3]) auto
          qed
        qed
      next
        case fail
        obtain err l2 where er: "err_get_error lib l1 = (err, l2)" by (cases "err_get_error lib l1")
        have "?d lib raw H_fail ?E1 = ?d lib raw (H_fail_print err) (E\<lparr>te_lib := l2\<rparr>)"
          using er by (subst drive_sync, simp, simp) simp
        also have "\<dots> = ?d lib raw (H_return (make_sys_error (to_int32 (- to_int32 err))))
            (E\<lparr>te_lib := err_print lib l2\<rparr>)"
          by (subst drive_sync, simp, simp) simp
        finally show ?thesis using d1 fail 1(2) pf er E
          by (intro stop [of "make_sys_error (to_int32 (- to_int32 err))" "E\<lparr>te_lib := err_print lib l2\<rparr>"])
            (auto simp: hs_next_def)
      qed
    qed
  qed
  from this [OF assms(1)] assms(2-) show ?thesis by auto
qed

end
