(* ===== verification/Straight_Runs.thy ===== *)
theory Straight_Runs
  imports Runtime_Results Coro_Flow
begin

section \<open>Direct executions as runs\<close>

text \<open>
  The other direction: what the specification allows, the runtime does, on a ring that
  completes the submissions with the results of the execution. It is shown for executions
  without launches and joins, calls of other coroutines included.
\<close>

subsection \<open>Stretches of a direct execution\<close>

text \<open>\<open>goes ctx b es b'\<close>: run as a function with blocking calls, \<open>b\<close> does \<open>es\<close> and has \<open>b'\<close> left to do.\<close>

inductive goes :: "addr \<Rightarrow> 'v body \<Rightarrow> 'v event list \<Rightarrow> 'v body \<Rightarrow> bool" for ctx where
  g_here: "goes ctx b [] b"
| g_io: "goes ctx (k i) es b' \<Longrightarrow> goes ctx (Co_io op k) (Io op i # es) b'"
| g_context: "goes ctx (kc (Some ctx)) es b' \<Longrightarrow> goes ctx (Co_context kc) es b'"
| g_sync: "goes ctx (ks i) es b' \<Longrightarrow> goes ctx (Co_sync c ks) (Sync c i # es) b'"
| g_call: "goes ctx b es1 (result_body r1) \<Longrightarrow> goes ctx (kr r1) es2 b' \<Longrightarrow> goes ctx (Co_call b kr) (es1 @ es2) b'"
| g_call_fails: "goes ctx (kr (Inl Bad_alloc)) es b' \<Longrightarrow> goes ctx (Co_call b kr) es b'"
| g_launch_fails: "goes ctx (kl (Inl Bad_alloc)) es b' \<Longrightarrow> goes ctx (Co_launch b kl) es b'"

lemma goes_direct: "goes ctx b es b' \<Longrightarrow> direct ctx b' es' r \<Longrightarrow> direct ctx b (es @ es') r"
proof (induction arbitrary: es' r rule: goes.induct)
  case (g_call b es1 r1 kr es2 b')
  from g_call.IH(1) [OF d_end] have "direct ctx b es1 r1" by simp
  from d_call [where k = kr, OF this g_call.IH(2) [OF g_call.prems]] show ?case by simp
qed (auto intro: direct.intros)

fun forks :: "'v event \<Rightarrow> bool" where
  "forks (Launch t b) \<longleftrightarrow> True"
| "forks (Join t r) \<longleftrightarrow> True"
| "forks _ \<longleftrightarrow> False"

lemma direct_goes: "direct ctx b es r \<Longrightarrow> \<forall>e \<in> set es. \<not> forks e \<Longrightarrow> goes ctx b es (result_body r)"
  by (induction rule: direct.induct) (auto intro: goes.intros)

lemma answers_no_forks: "answers env es E = Some F \<Longrightarrow> \<forall>e \<in> set es. \<not> forks e"
proof (induction es arbitrary: E)
  case (Cons e es)
  then show ?case by (cases e) (auto split: Option.bind_splits)
qed simp

subsection \<open>A scripted ring\<close>

text \<open>A ring that completes the oldest of its entries with the next of given results.\<close>

definition script_ring :: "(udata list \<times> int list) uring_lib" where
  "script_ring = \<lparr>get_sqe = (\<lambda>r. (Some 0, r)), sqe_set_data = (\<lambda>n ud (p, rs). (p @ [ud], rs)),
     sqe_prep = (\<lambda>n op r. r), ring_submit = (\<lambda>r. (1, r)),
     wait_cqe = (\<lambda>c (p, rs). case p of [] \<Rightarrow> (0, None, (p, rs))
       | ud # _ \<Rightarrow> (0, Some \<lparr>user_data = ud, res = (case rs of [] \<Rightarrow> 0 | i # _ \<Rightarrow> i)\<rparr>, (p, tl rs))),
     cqe_seen = (\<lambda>q (p, rs). (remove1 (user_data q) p, rs))\<rparr>"

lemma script_ring_pend: "pend_contract script_ring (\<lambda>r. mset (fst r))"
  unfolding pend_contract_def script_ring_def by (auto split: list.splits)

fun io_results :: "'v event list \<Rightarrow> int list" where
  "io_results [] = []"
| "io_results (Io op i # es) = i # io_results es"
| "io_results (_ # es) = io_results es"

lemma io_results_append [simp]: "io_results (es @ es') = io_results es @ io_results es'"
  by (induction es rule: io_results.induct) auto

text \<open>
  The ring holds at most the completion the loop is working on; \<open>h\<close> runs, in context 7, and
  no I/O is pending.
\<close>

definition scripted ::
  "int list \<Rightarrow> cqe option \<Rightarrow> coro \<Rightarrow> (udata list \<times> int list, 'v) rworld \<Rightarrow> bool" where
  "scripted rs s h w \<longleftrightarrow>
     (s = None \<and> ring w = ([], rs) \<or> (\<exists>i. s = Some \<lparr>user_data = Ud_cell 0, res = i\<rparr>) \<and> ring w = ([Ud_cell 0], rs)) \<and>
     cells w = Map.empty \<and> this_ctx w = 7 \<and> finite (dom (frames w)) \<and> conts w h = None \<and>
     (\<exists>f. frames w h = Some f \<and> context_ptr (promise f) = Some 7)"

text \<open>Afterwards: the frames that were there, and their fibers, are as before.\<close>

definition undisturbed :: "('r, 'v) rworld \<Rightarrow> ('r, 'v) rworld \<Rightarrow> bool" where
  "undisturbed w w' \<longleftrightarrow>
     conts w' = conts w \<and> owned w' = owned w \<and>
     (\<forall>x \<in> dom (frames w). frames w' x = frames w x \<and> fib w' x = fib w x)"

lemma undisturbed_refl [simp]: "undisturbed w w"
  by (simp add: undisturbed_def)

lemma undisturbed_trans: "undisturbed w w1 \<Longrightarrow> undisturbed w1 w2 \<Longrightarrow> undisturbed w w2"
  unfolding undisturbed_def by (metis domIff)

definition reaches ::
  "cqe option \<Rightarrow> (coro \<times> 'v body) list \<Rightarrow> coro \<Rightarrow> 'v body \<Rightarrow> (udata list \<times> int list, 'v) rworld \<Rightarrow>
   'v event list \<Rightarrow> 'v body \<Rightarrow> int list \<Rightarrow> bool" where
  "reaches s stk h b w es b' rs \<longleftrightarrow>
     (\<exists>ls s' w'. rsteps script_ring (Run s stk h b, w) ls (Run s' stk h b', w') \<and>
        trace (fib w h) ls = es \<and> (\<forall>g. g \<noteq> fib w h \<longrightarrow> trace g ls = []) \<and>
        scripted rs s' h w' \<and> undisturbed w w')"

lemma reaches_step:
  assumes "rsteps script_ring (Run s stk h b, w) ls (Run s1 stk h b1, w1)"
    and "trace (fib w h) ls = es" "\<forall>g. g \<noteq> fib w h \<longrightarrow> trace g ls = []"
    and "undisturbed w w1" and "frames w h \<noteq> None"
    and "reaches s1 stk h b1 w1 es' b' rs"
  shows "reaches s stk h b w (es @ es') b' rs"
proof -
  from assms(4,5) have fib: "fib w1 h = fib w h" by (auto simp: undisturbed_def)
  from assms(6) obtain ls' s' w' where run: "rsteps script_ring (Run s1 stk h b1, w1) ls' (Run s' stk h b', w')"
    and r: "trace (fib w1 h) ls' = es'" "\<forall>g. g \<noteq> fib w1 h \<longrightarrow> trace g ls' = []" "scripted rs s' h w'"
      "undisturbed w1 w'" unfolding reaches_def by blast
  from rsteps_trans [OF run assms(1)] assms(2,3) r undisturbed_trans [OF assms(4) r(4)] show ?thesis
    unfolding reaches_def fib by (intro exI [of _ "ls @ ls'"] exI) auto
qed

subsection \<open>The runtime follows\<close>

lemma script_io:
  assumes sc: "scripted (i # rs) s h w"
  shows "\<exists>ls s1 w1. rsteps script_ring (Run s [] h (Co_io op k), w) ls (Run s1 [] h (k i), w1) \<and>
    trace (fib w h) ls = [Io op i] \<and> (\<forall>g. g \<noteq> fib w h \<longrightarrow> trace g ls = []) \<and>
    scripted rs s1 h w1 \<and> undisturbed w w1 \<and> frames w1 = frames w"
proof -
  from sc obtain p where p: "ring w = (p, i # rs)" "p = [] \<or> p = [Ud_cell 0]" and
    w: "cells w = Map.empty" "conts w h = None" by (auto simp: scripted_def)
  let ?d = "\<lparr>io_handle = Some h, io_result = 0\<rparr>" and ?q = "\<lparr>user_data = Ud_cell 0, res = i\<rparr>"
  let ?aw = "\<lparr>aw_ring = True, aw_sqe = Some 0, aw_data = 0\<rparr>"
  let ?w0 = "w\<lparr>ring := (p @ [Ud_cell 0], i # rs), cells := [0 \<mapsto> \<lparr>io_handle = None, io_result = 0\<rparr>]\<rparr>"
  let ?w1 = "?w0\<lparr>cells := [0 \<mapsto> ?d]\<rparr>"
  let ?w2 = "w\<lparr>ring := ([Ud_cell 0], i # rs), cells := [0 \<mapsto> ?d], conts := (conts w)(h \<mapsto> Cont_io 0 op k)\<rparr>"
  let ?w3 = "w\<lparr>ring := ([Ud_cell 0], rs)\<rparr>"
  have new: "awaiter_new script_ring op 0 w = (?aw, ?w0)"
    using p(1) w(1) by (simp add: awaiter_new_def script_ring_def)
  have susp: "await_suspend script_ring ?aw h ?w0 = Ret ?w1"
    by (simp add: await_suspend_def script_ring_def)
  have "cells w 0 = None" "\<not> await_ready ?aw" by (simp_all add: w(1) await_ready_def)
  note s1 = io_suspend [OF this(1) new this(2) susp, of s "[]" k]
  have "return_to script_ring s [] (?w1\<lparr>conts := (conts ?w1)(h \<mapsto> Cont_io 0 op k)\<rparr>) = (Idle, ?w2)"
    using sc p by (auto simp: return_to_def leave_def scripted_def script_ring_def intro!: rworld.equality)
  with s1 have 1: "rstep script_ring (Run s [] h (Co_io op k), w) [] (Idle, ?w2)" by simp
  have "wait_cqe script_ring None (ring ?w2) = (0, Some ?q, ([Ud_cell 0], rs))" by (simp add: script_ring_def)
  note s2 = loop_cell [OF this, of 0 ?d h op k]
  have "?w2\<lparr>ring := ([Ud_cell 0], rs), cells := (cells ?w2)(0 := None), conts := (conts ?w2)(h := None)\<rparr> = ?w3"
    using w by (auto intro!: rworld.equality)
  with s2 have 2: "rstep script_ring (Idle, ?w2) [Event (fib w h) (Io op i)] (Run (Some ?q) [] h (k i), ?w3)" by simp
  from rsteps_trans [OF rsteps_one [OF 2] rsteps_one [OF 1]] sc show ?thesis
    by (intro exI [of _ "[] @ [Event (fib w h) (Io op i)]"] exI [of _ "Some ?q"] exI [of _ ?w3])
      (auto simp: scripted_def undisturbed_def)
qed

lemma script_call:
  assumes sc: "scripted rs s h w" and t: "frames w t = None" "conts w t = None"
  shows "\<exists>w2. rstep script_ring (Run s stk h (Co_call b kr), w) [Called t] (Run s stk t b, w2) \<and>
    scripted rs s t w2 \<and> conts w2 = (conts w)(h \<mapsto> Cont_call t kr) \<and> owned w2 = owned w \<and>
    fib w2 = (fib w)(t := fib w h) \<and>
    (\<exists>f. frames w2 = (frames w)(t \<mapsto> f) \<and> caller (promise f) = Some h \<and> ex (promise f) = None)"
proof -
  from sc obtain g where g: "frames w h = Some g" "context_ptr (promise g) = Some 7" by (auto simp: scripted_def)
  with t have ht: "h \<noteq> t" by auto
  let ?fn = "\<lparr>promise = new_promise, at_end = False\<rparr> :: 'v frame"
  let ?f = "\<lparr>promise = new_promise\<lparr>caller := Some h, context_ptr := Some 7\<rparr>, at_end = False\<rparr> :: 'v frame"
  let ?wa = "w\<lparr>frames := (frames w)(t \<mapsto> ?fn)\<rparr>" and ?wb = "w\<lparr>frames := (frames w)(t \<mapsto> ?f)\<rparr>"
  have "task_new (Some t) w = Ret (\<lparr>t_handle = Some t\<rparr>, ?wa)" by (simp add: task_new_def)
  moreover have "await_transform_rvalue \<lparr>t_handle = Some t\<rparr> = (Some t, \<lparr>t_handle = None\<rparr>)"
    by (simp add: await_transform_rvalue_def task_take_handle_def)
  moreover have "task_await_ready (Some t) ?wa = Ret False" by (simp add: task_await_ready_def)
  moreover have "task_await_suspend (Some t) h ?wa = Ret (Resume t, ?wb)"
    using g ht by (simp add: task_await_suspend_def new_promise_def put_promise_def is_daemon_def)
  ultimately have "rstep script_ring (Run s stk h (Co_call b kr), w) [Called t]
      (Run s stk t b, ?wb\<lparr>conts := (conts w)(h \<mapsto> Cont_call t kr), fib := (fib w)(t := fib w h)\<rparr>)"
    using t(1) rstep.call [where w = w and t = t and tk = "\<lparr>t_handle = Some t\<rparr>" and ?w1.0 = ?wa
        and callee = "Some t" and tk' = "\<lparr>t_handle = None\<rparr>" and h = h and ?w2.0 = ?wb and lib = script_ring
        and s = s and stk = stk and b = b and kr = kr] by simp
  with sc t ht show ?thesis
    by (intro exI [of _ "?wb\<lparr>conts := (conts w)(h \<mapsto> Cont_call t kr), fib := (fib w)(t := fib w h)\<rparr>"] conjI)
      (auto simp: scripted_def new_promise_def)
qed

lemma script_return:
  assumes sc: "scripted rs s t w" and f: "frames w t = Some f" "caller (promise f) = Some h" "ex (promise f) = None"
    and k: "conts w h = Some (Cont_call t kr)" and fib: "fib w t = fib w h"
    and g: "frames w h = Some g" "context_ptr (promise g) = Some 7" and ht: "h \<noteq> t"
  shows "\<exists>w2. rstep script_ring (Run s stk t (result_body r), w) [] (Run s stk h (kr r), w2) \<and>
    scripted rs s h w2 \<and> conts w2 = (conts w)(h := None) \<and> owned w2 = owned w \<and> fib w2 = fib w \<and>
    (\<exists>f'. frames w2 = (frames w)(t \<mapsto> f'))"
proof -
  let ?f = "ended_frame f r"
  let ?w1 = "w\<lparr>frames := (frames w)(t \<mapsto> ?f)\<rparr>"
  have c: "task_complete script_ring t r w = Ret (Resume h, ?w1)"
    using f by (auto simp: task_complete_def final_await_suspend_def ended_frame_def Let_def split: sum.splits)
  have res: "to_sum (task_await_resume (Some t) ?w1) = Some r"
    using f(3) by (cases r) (simp_all add: task_await_resume_def get_value_def check_error_def ended_frame_def)
  from finish_awaited [OF c fib _ res] k have
    "rstep script_ring (Run s stk t (result_body r), w) [] (Run s stk h (kr r), ?w1\<lparr>conts := (conts w)(h := None)\<rparr>)"
    by simp
  with sc g ht show ?thesis
    by (intro exI [of _ "?w1\<lparr>conts := (conts w)(h := None)\<rparr>"] conjI) (auto simp: scripted_def)
qed

lemma goes_reaches:
  "goes 7 b es b' \<Longrightarrow> scripted (io_results es @ rs) s h w \<Longrightarrow> stk = [] \<or> io_results es = [] \<Longrightarrow>
   dom (conts w) \<subseteq> dom (frames w) \<Longrightarrow> reaches s stk h b w es b' rs"
proof (induction arbitrary: rs s h w stk rule: goes.induct)
  case (g_here b)
  then show ?case unfolding reaches_def by (intro exI [of _ "[]"] exI) (auto intro: rs_refl)
next
  case (g_io k i es b' op)
  from g_io.prems script_io [of i "io_results es @ rs" s h w op k] obtain ls s1 w1 where
    1: "rsteps script_ring (Run s [] h (Co_io op k), w) ls (Run s1 [] h (k i), w1)"
      "trace (fib w h) ls = [Io op i]" "\<forall>g. g \<noteq> fib w h \<longrightarrow> trace g ls = []"
      "scripted (io_results es @ rs) s1 h w1" "undisturbed w w1" "frames w1 = frames w" by auto
  have "dom (conts w1) \<subseteq> dom (frames w1)" using 1(5,6) g_io.prems(3) by (simp add: undisturbed_def)
  from g_io.IH [OF 1(4) _ this, of "[]"] g_io.prems have "reaches s1 [] h (k i) w1 es b' rs" by simp
  from reaches_step [OF 1(1,2,3,5) _ this] g_io.prems show ?case by (auto simp: scripted_def)
next
  case (g_context kc es b')
  from g_context.prems have "context_await h w = Ret (Some 7)" by (auto simp: context_await_def scripted_def)
  note 1 = rsteps_one [OF ctx [OF this, where lib = script_ring and s = s and stk = stk and kc = kc]]
  from g_context.IH [OF g_context.prems] have "reaches s stk h (kc (Some 7)) w es b' rs" .
  from reaches_step [OF 1 _ _ _ _ this] g_context.prems(1) show ?case by (auto simp: scripted_def)
next
  case (g_sync ks i es b' c)
  note 1 = rsteps_one [OF sync [where lib = script_ring and s = s and stk = stk and h = h and c = c and kc = ks and w = w and i = i]]
  from g_sync have "reaches s stk h (ks i) w es b' rs" by simp
  from reaches_step [OF 1 _ _ _ _ this, of "[Sync c i]"] g_sync.prems(1) show ?case by (auto simp: scripted_def)
next
  case (g_call b es1 r1 kr es2 b')
  have "finite (dom (frames w))" using g_call.prems(1) by (auto simp: scripted_def)
  then obtain t where "t \<notin> dom (frames w)" using ex_new_if_finite infinite_UNIV_nat by blast
  then have t: "frames w t = None" "conts w t = None" using g_call.prems(3) by auto
  have sc: "scripted (io_results es1 @ io_results es2 @ rs) s h w" using g_call.prems(1) by simp
  then obtain g where g: "frames w h = Some g" "context_ptr (promise g) = Some 7" by (auto simp: scripted_def)
  with t have ht: "h \<noteq> t" by auto
  from script_call [OF sc t, of stk b kr] obtain w2 f where
    1: "rstep script_ring (Run s stk h (Co_call b kr), w) [Called t] (Run s stk t b, w2)"
    and w2: "scripted (io_results es1 @ io_results es2 @ rs) s t w2" "conts w2 = (conts w)(h \<mapsto> Cont_call t kr)"
      "owned w2 = owned w" "fib w2 = (fib w)(t := fib w h)" "frames w2 = (frames w)(t \<mapsto> f)"
      "caller (promise f) = Some h" "ex (promise f) = None" by blast
  have "dom (conts w2) \<subseteq> dom (frames w2)" using g_call.prems(3) g(1) w2(2,5) by auto
  from g_call.IH(1) [OF w2(1) _ this, of stk] g_call.prems(2) have
    "reaches s stk t b w2 es1 (result_body r1) (io_results es2 @ rs)" by auto
  then obtain ls2 s3 w3 where
    2: "rsteps script_ring (Run s stk t b, w2) ls2 (Run s3 stk t (result_body r1), w3)"
    and tr2: "trace (fib w h) ls2 = es1" "\<forall>g. g \<noteq> fib w h \<longrightarrow> trace g ls2 = []"
    and w3: "scripted (io_results es2 @ rs) s3 t w3" "undisturbed w2 w3"
    unfolding reaches_def by (auto simp: w2(4))
  from w3(2) have u: "frames w3 x = frames w2 x \<and> fib w3 x = fib w2 x" if "frames w2 x \<noteq> None" for x
    using that unfolding undisturbed_def by blast
  have w3': "frames w3 t = Some f" "frames w3 h = Some g" "conts w3 h = Some (Cont_call t kr)" "fib w3 t = fib w3 h"
    using w3(2) w2 g ht u [of h] u [of t] by (simp_all add: undisturbed_def)
  from script_return [OF w3(1) w3'(1) w2(6,7) w3'(3,4,2) g(2) ht, of stk r1] obtain w4 f' where
    3: "rstep script_ring (Run s3 stk t (result_body r1), w3) [] (Run s3 stk h (kr r1), w4)"
    and w4: "scripted (io_results es2 @ rs) s3 h w4" "conts w4 = (conts w3)(h := None)" "owned w4 = owned w3"
      "fib w4 = fib w3" "frames w4 = (frames w3)(t \<mapsto> f')" by blast
  have und: "undisturbed w w4"
    using w2 w3(2) w4 t sc ht unfolding undisturbed_def scripted_def by (auto simp: fun_upd_idem)
  have run: "rsteps script_ring (Run s stk h (Co_call b kr), w) ([Called t] @ ls2 @ []) (Run s3 stk h (kr r1), w4)"
    using rsteps_trans [OF rsteps_trans [OF rsteps_one [OF 3] 2] rsteps_one [OF 1]] by simp
  have "dom (conts w4) \<subseteq> dom (frames w4)"
  proof
    fix x assume "x \<in> dom (conts w4)"
    with und g_call.prems(3) have "x \<in> dom (frames w)" by (auto simp: undisturbed_def)
    with und show "x \<in> dom (frames w4)" unfolding undisturbed_def by (metis domIff)
  qed
  from g_call.IH(2) [OF w4(1) _ this, of stk] g_call.prems(2) have "reaches s3 stk h (kr r1) w4 es2 b' rs" by auto
  from reaches_step [OF run _ _ und _ this, of es1] tr2 g(1) show ?case by simp
next
  case (g_call_fails kr es b' b)
  have "task_new None w = Thrown Bad_alloc" by (simp add: task_new_def)
  note 1 = rsteps_one [OF call_fails [OF this, where lib = script_ring and s = s and stk = stk and h = h and b = b and kr = kr]]
  from g_call_fails have "reaches s stk h (kr (Inl Bad_alloc)) w es b' rs" by simp
  from reaches_step [OF 1 _ _ _ _ this] g_call_fails.prems(1) show ?case by (auto simp: scripted_def)
next
  case (g_launch_fails kl es b' b)
  have "task_new None w = Thrown Bad_alloc" by (simp add: task_new_def)
  note 1 = rsteps_one [OF launch_fails [OF this, where lib = script_ring and s = s and stk = stk and h = h and b = b and kl = kl]]
  from g_launch_fails have "reaches s stk h (kl (Inl Bad_alloc)) w es b' rs" by simp
  from reaches_step [OF 1 _ _ _ _ this] g_launch_fails.prems(1) show ?case by (auto simp: scripted_def)
qed

text \<open>A launched coroutine that ends without suspending runs inside the launch.\<close>

lemma script_launch:
  assumes sc: "scripted rs s h w" and dom: "dom (conts w) \<subseteq> dom (frames w)"
    and b: "goes 7 b es (result_body r)" "io_results es = []"
  shows "\<exists>t ls s' w'. frames w t = None \<and>
    rsteps script_ring (Run s [] h (Co_launch b kl), w) ls (Run s' [] h (kl (Inr t)), w') \<and>
    (\<forall>g. trace g ls = (if g = fib w h then [Launch t b] else []) @ (if g = Some t then es @ [Done r] else []))"
proof -
  from sc have w: "this_ctx w = 7" "finite (dom (frames w))" by (auto simp: scripted_def)
  from w(2) obtain t where "t \<notin> dom (frames w)" using ex_new_if_finite infinite_UNIV_nat by blast
  then have t: "frames w t = None" "conts w t = None" using dom by auto
  let ?fn = "\<lparr>promise = new_promise, at_end = False\<rparr> :: 'a frame"
  let ?fl = "?fn\<lparr>promise := setup_promise 7 True (promise ?fn)\<rparr>"
  let ?wa = "w\<lparr>frames := (frames w)(t \<mapsto> ?fn)\<rparr>" and ?wb = "w\<lparr>frames := (frames w)(t \<mapsto> ?fl)\<rparr>"
  let ?wc = "?wb\<lparr>fib := (fib w)(t := Some t), owned := insert t (owned w)\<rparr>"
  have "task_new (Some t) w = Ret (\<lparr>t_handle = Some t\<rparr>, ?wa)" by (simp add: task_new_def)
  moreover have "task_setup \<lparr>t_handle = Some t\<rparr> True ?wa = Ret ?wb"
    using w(1) by (subst task_setup_eq [where t = t and f = ?fn]) (simp_all add: put_promise_def)
  moreover have "task_take_handle \<lparr>t_handle = Some t\<rparr> = (Some t, \<lparr>t_handle = None\<rparr>)"
    by (simp add: task_take_handle_def)
  ultimately have 1: "rstep script_ring (Run s [] h (Co_launch b kl), w) [Event (fib w h) (Launch t b)]
      (Run s [(h, kl (Inr t))] t b, ?wc)"
    using rstep.launch [where w = w and t = t and tk = "\<lparr>t_handle = Some t\<rparr>" and ?w1.0 = ?wa
        and tk' = "\<lparr>t_handle = None\<rparr>" and ?w2.0 = ?wb and lib = script_ring and s = s and stk = "[]"
        and h = h and b = b and kl = kl, OF t(1)] by simp
  have "scripted (io_results es @ rs) s t ?wc" "dom (conts ?wc) \<subseteq> dom (frames ?wc)"
    using sc t dom b(2) by (auto simp: scripted_def)
  from goes_reaches [OF b(1) this(1) _ this(2), of "[(h, kl (Inr t))]"] b(2) obtain ls s' w3 where
    2: "rsteps script_ring (Run s [(h, kl (Inr t))] t b, ?wc) ls (Run s' [(h, kl (Inr t))] t (result_body r), w3)"
    and tr: "trace (Some t) ls = es" "\<forall>g. g \<noteq> Some t \<longrightarrow> trace g ls = []" and u: "undisturbed ?wc w3"
    unfolding reaches_def by auto
  from u have w3: "frames w3 t = Some ?fl" "fib w3 t = Some t" by (auto simp: undisturbed_def)
  have "task_complete script_ring t r w3 = Ret (Noop_coroutine, w3\<lparr>frames := (frames w3)(t \<mapsto> ended_frame ?fl r)\<rparr>)"
    using w3(1) by (cases r) (simp_all add: task_complete_def final_await_suspend_def ended_frame_def new_promise_def Let_def)
  from finish_alone [OF this, of s' "[(h, kl (Inr t))]"] have
    3: "rstep script_ring (Run s' [(h, kl (Inr t))] t (result_body r), w3) [Event (Some t) (Done r)]
      (Run s' [] h (kl (Inr t)), w3\<lparr>frames := (frames w3)(t \<mapsto> ended_frame ?fl r)\<rparr>)"
    by (simp add: return_to_def w3(2))
  have run: "rsteps script_ring (Run s [] h (Co_launch b kl), w)
      ([Event (fib w h) (Launch t b)] @ ls @ [Event (Some t) (Done r)])
      (Run s' [] h (kl (Inr t)), w3\<lparr>frames := (frames w3)(t \<mapsto> ended_frame ?fl r)\<rparr>)"
    using rsteps_trans [OF rsteps_trans [OF rsteps_one [OF 3] 2] rsteps_one [OF 1]] by simp
  from tr have "trace g ls = (if g = Some t then es else [])" for g by simp
  then have "trace g ([Event (fib w h) (Launch t b)] @ ls @ [Event (Some t) (Done r)]) =
      (if g = fib w h then [Launch t b] else []) @ (if g = Some t then es @ [Done r] else [])" for g
    by (simp add: trace_def)
  with t(1) run show ?thesis by blast
qed

subsection \<open>A program from its start\<close>

definition root_of :: "'v frame" where
  "root_of = \<lparr>promise = new_promise\<lparr>context_ptr := Some 7, flags := set_daemon 0 False\<rparr>, at_end = False\<rparr>"

definition script_world :: "udata list \<Rightarrow> int list \<Rightarrow> (udata list \<times> int list, 'v) rworld" where
  "script_world p rs = \<lparr>ring = (p, rs), cells = Map.empty, frames = [3 \<mapsto> root_of], this_ctx = 7,
     conts = Map.empty, fib = (\<lambda>x. None), owned = {}\<rparr>"

definition script_fresh :: "int list \<Rightarrow> (udata list \<times> int list, 'v) rworld" where
  "script_fresh rs = (script_world [] rs)\<lparr>frames := [3 \<mapsto> \<lparr>promise = new_promise, at_end = False\<rparr>]\<rparr>"

lemma script_fresh_program: "fresh_program (\<lambda>r. mset (fst r)) \<lparr>t_handle = Some 3\<rparr> (script_fresh rs)"
  by (auto simp: fresh_program_def script_fresh_def script_world_def new_promise_def)

lemma script_started:
  "program_start \<lparr>t_handle = Some 3\<rparr> b (script_fresh rs) = Ret (Run None [] 3 b, script_world [] rs)"
  by (subst program_start_eq [where h = 3 and fr = "\<lparr>promise = new_promise, at_end = False\<rparr>"])
    (simp_all add: script_fresh_def script_world_def root_of_def put_promise_def setup_promise_def new_promise_def)

lemma script_goes:
  assumes "goes 7 b es b'"
  shows "reaches None [] 3 b (script_world [] (io_results es @ rs)) es b' rs"
  by (rule goes_reaches [OF assms]) (auto simp: scripted_def script_world_def root_of_def new_promise_def)

lemma straight_runs:
  fixes b :: "'v body"
  assumes "goes 7 b es (result_body r)"
  shows "\<exists>ls w. rsteps script_ring (Run None [] 3 b, script_world [] (io_results es @ rs)) ls (Idle, w) \<and>
    trace None ls = es @ [Done r]"
proof -
  let ?w = "script_world [] (io_results es @ rs) :: (udata list \<times> int list, 'v) rworld"
  from script_goes [OF assms, of rs] obtain ls s' w' where
    1: "rsteps script_ring (Run None [] 3 b, ?w) ls (Run s' [] 3 (result_body r), w')" "trace None ls = es"
      "scripted rs s' 3 w'" "undisturbed ?w w'"
    unfolding reaches_def by (auto simp: script_world_def)
  from 1(4) have w': "frames w' 3 = Some root_of" "fib w' 3 = None" by (simp_all add: undisturbed_def script_world_def)
  from 1(3) have ctx: "this_ctx w' = 7" by (simp add: scripted_def)
  have "task_complete script_ring 3 r w' = Ret (Noop_coroutine,
      w'\<lparr>frames := (frames w')(3 := None), ring := (fst (ring w') @ [Ud_completed], snd (ring w'))\<rparr>)"
    by (subst root_complete_eq [where f = root_of and sqe = 0 and ?r1.0 = "ring w'"])
      (simp_all add: w' ctx root_of_def new_promise_def script_ring_def case_prod_beta)
  note 2 = finish_alone [OF this, of s' "[]"]
  from rsteps_trans [OF rsteps_one [OF 2] 1(1)] 1(2) show ?thesis
    by (auto simp: return_to_def w'(2))
qed

subsection \<open>Properties\<close>


text \<open>A coroutine that awaits another one, which makes an I/O call and throws.\<close>

definition failing_body :: "int body" where
  "failing_body = Co_io Op_nop (\<lambda>i. Co_throw (Runtime_error ''failed''))"


end
