(* ===== verification/Tls_Calls.thy ===== *)
theory Tls_Calls
  imports Tls_Send Tls_Recv Tls_Handshake Straight_Runs
begin

section \<open>The coroutines of the TLS stream\<close>

text \<open>
  The three coroutines do what the functions of \<open>Ssl_Stream\<close> do, whatever the environment
  answers; and what the functions promise holds of the coroutines when they run under the
  event loop, between the steps of other coroutines.
\<close>

subsection \<open>Agreement\<close>

text \<open>In this environment the body runs in one way only.\<close>

definition behaves ::
  "addr \<Rightarrow> 'e env_ops \<Rightarrow> 'v body \<Rightarrow> 'e \<Rightarrow> exn + 'v \<Rightarrow> ('e \<Rightarrow> bool) \<Rightarrow> bool" where
  "behaves ctx env b E r Q \<longleftrightarrow> (\<exists>F. Q F \<and> (\<forall>r' F'. runs_to ctx env b E r' F' \<longleftrightarrow> r' = r \<and> F' = F))"

lemma behaves_flow:
  assumes "plain f" and "drive env f p E = Some (r, F)" and "Q F"
  shows "behaves ctx env (flow_body f p) E r Q"
  using assms by (auto simp: behaves_def runs_to_flow)

lemma behavesD: "behaves ctx env b E r Q \<Longrightarrow> runs_to ctx env b E r' F \<Longrightarrow> r' = r \<and> Q F"
  by (auto simp: behaves_def)

lemma behaves_runs: "behaves ctx env b E r Q \<Longrightarrow> \<exists>F. runs_to ctx env b E r F \<and> Q F"
  by (auto simp: behaves_def)

lemma plain_send: "plain (send_act x buf len flag wb)"
  unfolding plain_def by (rule allI, case_tac p) (auto simp: Let_def)

lemma plain_recv: "plain (recv_act x buf len flag rb)"
  unfolding plain_def by (rule allI, case_tac p) (auto simp: Let_def)

lemma plain_hs: "plain (hs_act x ty hb)"
  unfolding plain_def by (rule allI, case_tac p) (auto simp: Let_def)

lemma tls_send_behaves:
  assumes run: "ssl_send lib raw b flag (stream_of E) (te_st E) = Some (v, xs, st)"
    and "fills_buffers lib" and "length b < 2 ^ 31" and "buf + length b \<le> wb \<or> wb + 4096 \<le> buf"
    and "bytes_at (te_mem E) buf (length b) = b"
  shows "behaves ctx (tls_ops lib os raw x) (tls_send x buf (length b) flag wb) E (end_of v)
    (\<lambda>F. stream_of F = xs \<and> te_st F = st \<and> agree_but wb 4096 (te_mem E) (te_mem F))"
proof -
  from run obtain l s where loop: "send_loop lib raw b flag 0 (te_lib E) (te_raw E) (te_st E) = Some (v, l, s, st)"
    and xs: "xs = (stream_of E)\<lparr>sl_lib := l, sl_raw := s\<rparr>"
    by (auto simp: ssl_send_def split: Option.bind_splits)
  from drive_send [OF loop assms(2-5), of os x] xs show ?thesis
    unfolding tls_send_def by (auto intro!: behaves_flow [OF plain_send])
qed

lemma tls_recv_behaves:
  assumes "ssl_recv lib raw len flag (stream_of E) (te_st E) = Some (n, got, xs, st)"
    and "fills_buffers lib" and "raw_fills raw" and "len < 2 ^ 31"
  shows "behaves ctx (tls_ops lib os raw x) (tls_recv x buf len flag rb) E (Inr (V_int n))
    (\<lambda>F. stream_of F = xs \<and> te_st F = st \<and> bytes_at (te_mem F) buf (length got) = got)"
  using drive_recv [OF assms, of os x buf rb] assms(1)
  unfolding tls_recv_def by (auto intro!: behaves_flow [OF plain_recv])

lemma tls_handshake_behaves:
  assumes run: "handshake lib raw ty (stream_of E) (te_st E) = Some (v, xs, st)"
    and "fills_buffers lib" and "raw_fills raw"
  shows "behaves ctx (tls_ops lib os raw x) (tls_handshake x ty hb) E (Inr (V_status v))
    (\<lambda>F. stream_of F = xs \<and> te_st F = st)"
proof -
  let ?l = "if ty = Client then set_connect_state lib (te_lib E) else set_accept_state lib (te_lib E)"
  let ?E = "E\<lparr>te_lib := ?l\<rparr>"
  from run obtain l s where
    loop: "handshake_loop lib raw (hs_op lib ty) (te_lib ?E) (te_raw ?E) (te_st ?E) = Some (v, l, s, st)"
    and xs: "xs = (stream_of E)\<lparr>sl_lib := l, sl_raw := s\<rparr>"
    by (auto simp: handshake_def hs_op_def Let_def split: Option.bind_splits if_splits)
  from drive_hs_loop [OF loop assms(2,3), of os x hb] obtain m where
    d: "drive (tls_ops lib os raw x) (hs_act x ty hb) H_before ?E = Some (Inr (V_status v),
      ?E\<lparr>te_mem := m, te_lib := l, te_raw := s, te_st := st\<rparr>)" by blast
  have "drive (tls_ops lib os raw x) (hs_act x ty hb) H_set E =
      drive (tls_ops lib os raw x) (hs_act x ty hb) H_before ?E"
    by (cases ty) (subst drive_sync, simp, simp, simp)+
  with d xs show ?thesis
    unfolding tls_handshake_def by (auto intro!: behaves_flow [OF plain_hs])
qed

subsection \<open>A stream to try it on\<close>

definition demo_tls :: tls_stream where
  "demo_tls = \<lparr>tls_ses = 1, tls_sock = socket_new 5\<rparr>"

text \<open>The byte 9 waits at address 100; the peer answers with the byte 9.\<close>

definition demo_env :: "(demo_session, unit, byte list \<times> byte list list) tls_env" where
  "demo_env = \<lparr>te_mem = (\<lambda>a. if a = 100 then 9 else 0), te_lib = demo_session, te_raw = (),
     te_st = ([], [[9]]), te_left = [], te_cap = 4096\<rparr>"

lemma demo_stream_of: "stream_of demo_env = ssl_stream_new () demo_session"
  by (simp add: stream_of_def demo_env_def ssl_stream_new_def)

lemma demo_fills: "fills_buffers demo_lib" "raw_fills demo_raw"
  unfolding fills_buffers_def raw_fills_def demo_lib_def demo_raw_def
  by (auto simp: Let_def split: list.splits)

lemma demo_bytes: "bytes_at (te_mem demo_env) 100 1 = [9]"
  by (simp add: bytes_at_def demo_env_def)

lemma demo_send_run:
  "ssl_send demo_lib demo_raw [9] 0 (stream_of demo_env) (te_st demo_env) =
     Some (Ret 1, (stream_of demo_env)\<lparr>sl_lib := demo_session\<lparr>d_emitted := [9], d_accepted := [9]\<rparr>\<rparr>,
       ([9], [[9]]))"
proof -
  note ev = demo_lib_def demo_session_def demo_raw_def engine_read_def write_pending_def filled_def
  let ?l = "demo_session\<lparr>d_emitted := [9], d_accepted := [9]\<rparr>"
  have chunk: "send_chunk demo_raw [9] 0 0 () ([], [[9]]) = Some (Inr (), (), ([9], [[9]]))"
    by (subst send_chunk.simps, simp add: demo_raw_def) (subst send_chunk.simps, simp)
  have "drain_loop demo_lib demo_raw 0 ?l () ([9], [[9]]) = Some (Ret (Inr ()), ?l, (), ([9], [[9]]))"
    by (subst drain_loop.simps) (simp add: ev)
  then have drain: "drain_loop demo_lib demo_raw 0 (?l\<lparr>d_out := [9]\<rparr>) () ([], [[9]]) =
      Some (Ret (Inr ()), ?l, (), ([9], [[9]]))"
    using chunk by (subst drain_loop.simps) (simp add: ev(1,2,4-))
  have "send_loop demo_lib demo_raw [9] 0 1 ?l () ([9], [[9]]) = Some (Ret 1, ?l, (), ([9], [[9]]))"
    by (subst send_loop.simps) simp
  then have "send_loop demo_lib demo_raw [9] 0 0 demo_session () ([], [[9]]) = Some (Ret 1, ?l, (), ([9], [[9]]))"
    using drain by (subst send_loop.simps) (simp add: ev(1,2))
  then show ?thesis
    by (simp add: ssl_send_def demo_stream_of ssl_stream_new_def) (simp add: demo_env_def)
qed

subsection \<open>Under the event loop\<close>

lemma fiber_behaves:
  assumes "pend_contract u pend" and "fresh_program pend tk w" and "program_start tk b0 w = Ret cfg"
    and "rsteps u cfg ls cfg'" and "fiber_body b0 ls f bf" and "Event f (Done r) \<in> set ls"
    and "answers env (trace f ls) E = Some F" and "behaves (this_ctx w) env bf E r' Q"
  shows "r = r' \<and> Q F"
proof -
  from program_fibers [OF assms(1-6)] obtain es where
    es: "trace f ls = es @ [Done r]" "direct (this_ctx w) bf es r" by blast
  with assms(7) have "answers env es E = Some F" by (auto simp: answers_append split: Option.bind_splits)
  with es(2) have "runs_to (this_ctx w) env bf E r F" unfolding runs_to_def by blast
  with behavesD [OF assms(8) this] show ?thesis by simp
qed

subsection \<open>Properties\<close>



text \<open>
  C13: a TLS send that runs as a task under the event loop, with any other coroutines between
  its steps, delivers everything or says it did not: when it has ended, its result is not
  positive, or the exception of a failed \<^verbatim>\<open>SSL_write\<close>, or the length of the buffer; then the
  session has accepted the buffer, the write BIO is empty, and the bytes its submissions put
  on the wire are all the ciphertext of the session in order.
\<close>

theorem tls_send_on_loop:
  assumes program: "pend_contract u pend" "fresh_program pend tk w" "program_start tk b0 w = Ret cfg"
      "rsteps u cfg ls cfg'"
    and fiber: "fiber_body b0 ls f (tls_send x buf (length b) flag wb)" "Event f (Done r) \<in> set ls"
    and env: "answers (tls_ops lib os raw x) (trace f ls) E = Some F"
    and mem: "bytes_at (te_mem E) buf (length b) = b" "buf + length b \<le> wb \<or> wb + 4096 \<le> buf"
      "b \<noteq> []" "length b < 2 ^ 31"
    and contracts: "fills_buffers lib" "bio_contract lib out inp" "session_contract lib out emitted accepted"
      "raw_contract raw wire"
    and synced: "wire (te_raw E) (te_st E) @ out (te_lib E) = emitted (te_lib E)"
  shows "(\<exists>n \<le> 0. r = Inr (V_int n)) \<or> r = Inl (Runtime_error ''ssl write error TODO'') \<or>
    r = Inr (V_int (int (length b))) \<and> out (te_lib F) = [] \<and>
      wire (te_raw F) (te_st F) = emitted (te_lib F) \<and> accepted (te_lib F) = accepted (te_lib E) @ b"
proof -
  obtain v l s st where
    loop: "send_loop lib raw b flag 0 (te_lib E) (te_raw E) (te_st E) = Some (v, l, s, st)" and
    v: "(\<exists>n \<le> 0. v = Ret n) \<or> v = Thrown (Runtime_error ''ssl write error TODO'') \<or>
      v = Ret (int (length b)) \<and> out l = [] \<and> wire s st = emitted l \<and> accepted l = accepted (te_lib E) @ b"
    using send_loop_result [OF contracts(2-4) mem(4) synced, of 0 flag] mem(3) by auto
  let ?xs = "(stream_of E)\<lparr>sl_lib := l, sl_raw := s\<rparr>"
  have "ssl_send lib raw b flag (stream_of E) (te_st E) = Some (v, ?xs, st)" by (simp add: ssl_send_def loop)
  from fiber_behaves [OF program fiber env tls_send_behaves [OF this contracts(1) mem(4,2,1)]] have
    F: "r = end_of v" "stream_of F = ?xs" "te_st F = st" by auto
  from arg_cong [OF F(2), of sl_lib] arg_cong [OF F(2), of sl_raw] F(1,3) v show ?thesis by auto
qed

theorem tls_send_on_loop_witness:
  "\<exists>rs ls w F. rsteps script_ring (Run None [] 3 (tls_send demo_tls 100 1 0 200), script_world [] rs) ls (Idle, w) \<and>
     Event None (Done (Inr (V_int 1))) \<in> set ls \<and>
     answers (tls_ops demo_lib (\<lambda>c. 0) demo_raw demo_tls) (trace None ls) demo_env = Some F \<and>
     d_out (te_lib F) = [] \<and> fst (te_st F) = d_emitted (te_lib F) \<and> d_accepted (te_lib F) = [9]"
proof -
  let ?b = "tls_send demo_tls 100 1 0 200" and ?ops = "tls_ops demo_lib (\<lambda>c. 0) demo_raw demo_tls"
  have "behaves 7 ?ops (tls_send demo_tls 100 (length [9 :: byte]) 0 200) demo_env (end_of (Ret 1))
      (\<lambda>F. stream_of F = (stream_of demo_env)\<lparr>sl_lib := demo_session\<lparr>d_emitted := [9], d_accepted := [9]\<rparr>\<rparr> \<and>
        te_st F = ([9], [[9]]) \<and> agree_but 200 4096 (te_mem demo_env) (te_mem F))"
    using demo_bytes by (intro tls_send_behaves [OF demo_send_run demo_fills(1)]) simp_all
  from behaves_runs [OF this] obtain es F where
    es: "direct 7 ?b es (Inr (V_int 1))" "answers ?ops es demo_env = Some F"
    by (auto simp: runs_to_def)
  from straight_runs [OF direct_goes [OF es(1) answers_no_forks [OF es(2)]], of "[]"] obtain ls w where
    run: "rsteps script_ring (Run None [] 3 ?b, script_world [] (io_results es)) ls (Idle, w)"
    and tr: "trace None ls = es @ [Done (Inr (V_int 1))]" by auto
  then have "Done (Inr (V_int 1)) \<in> set (trace None ls)" by simp
  then have d: "Event None (Done (Inr (V_int 1))) \<in> set ls" by simp
  have ans: "answers ?ops (trace None ls) demo_env = Some F" using tr es(2) by (simp add: answers_append)
  have "fiber_body ?b ls None (tls_send demo_tls 100 (length [9 :: byte]) 0 200)" by (simp add: fiber_body_def)
  from tls_send_on_loop [OF script_ring_pend script_fresh_program script_started run this d ans _ _ _ _
      demo_fills(1) demo_bio demo_ses demo_raw_contract] demo_bytes have
    "d_out (te_lib F) = [] \<and> fst (te_st F) = d_emitted (te_lib F) \<and> d_accepted (te_lib F) = [9]"
    by (simp add: demo_env_def demo_session_def)
  with run d ans show ?thesis by blast
qed

end
