(* ===== verification/Tls_Bounds.thy ===== *)
theory Tls_Bounds
  imports Tls_Calls Coro_Begins
begin

section \<open>Where the TLS coroutines read and write\<close>

text \<open>
  The buffers that \<^verbatim>\<open>send\<close>, \<^verbatim>\<open>recv\<close> and \<^verbatim>\<open>handshake\<close> pass to OpenSSL and to the kernel. As long
  as no call reports more bytes than it was asked for, every buffer they pass lies inside the
  caller's span or inside their own array, at every moment of a run.
\<close>

subsection \<open>Invariants of flow charts\<close>

text \<open>
  \<open>I\<close> holds of the program points that are reached with events that satisfy \<open>sane\<close>; every
  event at such a point satisfies \<open>ok\<close>, and every value returned there \<open>R\<close>.
\<close>

definition flow_keeps ::
  "('p \<Rightarrow> bool) \<Rightarrow> ('v event \<Rightarrow> bool) \<Rightarrow> ('v event \<Rightarrow> bool) \<Rightarrow> ('v \<Rightarrow> bool) \<Rightarrow> ('p \<Rightarrow> ('p, 'v) act) \<Rightarrow> bool"
where
  "flow_keeps I sane ok R f \<longleftrightarrow>
     (\<forall>p. I p \<longrightarrow> (case f p of
        Act_sync c k \<Rightarrow> \<forall>i. ok (Sync c i) \<and> (sane (Sync c i) \<longrightarrow> I (k i))
      | Act_io op k \<Rightarrow> \<forall>i. ok (Io op i) \<and> (sane (Io op i) \<longrightarrow> I (k i))
      | Act_return v \<Rightarrow> R v
      | Act_throw e \<Rightarrow> True
      | Act_call b k \<Rightarrow> False
      | Act_launch b k \<Rightarrow> False))"

lemma flow_keepsD:
  assumes "flow_keeps I sane ok R f" and "I p"
  shows "f p = Act_sync c k \<Longrightarrow> ok (Sync c i) \<and> (sane (Sync c i) \<longrightarrow> I (k i))"
    and "f p = Act_io op k \<Longrightarrow> ok (Io op i) \<and> (sane (Io op i) \<longrightarrow> I (k i))"
    and "f p = Act_return v \<Longrightarrow> R v" and "f p \<noteq> Act_call b kr" and "f p \<noteq> Act_launch b kl"
  using assms unfolding flow_keeps_def by (force split: act.splits)+

lemma flow_keeps_begins:
  assumes "flow_keeps I sane ok R f"
  shows "begins ctx (flow_body f p) es \<Longrightarrow> I p \<Longrightarrow> \<forall>e \<in> set es. sane e \<Longrightarrow> \<forall>e \<in> set es. ok e"
proof (induction es arbitrary: p)
  case (Cons e es)
  note keeps = flow_keepsD [OF assms Cons.prems(2)]
  show ?case
  proof (cases "f p")
    case (Act_io op k)
    with Cons.prems(1) obtain i where "e = Io op i" "begins ctx (flow_body f (k i)) es"
      by (auto simp: flow_body_simps begins_io)
    with keeps(2) [OF Act_io] Cons.prems(3) Cons.IH [of "k i"] show ?thesis by auto
  next
    case (Act_sync c k)
    with Cons.prems(1) obtain i where "e = Sync c i" "begins ctx (flow_body f (k i)) es"
      by (auto simp: flow_body_simps begins_sync)
    with keeps(1) [OF Act_sync] Cons.prems(3) Cons.IH [of "k i"] show ?thesis by auto
  qed (use Cons.prems(1) keeps in \<open>auto simp: flow_body_simps\<close>)
qed simp

lemma flow_keeps_direct:
  assumes "flow_keeps I sane ok R f"
  shows "direct ctx (flow_body f p) es (Inr v) \<Longrightarrow> I p \<Longrightarrow> \<forall>e \<in> set es. sane e \<Longrightarrow> R v"
proof (induction es arbitrary: p)
  case Nil
  note keeps = flow_keepsD [OF assms Nil.prems(2)]
  show ?case
    by (cases "f p") (use Nil.prems(1) keeps in \<open>auto simp: flow_body_simps direct_io direct_sync\<close>)
next
  case (Cons e es)
  note keeps = flow_keepsD [OF assms Cons.prems(2)]
  show ?case
  proof (cases "f p")
    case (Act_io op k)
    with Cons.prems(1) obtain i where "e = Io op i" "direct ctx (flow_body f (k i)) es (Inr v)"
      by (auto simp: flow_body_simps direct_io)
    with keeps(2) [OF Act_io] Cons.prems(3) Cons.IH [of "k i"] show ?thesis by auto
  next
    case (Act_sync c k)
    with Cons.prems(1) obtain i where "e = Sync c i" "direct ctx (flow_body f (k i)) es (Inr v)"
      by (auto simp: flow_body_simps direct_sync)
    with keeps(1) [OF Act_sync] Cons.prems(3) Cons.IH [of "k i"] show ?thesis by auto
  qed (use Cons.prems(1) keeps in \<open>auto simp: flow_body_simps\<close>)
qed

text \<open>At every moment of a fiber whose body is such a flow chart.\<close>

lemma fiber_keeps:
  assumes program: "pend_contract u pend" "fresh_program pend tk w" "program_start tk b0 w = Ret cfg"
      "rsteps u cfg ls cfg'" "fiber_body b0 ls f (flow_body g p)"
    and keeps: "flow_keeps I sane ok R g" and I: "I p" and fin: "\<And>r. ok (Done r)"
    and sane: "\<forall>e \<in> set (trace f ls). sane e"
  shows "(\<forall>e \<in> set (trace f ls). ok e) \<and> (\<forall>v. Event f (Done (Inr v)) \<in> set ls \<longrightarrow> R v)"
proof -
  show ?thesis
    using fiber_begins [OF program]
  proof
    assume b: "begins (this_ctx w) (flow_body g p) (trace f ls)"
    with flow_keeps_begins [OF keeps b I sane] begins_no_done [OF b] show ?thesis by (auto simp flip: in_trace)
  next
    assume "\<exists>es r. trace f ls = es @ [Done r] \<and> direct (this_ctx w) (flow_body g p) es r"
    then obtain es r where es: "trace f ls = es @ [Done r]" "direct (this_ctx w) (flow_body g p) es r" by blast
    from flow_keeps_begins [OF keeps direct_begins [OF es(2)] I] sane es(1) fin have
      "\<forall>e \<in> set (trace f ls). ok e" by auto
    moreover have "R v" if "Event f (Done (Inr v)) \<in> set ls" for v
    proof -
      from that have "Done (Inr v) \<in> set (trace f ls)" by simp
      with es direct_no_done [OF es(2)] have "r = Inr v" by auto
      with flow_keeps_direct [OF keeps _ I] es sane show ?thesis by auto
    qed
    ultimately show ?thesis by blast
  qed
qed

subsection \<open>The memory a call is given\<close>

fun span_of_sync :: "sync_call \<Rightarrow> (addr \<times> nat) option" where
  "span_of_sync (Sc_ssl_write n a k) = Some (a, nat k)"
| "span_of_sync (Sc_ssl_read n a k) = Some (a, nat k)"
| "span_of_sync (Sc_bio_write n a k) = Some (a, k)"
| "span_of_sync (Sc_bio_read n a k) = Some (a, k)"
| "span_of_sync (Sc_read_leftover n a k) = Some (a, k)"
| "span_of_sync _ = None"

fun span_of_op :: "uring_op \<Rightarrow> (addr \<times> nat) option" where
  "span_of_op (Op_send fd a k flag) = Some (a, k)"
| "span_of_op (Op_recv fd a k flag) = Some (a, k)"
| "span_of_op _ = None"

fun span_of :: "'v event \<Rightarrow> (addr \<times> nat) option" where
  "span_of (Sync c i) = span_of_sync c"
| "span_of (Io op i) = span_of_op op"
| "span_of _ = None"

fun answer_of :: "'v event \<Rightarrow> int" where
  "answer_of (Sync c i) = i"
| "answer_of (Io op i) = i"
| "answer_of _ = 0"

text \<open>The call reports no more bytes than its buffer has.\<close>

definition no_longer :: "'v event \<Rightarrow> bool" where
  "no_longer e \<longleftrightarrow> (case span_of e of Some (a, k) \<Rightarrow> answer_of e \<le> int k | None \<Rightarrow> True)"

text \<open>The buffer lies inside \<open>buf\<close> (of \<open>n\<close> bytes) or \<open>loc\<close> (of \<open>k\<close> bytes).\<close>

definition inside :: "addr \<Rightarrow> nat \<Rightarrow> addr \<Rightarrow> nat \<Rightarrow> 'v event \<Rightarrow> bool" where
  "inside buf n loc k e \<longleftrightarrow>
     (case span_of e of
        Some (a, j) \<Rightarrow> buf \<le> a \<and> a + j \<le> buf + n \<or> loc \<le> a \<and> a + j \<le> loc + k
      | None \<Rightarrow> True)"

lemma nat_to_int32: "nat (to_int32 (int n)) \<le> n"
proof (cases "n < 2 ^ 31")
  case False
  then have "2 ^ 31 \<le> int n" by simp
  with to_int32_range [of "int n"] show ?thesis by linarith
qed simp

subsection \<open>The three coroutines\<close>

fun send_points :: "nat \<Rightarrow> send_pc \<Rightarrow> bool" where
  "send_points len (S_top c) \<longleftrightarrow> c \<le> len"
| "send_points len (S_drain c) \<longleftrightarrow> c \<le> len"
| "send_points len (S_read c) \<longleftrightarrow> c \<le> len"
| "send_points len (S_status c n) \<longleftrightarrow> c \<le> len"
| "send_points len (S_chunk c n sent) \<longleftrightarrow> c \<le> len \<and> n \<le> 4096 \<and> sent \<le> n"
| "send_points len (S_return r) \<longleftrightarrow> r \<le> int len"
| "send_points len (S_throw e) \<longleftrightarrow> True"

definition at_most :: "nat \<Rightarrow> val \<Rightarrow> bool" where
  "at_most n v \<longleftrightarrow> (\<forall>r. v = V_int r \<longrightarrow> r \<le> int n)"

lemma send_keeps:
  "flow_keeps (send_points len) no_longer (inside buf len wb 4096) (at_most len) (send_act x buf len flag wb)"
  unfolding flow_keeps_def
proof (intro allI impI)
  fix p assume p: "send_points len p"
  show "case send_act x buf len flag wb p of
      Act_sync c k \<Rightarrow> \<forall>i. inside buf len wb 4096 (Sync c i) \<and> (no_longer (Sync c i) \<longrightarrow> send_points len (k i))
    | Act_io op k \<Rightarrow> \<forall>i. inside buf len wb 4096 (Io op i) \<and> (no_longer (Io op i) \<longrightarrow> send_points len (k i))
    | Act_return v \<Rightarrow> at_most len v | Act_throw e \<Rightarrow> True | Act_call b k \<Rightarrow> False | Act_launch b k \<Rightarrow> False"
  proof (cases p)
    case (S_top c)
    with p nat_to_int32 [of "len - c"] show ?thesis
      using nat_to_int32 [of c] by (auto simp: inside_def no_longer_def at_most_def)
  qed (use p in \<open>auto simp: inside_def no_longer_def at_most_def send_more_def Let_def socket_send_def send_op_def send_resume_def\<close>)
qed

fun recv_points :: "nat \<Rightarrow> recv_pc \<Rightarrow> bool" where
  "recv_points len (R_status r) \<longleftrightarrow> r \<le> int len"
| "recv_points len (R_return r) \<longleftrightarrow> r \<le> int len"
| "recv_points len (R_write n) \<longleftrightarrow> n \<le> len"
| "recv_points len (R_pending_read t) \<longleftrightarrow> t \<le> len"
| "recv_points len (R_pending_write t) \<longleftrightarrow> t \<le> len"
| "recv_points len (R_decrypt t) \<longleftrightarrow> t \<le> len"
| "recv_points len (R_decrypted t d) \<longleftrightarrow> t + nat d \<le> len"
| "recv_points len (R_fill t) \<longleftrightarrow> t \<le> len"
| "recv_points len (R_filled t d) \<longleftrightarrow> t \<le> len"
| "recv_points len _ \<longleftrightarrow> True"

lemma recv_keeps:
  "flow_keeps (recv_points len) no_longer (inside buf len rb len) (at_most len) (recv_act x buf len flag rb)"
  unfolding flow_keeps_def
proof (intro allI impI)
  fix p assume p: "recv_points len p"
  show "case recv_act x buf len flag rb p of
      Act_sync c k \<Rightarrow> \<forall>i. inside buf len rb len (Sync c i) \<and> (no_longer (Sync c i) \<longrightarrow> recv_points len (k i))
    | Act_io op k \<Rightarrow> \<forall>i. inside buf len rb len (Io op i) \<and> (no_longer (Io op i) \<longrightarrow> recv_points len (k i))
    | Act_return v \<Rightarrow> at_most len v | Act_throw e \<Rightarrow> True | Act_call b k \<Rightarrow> False | Act_launch b k \<Rightarrow> False"
  proof (cases p)
    case R_first
    with nat_to_int32 [of len] show ?thesis by (auto simp: inside_def no_longer_def)
  next
    case (R_decrypt t)
    with p nat_to_int32 [of "len - t"] show ?thesis by (auto simp: inside_def no_longer_def)
  qed (use p in \<open>auto simp: inside_def no_longer_def at_most_def Let_def socket_recv_def recv_op_def recv_resume_def\<close>)
qed

fun hs_points :: "hs_pc \<Rightarrow> bool" where
  "hs_points (H_write n) \<longleftrightarrow> n \<le> 4096"
| "hs_points (H_send n sent) \<longleftrightarrow> n \<le> 4096 \<and> sent \<le> n"
| "hs_points _ \<longleftrightarrow> True"

lemma hs_keeps:
  "flow_keeps hs_points no_longer (inside hb 4096 hb 4096) (at_most 4096) (hs_act x ty hb)"
  unfolding flow_keeps_def
proof (intro allI impI)
  fix p assume p: "hs_points p"
  show "case hs_act x ty hb p of
      Act_sync c k \<Rightarrow> \<forall>i. inside hb 4096 hb 4096 (Sync c i) \<and> (no_longer (Sync c i) \<longrightarrow> hs_points (k i))
    | Act_io op k \<Rightarrow> \<forall>i. inside hb 4096 hb 4096 (Io op i) \<and> (no_longer (Io op i) \<longrightarrow> hs_points (k i))
    | Act_return v \<Rightarrow> at_most 4096 v | Act_throw e \<Rightarrow> True | Act_call b k \<Rightarrow> False | Act_launch b k \<Rightarrow> False"
    by (cases p) (use p in \<open>auto simp: inside_def no_longer_def at_most_def hs_more_def hs_next_def Let_def
        socket_send_def send_op_def send_resume_def socket_recv_def recv_op_def recv_resume_def\<close>)
qed

subsection \<open>Properties\<close>


text \<open>A \<^verbatim>\<open>recv\<close> into four bytes that finds nothing decrypted and reads the end of the stream.\<close>

definition eof_events :: "val event list" where
  "eof_events = [Sync (Sc_read_leftover 1 100 4) 0, Sync (Sc_ssl_read 1 100 4) (- 1), Sync (Sc_ssl_get_error 1 (- 1)) 2,
     Io (socket_recv (tls_sock demo_tls) 200 4 0) 0]"

lemma eof_direct: "direct 7 (tls_recv demo_tls 100 4 0 200) eof_events (Inr (V_int 0))"
  by (simp add: tls_recv_def eof_events_def flow_body_simps direct_sync direct_io demo_tls_def recv_resume_def Let_def)

lemma eof_forks: "\<forall>e \<in> set eof_events. \<not> forks e"
  by (simp add: eof_events_def)


end
