(* ===== verification/Library_Tasks.thy ===== *)
theory Library_Tasks
  imports Tls_Env Delay Coro_Begins
begin

section \<open>The small coroutines of the library\<close>

text \<open>
  \<^verbatim>\<open>socket::open\<close>, \<^verbatim>\<open>server_socket::open\<close> and \<^verbatim>\<open>file::of\<close>, which ask for the context and make
  one system call, and the two overloads of \<^verbatim>\<open>delay\<close> that ask for the context, as bodies for
  the runtime. The context is used for its ring only.
\<close>

subsection \<open>The bodies\<close>

definition sock_AF_INET :: int where "sock_AF_INET = 2"
definition sock_SOCK_STREAM :: int where "sock_SOCK_STREAM = 1"

definition socket_open_body :: "val body" where
  "socket_open_body =
     Co_context (\<lambda>_. Co_sync (Sc_socket sock_AF_INET sock_SOCK_STREAM 0) (\<lambda>fd.
       Co_return (V_socket (socket_new fd))))"

definition socket_open_peer_body :: "endpoint \<Rightarrow> val body" where
  "socket_open_peer_body peer =
     Co_context (\<lambda>_. Co_sync (Sc_socket sock_AF_INET sock_SOCK_STREAM 0) (\<lambda>fd.
       Co_return (V_socket (socket_new_peer fd peer))))"

definition server_open_body :: "val body" where
  "server_open_body =
     Co_context (\<lambda>_. Co_sync (Sc_socket sock_AF_INET sock_SOCK_STREAM 0) (\<lambda>fd.
       if fd = - 1 then Co_throw (Runtime_error ''socket creation failed'')
       else Co_return (V_server \<lparr>ss_ring = True, ss_fd = fd, ss_addr = replicate sizeof_in 0\<rparr>)))"

definition file_of_body :: "string \<Rightarrow> int \<Rightarrow> val body" where
  "file_of_body path flag =
     Co_context (\<lambda>_. Co_sync (Sc_open path flag) (\<lambda>fd. Co_return (V_file (file_new fd))))"

text \<open>
  The awaiter that \<^verbatim>\<open>delay(ring, ...)\<close> returns keeps its timespec at \<open>ts_at\<close>, in the frame of
  the coroutine; the first call is the one that writes it.
\<close>

definition delay_ts_body :: "addr \<Rightarrow> addr \<Rightarrow> val body" where
  "delay_ts_body ts_at ts =
     Co_context (\<lambda>_. Co_sync (Sc_copy_timespec ts_at ts) (\<lambda>_.
       Co_io (timeout_op ts_at 0 IORING_TIMEOUT_ETIME_SUCCESS) (\<lambda>r. Co_return (V_status (timeout_resume r)))))"

definition delay_mills_body :: "addr \<Rightarrow> int \<Rightarrow> val body" where
  "delay_mills_body ts_at mills =
     (let ts = mills_timespec mills in
      Co_context (\<lambda>_. Co_sync (Sc_put_timespec ts_at (tv_sec ts) (tv_nsec ts)) (\<lambda>_.
        Co_io (timeout_op ts_at 0 IORING_TIMEOUT_ETIME_SUCCESS) (\<lambda>r. Co_return (V_status (timeout_resume r))))))"

subsection \<open>They do what the functions do\<close>

text \<open>The system calls, answered by \<open>sys\<close> and by \<open>sys_open\<close>.\<close>

fun os_sync ::
  "'o os \<Rightarrow> (string \<Rightarrow> int \<Rightarrow> 'o \<Rightarrow> int \<times> 'o) \<Rightarrow> sync_call \<Rightarrow> 'o \<Rightarrow> (int \<times> 'o) option" where
  "os_sync sys sys_open (Sc_socket d t p) st =
     (if d = sock_AF_INET \<and> t = sock_SOCK_STREAM \<and> p = 0 then Some (sys_socket sys st) else None)"
| "os_sync sys sys_open (Sc_open path flag) st = Some (sys_open path flag st)"
| "os_sync sys sys_open (Sc_close fd) st = Some (sys_close sys fd st)"
| "os_sync sys sys_open (Sc_listen fd n) st = Some (sys_listen sys fd n st)"
| "os_sync sys sys_open c st = None"

definition os_ops :: "'o os \<Rightarrow> (string \<Rightarrow> int \<Rightarrow> 'o \<Rightarrow> int \<times> 'o) \<Rightarrow> 'o env_ops" where
  "os_ops sys sys_open = \<lparr>do_sync = os_sync sys sys_open, do_io = (\<lambda>op st. None)\<rparr>"

lemma runs_to_context [simp]:
  "runs_to ctx env (Co_context k) E r F \<longleftrightarrow> runs_to ctx env (k (Some ctx)) E r F"
  by (simp add: runs_to_def)

lemma socket_open_agrees:
  "runs_to ctx (os_ops sys sys_open) socket_open_body st r st' \<longleftrightarrow>
     (\<exists>s. socket_open sys st = (s, st') \<and> r = Inr (V_socket s))"
  "runs_to ctx (os_ops sys sys_open) (socket_open_peer_body peer) st r st' \<longleftrightarrow>
     (\<exists>s. socket_open_peer sys peer st = (s, st') \<and> r = Inr (V_socket s))"
  by (auto simp: socket_open_body_def socket_open_peer_body_def runs_to_sync os_ops_def
      socket_open_def socket_open_peer_def split: prod.splits)

definition server_end :: "server_socket outcome \<Rightarrow> exn + val \<Rightarrow> bool" where
  "server_end x r \<longleftrightarrow> (case x of Ret s \<Rightarrow> r = Inr (V_server s) | Thrown e \<Rightarrow> r = Inl e | Fault u \<Rightarrow> False)"

lemma server_open_agrees:
  "runs_to ctx (os_ops sys sys_open) server_open_body st r st' \<longleftrightarrow>
     (\<exists>x. server_new sys st = (x, st') \<and> server_end x r)"
  by (auto simp: server_open_body_def runs_to_sync os_ops_def server_new_def server_end_def
      split: prod.splits if_splits)

lemma file_of_agrees:
  "runs_to ctx (os_ops sys sys_open) (file_of_body path flag) st r st' \<longleftrightarrow>
     (\<exists>fd. sys_open path flag st = (fd, st') \<and> r = Inr (V_file (file_new fd)))"
  by (auto simp: file_of_body_def runs_to_sync os_ops_def)

text \<open>A delay ends with the timeout's result; what it gave the kernel is exactly the delay.\<close>

lemma delay_mills_direct:
  "direct ctx (delay_mills_body ts_at mills) es r \<longleftrightarrow>
     (\<exists>sec nsec i c. es = [Sync (Sc_put_timespec ts_at sec nsec) c, Io (Op_timeout ts_at 0 32) i] \<and>
        r = Inr (V_status (timeout_resume i)) \<and> sec = mills sdiv 1000 \<and> nsec = mills smod 1000 * 1000000)"
  by (auto simp: delay_mills_body_def Let_def direct_sync direct_io timeout_op_def
      IORING_TIMEOUT_ETIME_SUCCESS_def mills_timespec_def)

lemma delay_ts_direct:
  "direct ctx (delay_ts_body ts_at ts) es r \<longleftrightarrow>
     (\<exists>i c. es = [Sync (Sc_copy_timespec ts_at ts) c, Io (Op_timeout ts_at 0 32) i] \<and>
        r = Inr (V_status (timeout_resume i)))"
  by (auto simp: delay_ts_body_def direct_sync direct_io timeout_op_def IORING_TIMEOUT_ETIME_SUCCESS_def)

end
