(* ===== verification/Test_Server.thy ===== *)
theory Test_Server
  imports Library_Tasks Tls_Bounds "HOL-Library.Sublist"
begin

section \<open>The TLS server of the test programs\<close>

text \<open>
  \<^verbatim>\<open>test/mtest.cpp\<close>: a listening socket, an accept loop that launches a handler for every
  connection, and the handler, which makes a TLS stream of the socket, receives once and
  sends a fixed reply. The server never returns, so its properties speak of what it has done
  at any moment. Logging and the info callback are left out, and of the peer's address,
  which is only logged, nothing is kept.
\<close>

subsection \<open>The handler\<close>

text \<open>Where the buffers are: the arrays of the handler and of its callees, and the reply.\<close>

record places =
  at_handshake :: addr
  at_buf :: addr
  at_raw_buf :: addr
  at_reply :: addr
  at_write_buf :: addr
  at_addr :: addr
  at_addrlen :: addr

definition reply_text :: string where
  "reply_text = ''HTTP/1.1 200 OK'' @ [CHR 0x0D, CHR 0x0A] @
     ''Content-Type: text/html; charset=utf-8'' @ [CHR 0x0D, CHR 0x0A] @
     ''Content-Length: 3'' @ [CHR 0x0D, CHR 0x0A] @
     ''Server: KK-NAML/0.0.1'' @ [CHR 0x0D, CHR 0x0A] @
     ''Connection: close'' @ [CHR 0x0D, CHR 0x0A, CHR 0x0D, CHR 0x0A] @ ''QAQ''"

definition reply_length :: nat where
  "reply_length = length reply_text"

text \<open>
  \<open>c\<close> is the \<^verbatim>\<open>SSL_CTX\<close>, \<open>n\<close> the session, \<open>r\<close> and \<open>w\<close> are the BIOs. From \<open>Z_cert\<close> to
  \<open>Z_callback\<close> the program is in \<^verbatim>\<open>init_ctx\<close>, from \<open>Z_ssl\<close> to \<open>Z_set_bio\<close> in the constructors of
  \<^verbatim>\<open>ssl_stream\<close> and \<^verbatim>\<open>ssl_engine\<close>, with the socket moved into the stream. \<open>Z_free\<close> and
  \<open>Z_close\<close> are the destructors, on the way out with a value or an exception.
\<close>

datatype zz_pc =
    Z_ctx
  | Z_cert int
  | Z_print
  | Z_key int
  | Z_min int
  | Z_max int
  | Z_callback int
  | Z_ssl int
  | Z_read_bio int
  | Z_write_bio int int
  | Z_set_bio int int int
  | Z_handshake int
  | Z_recv int
  | Z_send int
  | Z_free int "exn + val"
  | Z_close "exn + val"
  | Z_end "exn + val"

definition TLS1_2_VERSION :: int where "TLS1_2_VERSION = 0x0303"
definition TLS1_3_VERSION :: int where "TLS1_3_VERSION = 0x0304"

text \<open>The steps of \<^verbatim>\<open>init_ctx\<close>; a step that fails makes it return false.\<close>

definition init_cert :: "int \<Rightarrow> (zz_pc, val) act" where [simp]:
  "init_cert c =
     Act_sync (Sc_lib ''SSL_CTX_use_certificate_file'' [c]) (\<lambda>i. if i \<le> 0 then Z_print else Z_key c)"

definition init_key :: "int \<Rightarrow> (zz_pc, val) act" where [simp]:
  "init_key c =
     Act_sync (Sc_lib ''SSL_CTX_use_PrivateKey_file'' [c]) (\<lambda>i. if i \<le> 0 then Z_end (Inr V_unit) else Z_min c)"

definition init_min_version :: "int \<Rightarrow> (zz_pc, val) act" where [simp]:
  "init_min_version c =
     Act_sync (Sc_lib ''SSL_CTX_set_min_proto_version'' [c, TLS1_2_VERSION]) (\<lambda>i. if i \<noteq> 1 then Z_print else Z_max c)"

definition init_max_version :: "int \<Rightarrow> (zz_pc, val) act" where [simp]:
  "init_max_version c =
     Act_sync (Sc_lib ''SSL_CTX_set_max_proto_version'' [c, TLS1_3_VERSION]) (\<lambda>i. if i \<noteq> 1 then Z_print else Z_callback c)"

definition init_callback :: "int \<Rightarrow> (zz_pc, val) act" where [simp]:
  "init_callback c =
     Act_sync (Sc_lib ''SSL_CTX_set_info_callback'' [c]) (\<lambda>_. Z_ssl c)"

definition zz_stream :: "socket \<Rightarrow> int \<Rightarrow> tls_stream" where
  "zz_stream s n = \<lparr>tls_ses = nat n, tls_sock = fst (socket_move s)\<rparr>"

text \<open>
  A null pointer is the answer 0. The exception of a call is that of its frame's allocation or
  of \<^verbatim>\<open>send\<close>; \<^verbatim>\<open>handshake\<close> is \<^verbatim>\<open>noexcept\<close>, so there it would be the end of the program.
\<close>

fun zz_act :: "places \<Rightarrow> socket \<Rightarrow> zz_pc \<Rightarrow> (zz_pc, val) act" where
  "zz_act P s Z_ctx = Act_sync (Sc_lib ''SSL_CTX_new'' []) Z_cert"
| "zz_act P s (Z_cert c) = init_cert c"
| "zz_act P s Z_print = Act_sync Sc_err_print (\<lambda>_. Z_end (Inr V_unit))"
| "zz_act P s (Z_key c) = init_key c"
| "zz_act P s (Z_min c) = init_min_version c"
| "zz_act P s (Z_max c) = init_max_version c"
| "zz_act P s (Z_callback c) = init_callback c"
| "zz_act P s (Z_ssl c) =
     Act_sync (Sc_lib ''SSL_new'' [c])
       (\<lambda>n. if n = 0 then Z_close (Inl (Runtime_error ''SSL_new failed'')) else Z_read_bio n)"
| "zz_act P s (Z_read_bio n) =
     Act_sync (Sc_lib ''BIO_new'' [])
       (\<lambda>r. if r = 0 then Z_close (Inl (Runtime_error ''BIO_new failed'')) else Z_write_bio n r)"
| "zz_act P s (Z_write_bio n r) =
     Act_sync (Sc_lib ''BIO_new'' [])
       (\<lambda>w. if w = 0 then Z_close (Inl (Runtime_error ''BIO_new failed'')) else Z_set_bio n r w)"
| "zz_act P s (Z_set_bio n r w) = Act_sync (Sc_lib ''SSL_set_bio'' [n, r, w]) (\<lambda>_. Z_handshake n)"
| "zz_act P s (Z_handshake n) =
     Act_call (tls_handshake (zz_stream s n) Server (at_handshake P))
       (\<lambda>x. case x of
          Inl e \<Rightarrow> Z_free n (Inl e)
        | Inr v \<Rightarrow> (if v = V_status (Inr ()) then Z_recv n else Z_free n (Inr V_unit)))"
| "zz_act P s (Z_recv n) =
     Act_call (tls_recv (zz_stream s n) (at_buf P) 4096 0 (at_raw_buf P))
       (\<lambda>x. case x of
          Inl e \<Rightarrow> Z_free n (Inl e)
        | Inr v \<Rightarrow> (case v of V_int i \<Rightarrow> if i > 0 then Z_send n else Z_free n (Inr V_unit)
                           | _ \<Rightarrow> Z_free n (Inr V_unit)))"
| "zz_act P s (Z_send n) =
     Act_call (tls_send (zz_stream s n) (at_reply P) reply_length 0 (at_write_buf P))
       (\<lambda>x. case x of Inl e \<Rightarrow> Z_free n (Inl e) | Inr v \<Rightarrow> Z_free n (Inr V_unit))"
| "zz_act P s (Z_free n x) = Act_sync (Sc_lib ''SSL_free'' [n]) (\<lambda>_. Z_close x)"
| "zz_act P s (Z_close x) =
     (case socket_drop (fst (socket_move s)) of
        [] \<Rightarrow> (case x of Inl e \<Rightarrow> Act_throw e | Inr v \<Rightarrow> Act_return v)
      | fd # _ \<Rightarrow> Act_sync (Sc_close fd) (\<lambda>_. Z_end x))"
| "zz_act P s (Z_end x) = (case x of Inl e \<Rightarrow> Act_throw e | Inr v \<Rightarrow> Act_return v)"

definition zz :: "places \<Rightarrow> socket \<Rightarrow> val body" where
  "zz P s = flow_body (zz_act P s) Z_ctx"

subsection \<open>The accept loop\<close>

text \<open>
  \<open>M_drop_result\<close> destroys the result of \<^verbatim>\<open>accept\<close>, which holds the socket unless the handler
  has moved it away; \<open>M_drop\<close> destroys the listening socket.
\<close>

datatype server_pc =
    M_open
  | M_option server_socket
  | M_bind server_socket
  | M_listen server_socket
  | M_accept server_socket
  | M_launch server_socket socket
  | M_drop_result server_socket socket
  | M_unwind server_socket socket exn
  | M_drop server_socket "exn + val"
  | M_end "exn + val"

fun server_act :: "places \<Rightarrow> server_pc \<Rightarrow> (server_pc, val) act" where
  "server_act P M_open =
     Act_call server_open_body
       (\<lambda>x. case x of
          Inl e \<Rightarrow> M_end (Inl e)
        | Inr v \<Rightarrow> (case v of V_server ss \<Rightarrow> M_option ss | _ \<Rightarrow> M_end (Inr V_unit)))"
| "server_act P (M_option ss) =
     Act_sync (Sc_lib ''setsockopt'' [ss_fd ss]) (\<lambda>i. if i < 0 then M_drop ss (Inr V_unit) else M_bind ss)"
| "server_act P (M_bind ss) =
     Act_sync (Sc_bind (ss_fd ss) 8888) (\<lambda>i. if i < 0 then M_drop ss (Inr V_unit) else M_listen ss)"
| "server_act P (M_listen ss) =
     Act_sync (Sc_listen (ss_fd ss) 5) (\<lambda>i. if i < 0 then M_drop ss (Inr V_unit) else M_accept ss)"
| "server_act P (M_accept ss) =
     Act_io (server_accept ss (at_addr P) (at_addrlen P))
       (\<lambda>i. case socket_accept_resume i address_new of Inl e \<Rightarrow> M_accept ss | Inr s \<Rightarrow> M_launch ss s)"
| "server_act P (M_launch ss s) =
     Act_launch (zz P s) (\<lambda>x. case x of Inl e \<Rightarrow> M_unwind ss s e | Inr t \<Rightarrow> M_drop_result ss s)"
| "server_act P (M_drop_result ss s) =
     Act_sync (Sc_lib ''~result'' [s_fd s]) (\<lambda>_. M_accept ss)"
| "server_act P (M_unwind ss s e) =
     Act_sync (Sc_lib ''~result'' [s_fd s]) (\<lambda>_. M_drop ss (Inl e))"
| "server_act P (M_drop ss x) =
     (case server_drop ss of
        [] \<Rightarrow> (case x of Inl e \<Rightarrow> Act_throw e | Inr v \<Rightarrow> Act_return v)
      | fd # _ \<Rightarrow> Act_sync (Sc_close fd) (\<lambda>_. M_end x))"
| "server_act P (M_end x) = (case x of Inl e \<Rightarrow> Act_throw e | Inr v \<Rightarrow> Act_return v)"

definition server_main :: "places \<Rightarrow> val body" where
  "server_main P = flow_body (server_act P) M_open"

subsection \<open>What the handler owns\<close>

text \<open>The calls that make and release what a handler owns.\<close>

fun resource :: "sync_call \<Rightarrow> bool" where
  "resource (Sc_close fd) \<longleftrightarrow> True"
| "resource (Sc_lib name args) \<longleftrightarrow>
     name \<in> {''SSL_CTX_new'', ''SSL_CTX_free'', ''SSL_new'', ''SSL_set_bio'', ''SSL_free''}"
| "resource _ \<longleftrightarrow> False"

fun resource_calls :: "'v event list \<Rightarrow> sync_call list" where
  "resource_calls [] = []"
| "resource_calls (Sync c i # es) = (if resource c then c # resource_calls es else resource_calls es)"
| "resource_calls (_ # es) = resource_calls es"

lemma resource_calls_append [simp]: "resource_calls (es @ es') = resource_calls es @ resource_calls es'"
  by (induction es rule: resource_calls.induct) simp_all

definition releases_nothing :: "'v event \<Rightarrow> bool" where
  "releases_nothing e \<longleftrightarrow> resource_calls [e] = []"

lemma releases_nothing_all: "\<forall>e \<in> set es. releases_nothing e \<Longrightarrow> resource_calls es = []"
  by (induction es rule: resource_calls.induct) (auto simp: releases_nothing_def split: if_splits)

lemma send_releases_nothing:
  "flow_keeps (\<lambda>_. True) (\<lambda>_. True) releases_nothing (\<lambda>_. True) (send_act x buf len flag wb)"
  unfolding flow_keeps_def by (rule allI, rename_tac p, case_tac p) (simp_all add: releases_nothing_def Let_def)

lemma recv_releases_nothing:
  "flow_keeps (\<lambda>_. True) (\<lambda>_. True) releases_nothing (\<lambda>_. True) (recv_act x buf len flag rb)"
  unfolding flow_keeps_def by (rule allI, rename_tac p, case_tac p) (simp_all add: releases_nothing_def Let_def)

lemma hs_releases_nothing:
  "flow_keeps (\<lambda>_. True) (\<lambda>_. True) releases_nothing (\<lambda>_. True) (hs_act x ty hb)"
  unfolding flow_keeps_def by (rule allI, rename_tac p, case_tac p) (simp_all add: releases_nothing_def Let_def)

lemma tls_begins_nothing:
  "begins ctx (tls_send x buf len flag wb) es \<Longrightarrow> resource_calls es = []"
  "begins ctx (tls_recv x buf len flag rb) es \<Longrightarrow> resource_calls es = []"
  "begins ctx (tls_handshake x ty hb) es \<Longrightarrow> resource_calls es = []"
  unfolding tls_send_def tls_recv_def tls_handshake_def
  using flow_keeps_begins [OF send_releases_nothing] flow_keeps_begins [OF recv_releases_nothing]
    flow_keeps_begins [OF hs_releases_nothing] releases_nothing_all by metis+

text \<open>
  \<open>owes f p D\<close>: from \<open>p\<close> on, the flow chart makes one of the sequences in \<open>D\<close> of these calls,
  all of it once it has ended.
\<close>

definition owes :: "('p \<Rightarrow> ('p, 'v) act) \<Rightarrow> 'p \<Rightarrow> sync_call list set \<Rightarrow> bool" where
  "owes f p D \<longleftrightarrow>
     (\<forall>ctx es. begins ctx (flow_body f p) es \<longrightarrow> (\<exists>d \<in> D. prefix (resource_calls es) d)) \<and>
     (\<forall>ctx es r. direct ctx (flow_body f p) es r \<longrightarrow> resource_calls es \<in> D)"

lemma owesD:
  assumes "owes f p D"
  shows "begins ctx (flow_body f p) es \<Longrightarrow> \<exists>d \<in> D. prefix (resource_calls es) d"
    and "direct ctx (flow_body f p) es r \<Longrightarrow> resource_calls es \<in> D"
  using assms unfolding owes_def by blast+

lemma owes_nonempty: "owes f p D \<Longrightarrow> \<exists>d. d \<in> D"
  using owesD(1) [OF _ b_empty, of f p D] by blast

lemma owes_mono: "owes f p D \<Longrightarrow> D \<subseteq> D' \<Longrightarrow> owes f p D'"
  unfolding owes_def by blast

lemma owes_end: "f p = Act_return v \<or> f p = Act_throw e \<Longrightarrow> owes f p {[]}"
  by (auto simp: owes_def flow_body_simps)

lemma owes_call_of:
  assumes p: "f p = Act_sync c k" and c: "resource c" and k: "\<And>i. owes f (k i) D"
  shows "owes f p ((#) c ` D)"
  unfolding owes_def
proof (intro conjI allI impI)
  fix ctx es assume "begins ctx (flow_body f p) es"
  then consider "es = []" | i es' where "es = Sync c i # es'" "begins ctx (flow_body f (k i)) es'"
    by (auto simp: flow_body_simps(4) [where f = f and p = p, OF p] begins_sync)
  then show "\<exists>d \<in> (#) c ` D. prefix (resource_calls es) d"
  proof cases
    case 1
    with owes_nonempty [OF k] show ?thesis by auto
  next
    case 2
    with owesD(1) [OF k] obtain d where "d \<in> D" "prefix (resource_calls es') d" by blast
    with 2(1) c show ?thesis by (intro bexI [of _ "c # d"]) auto
  qed
next
  fix ctx es r assume "direct ctx (flow_body f p) es r"
  then obtain i es' where "es = Sync c i # es'" "direct ctx (flow_body f (k i)) es' r"
    by (auto simp: flow_body_simps(4) [where f = f and p = p, OF p] direct_sync)
  with owesD(2) [OF k] c show "resource_calls es \<in> (#) c ` D" by auto
qed

lemma owes_sync:
  assumes p: "f p = Act_sync c k" and c: "\<not> resource c" and k: "\<And>i. owes f (k i) D"
  shows "owes f p D"
  unfolding owes_def
proof (intro conjI allI impI)
  fix ctx es assume "begins ctx (flow_body f p) es"
  then consider "es = []" | i es' where "es = Sync c i # es'" "begins ctx (flow_body f (k i)) es'"
    by (auto simp: flow_body_simps(4) [where f = f and p = p, OF p] begins_sync)
  then show "\<exists>d \<in> D. prefix (resource_calls es) d"
    using owes_nonempty [OF k] owesD(1) [OF k] c by cases auto
next
  fix ctx es r assume "direct ctx (flow_body f p) es r"
  then obtain i es' where "es = Sync c i # es'" "direct ctx (flow_body f (k i)) es' r"
    by (auto simp: flow_body_simps(4) [where f = f and p = p, OF p] direct_sync)
  with owesD(2) [OF k] c show "resource_calls es \<in> D" by auto
qed

lemma owes_co_call:
  assumes p: "f p = Act_call b k" and b: "\<And>ctx es. begins ctx b es \<Longrightarrow> resource_calls es = []"
    and k: "\<And>x. owes f (k x) D"
  shows "owes f p D"
  unfolding owes_def
proof (intro conjI allI impI)
  fix ctx es assume "begins ctx (flow_body f p) es"
  then consider "es = []" | "begins ctx b es" | "begins ctx (flow_body f (k (Inl Bad_alloc))) es"
    | es1 x es2 where "es = es1 @ es2" "direct ctx b es1 x" "begins ctx (flow_body f (k x)) es2"
    by (auto simp: flow_body_simps(5) [where f = f and p = p, OF p] begins_call)
  then show "\<exists>d \<in> D. prefix (resource_calls es) d"
    using owes_nonempty [OF k] owesD(1) [OF k] b b [OF direct_begins] by cases auto
next
  fix ctx es r assume "direct ctx (flow_body f p) es r"
  then consider "direct ctx (flow_body f (k (Inl Bad_alloc))) es r"
    | es1 x es2 where "es = es1 @ es2" "direct ctx b es1 x" "direct ctx (flow_body f (k x)) es2 r"
    by (auto simp: flow_body_simps(5) [where f = f and p = p, OF p] direct_call)
  then show "resource_calls es \<in> D"
    using owesD(2) [OF k] b [OF direct_begins] by cases auto
qed

text \<open>
  A handler makes an \<^verbatim>\<open>SSL_CTX\<close>, which it never frees. It stops there, or the constructor of the
  stream fails after it took the socket, or there is a session with two BIOs; the session and
  the socket are released in that order.
\<close>

definition session_calls :: "int \<Rightarrow> int \<Rightarrow> int \<Rightarrow> int \<Rightarrow> sync_call list" where
  "session_calls fd n r w = [Sc_lib ''SSL_set_bio'' [n, r, w], Sc_lib ''SSL_free'' [n], Sc_close fd]"

definition stream_calls :: "int \<Rightarrow> sync_call list set" where
  "stream_calls fd = insert [Sc_close fd] (\<Union>n r w. {session_calls fd n r w})"

definition handler_calls :: "int \<Rightarrow> sync_call list set" where
  "handler_calls fd =
     (#) (Sc_lib ''SSL_CTX_new'' []) ` insert [] (\<Union>c. (#) (Sc_lib ''SSL_new'' [c]) ` stream_calls fd)"

lemma zz_owes_close:
  assumes "s_fd s > 0"
  shows "owes (zz_act P s) (Z_close x) {[Sc_close (s_fd s)]}"
proof -
  have "zz_act P s (Z_close x) = Act_sync (Sc_close (s_fd s)) (\<lambda>_. Z_end x)"
    using assms by (simp add: socket_drop_def socket_move_def)
  moreover have "owes (zz_act P s) (Z_end x) {[]}" by (cases x) (auto intro: owes_end)
  ultimately show ?thesis
    using owes_call_of [where f = "zz_act P s" and p = "Z_close x" and D = "{[]}"] by simp
qed

lemma zz_owes_session:
  assumes fd: "s_fd s > 0"
  defines "D \<equiv> \<lambda>n. {[Sc_lib ''SSL_free'' [n], Sc_close (s_fd s)]}"
  shows "owes (zz_act P s) (Z_handshake n) (D n)"
proof -
  have free: "owes (zz_act P s) (Z_free n x) (D n)" for x
    using owes_call_of [where f = "zz_act P s" and p = "Z_free n x", OF _ _ zz_owes_close [OF fd]]
    by (simp add: D_def)
  have send: "owes (zz_act P s) (Z_send n) (D n)"
    by (rule owes_co_call [where f = "zz_act P s", OF zz_act.simps(14) tls_begins_nothing(1)]) (auto intro: free split: sum.splits)
  have recv: "owes (zz_act P s) (Z_recv n) (D n)"
    by (rule owes_co_call [where f = "zz_act P s", OF zz_act.simps(13) tls_begins_nothing(2)])
      (auto intro: free send split: sum.splits val.splits)
  show ?thesis
    by (rule owes_co_call [where f = "zz_act P s", OF zz_act.simps(12) tls_begins_nothing(3)])
      (auto intro: free recv split: sum.splits)
qed

lemma zz_owes_stream:
  assumes fd: "s_fd s > 0"
  shows "owes (zz_act P s) (Z_ssl c) ((#) (Sc_lib ''SSL_new'' [c]) ` stream_calls (s_fd s))"
proof -
  let ?D = "stream_calls (s_fd s)"
  have close: "owes (zz_act P s) (Z_close x) ?D" for x
    by (rule owes_mono [OF zz_owes_close [OF fd]]) (auto simp: stream_calls_def)
  have "owes (zz_act P s) (Z_set_bio n r w) {session_calls (s_fd s) n r w}" for n r w
    using owes_call_of [where f = "zz_act P s" and p = "Z_set_bio n r w", OF _ _ zz_owes_session [OF fd]]
    by (simp add: session_calls_def)
  then have set_bio: "owes (zz_act P s) (Z_set_bio n r w) ?D" for n r w
    by (rule owes_mono) (auto simp: stream_calls_def)
  have wbio: "owes (zz_act P s) (Z_write_bio n r) ?D" for n r
    by (rule owes_sync [where f = "zz_act P s", OF zz_act.simps(10)]) (auto intro: close set_bio)
  have rbio: "owes (zz_act P s) (Z_read_bio n) ?D" for n
    by (rule owes_sync [where f = "zz_act P s", OF zz_act.simps(9)]) (auto intro: close wbio)
  show ?thesis
    by (rule owes_call_of [where f = "zz_act P s", OF zz_act.simps(8)]) (auto intro: close rbio)
qed

lemmas init_acts = zz_act.simps(2,4,5,6,7) [unfolded init_cert_def init_key_def init_min_version_def
  init_max_version_def init_callback_def]

lemma zz_owes:
  assumes fd: "s_fd s > 0"
  shows "owes (zz_act P s) Z_ctx (handler_calls (s_fd s))"
proof -
  let ?D = "insert [] (\<Union>c. (#) (Sc_lib ''SSL_new'' [c]) ` stream_calls (s_fd s))"
  have stop: "owes (zz_act P s) (Z_end (Inr V_unit)) ?D"
    by (rule owes_mono [OF owes_end [where f = "zz_act P s"]]) auto
  have print: "owes (zz_act P s) Z_print ?D"
    by (rule owes_sync [where f = "zz_act P s", OF zz_act.simps(3)]) (auto intro: stop)
  have "owes (zz_act P s) (Z_ssl c) ?D" for c
    by (rule owes_mono [OF zz_owes_stream [OF fd]]) auto
  then have callback: "owes (zz_act P s) (Z_callback c) ?D" for c
    by (intro owes_sync [where f = "zz_act P s", OF init_acts(5)]) auto
  have max: "owes (zz_act P s) (Z_max c) ?D" for c
    by (rule owes_sync [where f = "zz_act P s", OF init_acts(4)]) (auto intro: callback print)
  have min: "owes (zz_act P s) (Z_min c) ?D" for c
    by (rule owes_sync [where f = "zz_act P s", OF init_acts(3)]) (auto intro: max print)
  have key: "owes (zz_act P s) (Z_key c) ?D" for c
    by (rule owes_sync [where f = "zz_act P s", OF init_acts(2)]) (auto intro: min stop)
  have cert: "owes (zz_act P s) (Z_cert c) ?D" for c
    by (rule owes_sync [where f = "zz_act P s", OF init_acts(1)]) (auto intro: key print)
  show ?thesis
    unfolding handler_calls_def by (rule owes_call_of [where f = "zz_act P s", OF zz_act.simps(1)]) (auto intro: cert)
qed

subsection \<open>What the accept loop hands over\<close>

text \<open>The sockets of the completed \<^verbatim>\<open>accept\<close> calls, and the bodies of the launched handlers.\<close>

fun accepted :: "'v event list \<Rightarrow> socket list" where
  "accepted [] = []"
| "accepted (Io (Op_accept fd a n fl) i # es) =
     (case socket_accept_resume i address_new of Inl e \<Rightarrow> accepted es | Inr s \<Rightarrow> s # accepted es)"
| "accepted (_ # es) = accepted es"

fun handed :: "'v event list \<Rightarrow> 'v body list" where
  "handed [] = []"
| "handed (Launch t b # es) = b # handed es"
| "handed (_ # es) = handed es"

lemma accepted_append [simp]: "accepted (es @ es') = accepted es @ accepted es'"
  by (induction es rule: accepted.induct) (auto split: sum.splits)

lemma handed_append [simp]: "handed (es @ es') = handed es @ handed es'"
  by (induction es rule: handed.induct) auto

lemma in_handed: "b \<in> set (handed es) \<longleftrightarrow> (\<exists>t. Launch t b \<in> set es)"
  by (induction es rule: handed.induct) auto

lemma accepted_alive: "s \<in> set (accepted es) \<Longrightarrow> s_fd s > 0"
  by (induction es rule: accepted.induct)
    (auto simp: socket_accept_resume_def Let_def make_sys_error_def socket_new_addr_def socket_new_def
      split: sum.splits if_splits)

definition hands_over :: "places \<Rightarrow> val event list \<Rightarrow> bool" where
  "hands_over P es \<longleftrightarrow>
     prefix (handed es) (map (zz P) (accepted es)) \<and> length (accepted es) \<le> Suc (length (handed es))"

lemma hands_over_simps [simp]:
  "hands_over P []" "hands_over P (Sync c i # es) \<longleftrightarrow> hands_over P es"
  by (simp_all add: hands_over_def)

text \<open>The last lines of the server, with or without an exception.\<close>

lemma server_drop_body:
  "flow_body (server_act P) (M_drop ss x) =
     (if ss_fd ss > 0 then Co_sync (Sc_close (ss_fd ss)) (\<lambda>_. result_body x) else result_body x)"
proof -
  have "flow_body (server_act P) (M_end x) = result_body x"
    by (cases x) (simp_all add: flow_body_simps)
  then show ?thesis
    by (cases x) (simp_all add: flow_body_simps server_drop_def)
qed

lemma direct_result_body: "direct ctx (result_body r) es r' \<longleftrightarrow> es = [] \<and> r' = r"
  by (cases r) auto

lemma begins_result_body: "begins ctx (result_body r) es \<longleftrightarrow> es = []"
  by (cases r) auto

lemma server_unwind_quiet:
  "begins ctx (flow_body (server_act P) (M_unwind ss s e)) es \<Longrightarrow> accepted es = [] \<and> handed es = []"
  "direct ctx (flow_body (server_act P) (M_unwind ss s e)) es r \<Longrightarrow> r = Inl e"
  by (auto simp: flow_body_simps(4) [where f = "server_act P"] begins_sync direct_sync server_drop_body
      direct_result_body begins_result_body split: if_splits)

lemma accept_begins:
  "begins ctx (flow_body (server_act P) (M_accept ss)) es \<Longrightarrow> hands_over P es"
proof (induction es rule: length_induct)
  case (1 es)
  from 1(2) consider "es = []" | i es1 where
    "es = Io (Op_accept (ss_fd ss) (at_addr P) (at_addrlen P) 0) i # es1"
    "begins ctx (flow_body (server_act P)
       (case socket_accept_resume i address_new of Inl e \<Rightarrow> M_accept ss | Inr s \<Rightarrow> M_launch ss s)) es1"
    by (auto simp: flow_body_simps(3) [where f = "server_act P"] begins_io server_accept_def socket_accept_def accept_op_def)
  then show ?case
  proof cases
    case es: (2 i es1)
    show ?thesis
    proof (cases "socket_accept_resume i address_new")
      case (Inl e)
      with es 1(1) show ?thesis by (simp add: hands_over_def)
    next
      case (Inr s)
      with es have "begins ctx (Co_launch (zz P s) (\<lambda>x. flow_body (server_act P)
          (case x of Inl e \<Rightarrow> M_unwind ss s e | Inr t \<Rightarrow> M_drop_result ss s))) es1"
        by (simp add: flow_body_simps(6) [where f = "server_act P"])
      then consider "es1 = []" | "begins ctx (flow_body (server_act P) (M_unwind ss s Bad_alloc)) es1"
        | t es2 where "es1 = Launch t (zz P s) # es2" "begins ctx (flow_body (server_act P) (M_drop_result ss s)) es2"
        by (auto simp: begins_launch)
      then show ?thesis
      proof cases
        case 2
        with es Inr server_unwind_quiet(1) [OF 2] show ?thesis by (simp add: hands_over_def)
      next
        case l: (3 t es2)
        then consider "es2 = []" | j es3 where "es2 = Sync (Sc_lib ''~result'' [s_fd s]) j # es3"
          "begins ctx (flow_body (server_act P) (M_accept ss)) es3"
          by (auto simp: flow_body_simps(4) [where f = "server_act P"] begins_sync)
        then have "hands_over P es2"
          using 1(1) es l by cases auto
        with es l Inr show ?thesis by (simp add: hands_over_def)
      qed (use es Inr in \<open>simp add: hands_over_def\<close>)
    qed
  qed simp
qed

lemma accept_direct:
  "direct ctx (flow_body (server_act P) (M_accept ss)) es r \<Longrightarrow> r = Inl Bad_alloc"
proof (induction es rule: length_induct)
  case (1 es)
  from 1(2) obtain i es1 where es:
    "es = Io (Op_accept (ss_fd ss) (at_addr P) (at_addrlen P) 0) i # es1"
    "direct ctx (flow_body (server_act P)
       (case socket_accept_resume i address_new of Inl e \<Rightarrow> M_accept ss | Inr s \<Rightarrow> M_launch ss s)) es1 r"
    by (auto simp: flow_body_simps(3) [where f = "server_act P"] direct_io server_accept_def socket_accept_def accept_op_def)
  show ?case
  proof (cases "socket_accept_resume i address_new")
    case (Inl e)
    with es 1(1) [rule_format, of es1] show ?thesis by simp
  next
    case (Inr s)
    with es have "direct ctx (Co_launch (zz P s) (\<lambda>x. flow_body (server_act P)
        (case x of Inl e \<Rightarrow> M_unwind ss s e | Inr t \<Rightarrow> M_drop_result ss s))) es1 r"
      by (simp add: flow_body_simps(6) [where f = "server_act P"])
    then consider "direct ctx (flow_body (server_act P) (M_unwind ss s Bad_alloc)) es1 r"
      | t j es3 where "es1 = Launch t (zz P s) # Sync (Sc_lib ''~result'' [s_fd s]) j # es3"
        "direct ctx (flow_body (server_act P) (M_accept ss)) es3 r"
      by (auto simp: direct_launch flow_body_simps(4) [where f = "server_act P"] direct_sync)
    then show ?thesis
    proof cases
      case 2
      with es 1(1) [rule_format, of es3] show ?thesis by simp
    qed (rule server_unwind_quiet(2))
  qed
qed

text \<open>Before the loop the server accepts and launches nothing.\<close>

lemma quiet_begins:
  "begins ctx server_open_body es \<Longrightarrow> hands_over P es \<and> accepted es = [] \<and> handed es = []"
  by (auto simp: server_open_body_def begins_sync hands_over_def split: if_splits)

lemma option_begins:
  "begins ctx (flow_body (server_act P) (M_option ss)) es \<Longrightarrow> hands_over P es"
  by (auto simp: flow_body_simps(4) [where f = "server_act P"] begins_sync server_drop_body begins_result_body
      dest!: accept_begins split: if_splits)

lemma option_direct:
  "direct ctx (flow_body (server_act P) (M_option ss)) es r \<Longrightarrow> accepted es \<noteq> [] \<Longrightarrow> r = Inl Bad_alloc"
  by (auto simp: flow_body_simps(4) [where f = "server_act P"] direct_sync server_drop_body direct_result_body
      dest!: accept_direct split: if_splits)

lemma server_open_value:
  "direct ctx server_open_body es x \<Longrightarrow> (\<exists>ss. x = Inr (V_server ss)) \<or> x = Inl (Runtime_error ''socket creation failed'')"
  by (auto simp: server_open_body_def direct_sync split: if_splits)

lemma server_begins: "begins ctx (server_main P) es \<Longrightarrow> hands_over P es"
proof -
  assume "begins ctx (server_main P) es"
  then consider "es = []" | "begins ctx server_open_body es"
    | "begins ctx (flow_body (server_act P) (M_end (Inl Bad_alloc))) es"
    | es1 x es2 where "es = es1 @ es2" "direct ctx server_open_body es1 x"
        "begins ctx (flow_body (server_act P) (case x of Inl e \<Rightarrow> M_end (Inl e)
           | Inr v \<Rightarrow> (case v of V_server ss \<Rightarrow> M_option ss | _ \<Rightarrow> M_end (Inr V_unit)))) es2"
    by (auto simp: server_main_def flow_body_simps(5) [where f = "server_act P"] begins_call)
  then show "hands_over P es"
  proof cases
    case (4 es1 x es2)
    note q = quiet_begins [OF direct_begins [OF 4(2)], of P]
    from server_open_value [OF 4(2)] 4(3) have "hands_over P es2"
      by (auto dest: option_begins simp: flow_body_simps(2) [where f = "server_act P"])
    with 4(1) q show ?thesis by (simp add: hands_over_def)
  qed (auto simp: quiet_begins flow_body_simps(2) [where f = "server_act P"])
qed

lemma server_direct: "direct ctx (server_main P) es r \<Longrightarrow> accepted es \<noteq> [] \<Longrightarrow> r = Inl Bad_alloc"
proof -
  assume d: "direct ctx (server_main P) es r" and a: "accepted es \<noteq> []"
  from d consider "direct ctx (flow_body (server_act P) (M_end (Inl Bad_alloc))) es r"
    | es1 x es2 where "es = es1 @ es2" "direct ctx server_open_body es1 x"
        "direct ctx (flow_body (server_act P) (case x of Inl e \<Rightarrow> M_end (Inl e)
           | Inr v \<Rightarrow> (case v of V_server ss \<Rightarrow> M_option ss | _ \<Rightarrow> M_end (Inr V_unit)))) es2 r"
    by (auto simp: server_main_def flow_body_simps(5) [where f = "server_act P"] direct_call)
  then show "r = Inl Bad_alloc"
  proof cases
    case (2 es1 x es2)
    with quiet_begins [OF direct_begins [OF 2(2)], of P] a have "accepted es2 \<noteq> []" by simp
    with server_open_value [OF 2(2)] 2(3) show ?thesis
      by (auto dest: option_direct simp: flow_body_simps(2) [where f = "server_act P"])
  qed (simp add: flow_body_simps(2) [where f = "server_act P"])
qed

lemma launched_fiber: "Event g (Launch t b) \<in> set ls \<Longrightarrow> fiber_body b0 ls (Some t) b"
  by (auto simp: fiber_body_def)

subsection \<open>Properties\<close>

text \<open>
  C15: the server hands every connection to one handler. At any moment of its run the handlers
  it has launched are, one for one and in order, those of the sockets its \<^verbatim>\<open>accept\<close> calls
  have given, except that the last socket may still be on its way; a failed \<^verbatim>\<open>accept\<close> launches
  nothing and does not stop the loop; and once it has accepted a connection, the server ends
  only with the exception of a handler's frame that could not be allocated.
\<close>

theorem server_hands_over:
  assumes "pend_contract u pend" and "fresh_program pend tk w"
    and "program_start tk (server_main P) w = Ret cfg" and "rsteps u cfg ls cfg'"
  shows "prefix (handed (trace None ls)) (map (zz P) (accepted (trace None ls))) \<and>
    length (accepted (trace None ls)) \<le> Suc (length (handed (trace None ls))) \<and>
    (\<forall>s \<in> set (accepted (trace None ls)). s_fd s > 0) \<and>
    (\<forall>r. Event None (Done r) \<in> set ls \<and> accepted (trace None ls) \<noteq> [] \<longrightarrow> r = Inl Bad_alloc)"
proof -
  have "fiber_body (server_main P) ls None (server_main P)" by (simp add: fiber_body_def)
  from fiber_begins [OF assms this]
  have "hands_over P (trace None ls) \<and>
    (\<forall>r. Done r \<in> set (trace None ls) \<and> accepted (trace None ls) \<noteq> [] \<longrightarrow> r = Inl Bad_alloc)"
  proof
    assume b: "begins (this_ctx w) (server_main P) (trace None ls)"
    from server_begins [OF b] begins_no_done [OF b] show ?thesis by blast
  next
    assume "\<exists>es r. trace None ls = es @ [Done r] \<and> direct (this_ctx w) (server_main P) es r"
    then obtain es r where es: "trace None ls = es @ [Done r]" "direct (this_ctx w) (server_main P) es r" by blast
    from server_begins [OF direct_begins [OF es(2)]] server_direct [OF es(2)] direct_no_done [OF es(2)] es(1)
    show ?thesis by (auto simp: hands_over_def)
  qed
  with accepted_alive show ?thesis by (auto simp: hands_over_def)
qed



text \<open>
  A run to try them on: the server accepts descriptor 9 after a failed \<^verbatim>\<open>accept\<close>, and the
  handler finds no certificate.
\<close>

definition demo_places :: places where
  "demo_places = \<lparr>at_handshake = 100, at_buf = 200, at_raw_buf = 300, at_reply = 400, at_write_buf = 500,
     at_addr = 600, at_addrlen = 616\<rparr>"

definition demo_peer :: socket where
  "demo_peer = socket_new_addr 9 address_new"

definition demo_listen :: server_socket where
  "demo_listen = \<lparr>ss_ring = True, ss_fd = 5, ss_addr = replicate sizeof_in 0\<rparr>"

definition demo_accepts :: "val event list" where
  "demo_accepts = [Sync (Sc_socket 2 1 0) 5] @ [Sync (Sc_lib ''setsockopt'' [5]) 0, Sync (Sc_bind 5 8888) 0,
     Sync (Sc_listen 5 5) 0, Io (Op_accept 5 600 616 0) (- 103), Io (Op_accept 5 600 616 0) 9]"

definition demo_quits :: "val event list" where
  "demo_quits = [Sync (Sc_lib ''SSL_CTX_new'' []) 1,
     Sync (Sc_lib ''SSL_CTX_use_certificate_file'' [1]) 0, Sync Sc_err_print 0]"

lemma demo_server_goes:
  "goes 7 (server_main demo_places) demo_accepts (flow_body (server_act demo_places) (M_launch demo_listen demo_peer))"
proof -
  let ?f = "flow_body (server_act demo_places)"
  have fd: "ss_fd demo_listen = 5" by (simp add: demo_listen_def)
  note ev = flow_body_simps fd demo_places_def server_accept_def socket_accept_def accept_op_def
  have fail: "?f (M_accept demo_listen) = Co_io (Op_accept 5 600 616 0) k \<Longrightarrow> k (- 103) = ?f (M_accept demo_listen)"
    and ok: "?f (M_accept demo_listen) = Co_io (Op_accept 5 600 616 0) k \<Longrightarrow> k 9 = ?f (M_launch demo_listen demo_peer)" for k
    by (auto simp: ev socket_accept_resume_def accept_resume_def make_sys_error_def demo_peer_def)
  obtain k where acc: "?f (M_accept demo_listen) = Co_io (Op_accept 5 600 616 0) k" by (simp add: ev)
  have "goes 7 (?f (M_accept demo_listen)) [Io (Op_accept 5 600 616 0) 9] (?f (M_launch demo_listen demo_peer))"
    unfolding acc by (rule g_io) (simp add: ok [OF acc] g_here)
  then have "goes 7 (?f (M_accept demo_listen)) [Io (Op_accept 5 600 616 0) (- 103), Io (Op_accept 5 600 616 0) 9]
      (?f (M_launch demo_listen demo_peer))"
    unfolding acc by (intro g_io [where k = k]) (simp add: fail [OF acc] acc)
  then have "goes 7 (?f (M_option demo_listen)) [Sync (Sc_lib ''setsockopt'' [5]) 0, Sync (Sc_bind 5 8888) 0,
      Sync (Sc_listen 5 5) 0, Io (Op_accept 5 600 616 0) (- 103), Io (Op_accept 5 600 616 0) 9]
      (?f (M_launch demo_listen demo_peer))"
    by (subst flow_body_simps(4), simp, simp add: fd)
      (rule g_sync, simp, subst flow_body_simps(4), simp, simp add: fd,
        rule g_sync, simp, subst flow_body_simps(4), simp, simp add: fd, rule g_sync, simp)
  moreover have "goes 7 server_open_body [Sync (Sc_socket 2 1 0) 5] (result_body (Inr (V_server demo_listen)))"
    unfolding server_open_body_def sock_AF_INET_def sock_SOCK_STREAM_def
    by (rule g_context, rule g_sync) (simp add: demo_listen_def g_here)
  ultimately show ?thesis
    unfolding server_main_def demo_accepts_def
    by (subst flow_body_simps(5), simp) (rule g_call, assumption, simp)
qed

lemma demo_handler_goes: "goes 7 (zz demo_places demo_peer) demo_quits (result_body (Inr V_unit))"
  unfolding zz_def demo_quits_def
  by (intro direct_goes) (simp_all add: flow_body_simps direct_sync)

lemma demo_server_run:
  "\<exists>t ls cfg. rsteps script_ring (Run None [] 3 (server_main demo_places), script_world [] [- 103, 9]) ls cfg \<and>
     trace None ls = demo_accepts @ [Launch t (zz demo_places demo_peer)] \<and>
     trace (Some t) ls = demo_quits @ [Done (Inr V_unit)]"
proof -
  let ?w = "script_world [] [- 103, 9] :: (udata list \<times> int list, val) rworld"
  from script_goes [OF demo_server_goes, of "[]"] obtain ls1 s w where
    1: "rsteps script_ring (Run None [] 3 (server_main demo_places), ?w) ls1
      (Run s [] 3 (flow_body (server_act demo_places) (M_launch demo_listen demo_peer)), w)"
    and tr: "trace None ls1 = demo_accepts" "\<forall>g. g \<noteq> None \<longrightarrow> trace g ls1 = []"
    and w: "scripted [] s 3 w" "undisturbed ?w w"
    unfolding reaches_def by (auto simp: script_world_def demo_accepts_def)
  from w(2) have w2: "conts w = Map.empty" "fib w 3 = None" by (simp_all add: undisturbed_def script_world_def)
  let ?k = "\<lambda>x. flow_body (server_act demo_places) (case x of Inl e \<Rightarrow> M_unwind demo_listen demo_peer e
      | Inr t \<Rightarrow> M_drop_result demo_listen demo_peer)"
  have l: "flow_body (server_act demo_places) (M_launch demo_listen demo_peer) = Co_launch (zz demo_places demo_peer) ?k"
    by (subst flow_body_simps(6), simp) simp
  have "io_results demo_quits = []" by (simp add: demo_quits_def)
  from script_launch [OF w(1) _ demo_handler_goes this, of ?k] w2 obtain t ls2 s' w' where
    2: "rsteps script_ring (Run s [] 3 (Co_launch (zz demo_places demo_peer) ?k), w) ls2 (Run s' [] 3 (?k (Inr t)), w')"
    and tr2: "\<forall>g. trace g ls2 = (if g = None then [Launch t (zz demo_places demo_peer)] else []) @
      (if g = Some t then demo_quits @ [Done (Inr V_unit)] else [])" by auto
  from rsteps_trans [OF 2 1 [unfolded l]] tr tr2 show ?thesis
    by (intro exI [of _ t] exI [of _ "ls1 @ ls2"] exI conjI) (assumption, auto simp: trace_def)
qed

theorem server_hands_over_witness:
  "\<exists>ls cfg. rsteps script_ring (Run None [] 3 (server_main demo_places), script_world [] [- 103, 9]) ls cfg \<and>
     prefix (handed (trace None ls)) [zz demo_places demo_peer] \<and> accepted (trace None ls) = [demo_peer]"
proof -
  from demo_server_run obtain t ls cfg where
    run: "rsteps script_ring (Run None [] 3 (server_main demo_places), script_world [] [- 103, 9]) ls cfg"
    and tr: "trace None ls = demo_accepts @ [Launch t (zz demo_places demo_peer)]" by blast
  have acc: "accepted (trace None ls) = [demo_peer]"
    by (simp add: tr demo_accepts_def socket_accept_resume_def accept_resume_def make_sys_error_def demo_peer_def)
  from server_hands_over [OF script_ring_pend script_fresh_program script_started run] acc have
    "prefix (handed (trace None ls)) [zz demo_places demo_peer]" by auto
  with run acc show ?thesis by blast
qed


end
