(* ===== verification/Test_Client.thy ===== *)
theory Test_Client
  imports Test_Server
begin

section \<open>The TLS client of the test programs\<close>

text \<open>
  \<^verbatim>\<open>test/as_test.cpp\<close>: the client connects, makes a TLS stream of its socket, sends a fixed
  request and receives once. \<^verbatim>\<open>endpoint::from\<close>, which the coroutine calls first, is a blocking
  call of \<open>Net_Address\<close>; its outcome is the parameter \<open>peer\<close>. Logging is left out, but for the
  one line that reads the buffer.
\<close>

subsection \<open>The coroutine\<close>

definition hello_text :: string where
  "hello_text = ''GET /api/all HTTP/1.1'' @ [CHR 0x0D, CHR 0x0A, CHR 0x0D, CHR 0x0A]"

datatype client_pc =
    C_open
  | C_connect socket
  | C_ctx socket
  | C_ssl socket int
  | C_read_bio socket int
  | C_write_bio socket int int
  | C_set_bio socket int int int
  | C_handshake socket int
  | C_send socket int
  | C_recv socket int
  | C_view socket int int
  | C_free socket int "exn + val"
  | C_close socket "exn + val"
  | C_end "exn + val"

text \<open>
  \<open>at_addr\<close> is where the peer's \<^verbatim>\<open>sockaddr\<close> is, \<open>at_reply\<close> the request. The socket is the local
  variable until the stream takes it over; either way the descriptor is closed at the end.
  \<open>C_view\<close> makes a \<^verbatim>\<open>string_view\<close> of the buffer with the result of \<^verbatim>\<open>recv\<close> as its \<^verbatim>\<open>size_t\<close>.
\<close>

fun client_act :: "places \<Rightarrow> endpoint \<Rightarrow> client_pc \<Rightarrow> (client_pc, val) act" where
  "client_act P peer C_open =
     Act_call (socket_open_peer_body peer)
       (\<lambda>x. case x of
          Inl e \<Rightarrow> C_end (Inl e)
        | Inr v \<Rightarrow> (case v of V_socket s \<Rightarrow> C_connect s | _ \<Rightarrow> C_end (Inr V_unit)))"
| "client_act P peer (C_connect s) =
     Act_io (socket_connect s (at_addr P))
       (\<lambda>i. case connect_resume i of Inl e \<Rightarrow> C_close s (Inr V_unit) | Inr _ \<Rightarrow> C_ctx s)"
| "client_act P peer (C_ctx s) = Act_sync (Sc_lib ''SSL_CTX_new'' []) (C_ssl s)"
| "client_act P peer (C_ssl s c) =
     Act_sync (Sc_lib ''SSL_new'' [c])
       (\<lambda>n. if n = 0 then C_close s (Inl (Runtime_error ''SSL_new failed'')) else C_read_bio s n)"
| "client_act P peer (C_read_bio s n) =
     Act_sync (Sc_lib ''BIO_new'' [])
       (\<lambda>r. if r = 0 then C_close s (Inl (Runtime_error ''BIO_new failed'')) else C_write_bio s n r)"
| "client_act P peer (C_write_bio s n r) =
     Act_sync (Sc_lib ''BIO_new'' [])
       (\<lambda>w. if w = 0 then C_close s (Inl (Runtime_error ''BIO_new failed'')) else C_set_bio s n r w)"
| "client_act P peer (C_set_bio s n r w) = Act_sync (Sc_lib ''SSL_set_bio'' [n, r, w]) (\<lambda>_. C_handshake s n)"
| "client_act P peer (C_handshake s n) =
     Act_call (tls_handshake (zz_stream s n) Client (at_handshake P))
       (\<lambda>x. case x of
          Inl e \<Rightarrow> C_free s n (Inl e)
        | Inr v \<Rightarrow> (if v = V_status (Inr ()) then C_send s n else C_free s n (Inr V_unit)))"
| "client_act P peer (C_send s n) =
     Act_call (tls_send (zz_stream s n) (at_reply P) (length hello_text) 0 (at_write_buf P))
       (\<lambda>x. case x of Inl e \<Rightarrow> C_free s n (Inl e) | Inr v \<Rightarrow> C_recv s n)"
| "client_act P peer (C_recv s n) =
     Act_call (tls_recv (zz_stream s n) (at_buf P) 4096 0 (at_raw_buf P))
       (\<lambda>x. case x of
          Inl e \<Rightarrow> C_free s n (Inl e)
        | Inr v \<Rightarrow> (case v of V_int i \<Rightarrow> C_view s n i | _ \<Rightarrow> C_free s n (Inr V_unit)))"
| "client_act P peer (C_view s n i) =
     Act_sync (Sc_lib ''string_view'' [int (at_buf P), i mod 2 ^ 64]) (\<lambda>_. C_free s n (Inr V_unit))"
| "client_act P peer (C_free s n x) = Act_sync (Sc_lib ''SSL_free'' [n]) (\<lambda>_. C_close s x)"
| "client_act P peer (C_close s x) =
     (case socket_drop (fst (socket_move s)) of
        [] \<Rightarrow> (case x of Inl e \<Rightarrow> Act_throw e | Inr v \<Rightarrow> Act_return v)
      | fd # _ \<Rightarrow> Act_sync (Sc_close fd) (\<lambda>_. C_end x))"
| "client_act P peer (C_end x) = (case x of Inl e \<Rightarrow> Act_throw e | Inr v \<Rightarrow> Act_return v)"

definition client_main :: "places \<Rightarrow> exn + endpoint \<Rightarrow> val body" where
  "client_main P ep = (case ep of Inl e \<Rightarrow> Co_throw e | Inr peer \<Rightarrow> flow_body (client_act P peer) C_open)"

subsection \<open>A failed receive is read\<close>

text \<open>
  The result of \<^verbatim>\<open>recv\<close> is not tested: when it is -1, the view that is formatted has
  \<open>2 ^ 64 - 1\<close> bytes, of which the buffer has 4096.
\<close>

lemma client_views_too_much:
  "\<exists>c k. client_act P peer (C_recv s n) = Act_call c k \<and>
     (\<exists>k'. client_act P peer (k (Inr (V_int (- 1)))) =
        Act_sync (Sc_lib ''string_view'' [int (at_buf P), 2 ^ 64 - 1]) k')"
  by simp

subsection \<open>What the client releases\<close>

definition closes :: "socket \<Rightarrow> sync_call list" where
  "closes s = map Sc_close (socket_drop s)"

definition client_stream_calls :: "socket \<Rightarrow> sync_call list set" where
  "client_stream_calls s =
     insert (closes s) (\<Union>n r w. {Sc_lib ''SSL_set_bio'' [n, r, w] # Sc_lib ''SSL_free'' [n] # closes s})"

definition client_calls :: "socket \<Rightarrow> sync_call list set" where
  "client_calls s =
     insert (closes s) ((#) (Sc_lib ''SSL_CTX_new'' []) ` (\<Union>c. (#) (Sc_lib ''SSL_new'' [c]) ` client_stream_calls s))"

lemma client_owes_close: "owes (client_act P peer) (C_close s x) {closes s}"
proof -
  let ?f = "client_act P peer"
  have e: "owes ?f (C_end x) {[]}" by (cases x) (auto intro: owes_end)
  show ?thesis
  proof (cases "s_fd s > 0")
    case True
    then have "?f (C_close s x) = Act_sync (Sc_close (s_fd s)) (\<lambda>_. C_end x)" "closes s = [Sc_close (s_fd s)]"
      by (simp_all add: socket_drop_def socket_move_def closes_def)
    with owes_call_of [where f = ?f and p = "C_close s x" and D = "{[]}"] e show ?thesis by simp
  next
    case False
    then have "closes s = []" "?f (C_close s x) = ?f (C_end x)"
      by (simp_all add: socket_drop_def socket_move_def closes_def)
    then show ?thesis by (cases x) (auto intro: owes_end)
  qed
qed

lemma client_owes_session:
  "owes (client_act P peer) (C_handshake s n) {Sc_lib ''SSL_free'' [n] # closes s}"
proof -
  let ?f = "client_act P peer"
  let ?D = "{Sc_lib ''SSL_free'' [n] # closes s}"
  have free: "owes ?f (C_free s n x) ?D" for x
    using owes_call_of [where f = ?f and p = "C_free s n x", OF _ _ client_owes_close] by simp
  have view: "owes ?f (C_view s n i) ?D" for i
    by (rule owes_sync [where f = ?f, OF client_act.simps(11)]) (auto intro: free)
  have recv: "owes ?f (C_recv s n) ?D"
    by (rule owes_co_call [where f = ?f, OF client_act.simps(10) tls_begins_nothing(2)])
      (auto intro: free view split: sum.splits val.splits)
  have send: "owes ?f (C_send s n) ?D"
    by (rule owes_co_call [where f = ?f, OF client_act.simps(9) tls_begins_nothing(1)])
      (auto intro: free recv split: sum.splits)
  show ?thesis
    by (rule owes_co_call [where f = ?f, OF client_act.simps(8) tls_begins_nothing(3)])
      (auto intro: free send split: sum.splits)
qed

lemma client_owes_stream:
  "owes (client_act P peer) (C_ssl s c) ((#) (Sc_lib ''SSL_new'' [c]) ` client_stream_calls s)"
proof -
  let ?f = "client_act P peer" and ?D = "client_stream_calls s"
  have close: "owes ?f (C_close s x) ?D" for x
    by (rule owes_mono [OF client_owes_close]) (auto simp: client_stream_calls_def)
  have "owes ?f (C_set_bio s n r w) ((#) (Sc_lib ''SSL_set_bio'' [n, r, w]) ` {Sc_lib ''SSL_free'' [n] # closes s})" for n r w
    by (rule owes_call_of [where f = ?f, OF client_act.simps(7)]) (auto intro: client_owes_session)
  then have set_bio: "owes ?f (C_set_bio s n r w) ?D" for n r w
    by (rule owes_mono) (auto simp: client_stream_calls_def)
  have wbio: "owes ?f (C_write_bio s n r) ?D" for n r
    by (rule owes_sync [where f = ?f, OF client_act.simps(6)]) (auto intro: close set_bio)
  have rbio: "owes ?f (C_read_bio s n) ?D" for n
    by (rule owes_sync [where f = ?f, OF client_act.simps(5)]) (auto intro: close wbio)
  show ?thesis
    by (rule owes_call_of [where f = ?f, OF client_act.simps(4)]) (auto intro: close rbio)
qed

lemma owes_io:
  assumes p: "f p = Act_io op k" and k: "\<And>i. owes f (k i) D"
  shows "owes f p D"
  unfolding owes_def
proof (intro conjI allI impI)
  fix ctx es assume "begins ctx (flow_body f p) es"
  then consider "es = []" | i es' where "es = Io op i # es'" "begins ctx (flow_body f (k i)) es'"
    by (auto simp: flow_body_simps(3) [where f = f and p = p, OF p] begins_io)
  then show "\<exists>d \<in> D. prefix (resource_calls es) d"
    using owes_nonempty [OF k] owesD(1) [OF k] by cases auto
next
  fix ctx es r assume "direct ctx (flow_body f p) es r"
  then obtain i es' where "es = Io op i # es'" "direct ctx (flow_body f (k i)) es' r"
    by (auto simp: flow_body_simps(3) [where f = f and p = p, OF p] direct_io)
  with owesD(2) [OF k] show "resource_calls es \<in> D" by auto
qed

text \<open>From its socket on, the client closes the socket once, and frees its session before that.\<close>

lemma client_owes: "owes (client_act P peer) (C_connect s) (client_calls s)"
proof -
  let ?f = "client_act P peer"
  have close: "owes ?f (C_close s x) (client_calls s)" for x
    by (rule owes_mono [OF client_owes_close]) (auto simp: client_calls_def)
  have "owes ?f (C_ssl s c) (\<Union>c. (#) (Sc_lib ''SSL_new'' [c]) ` client_stream_calls s)" for c
    by (rule owes_mono [OF client_owes_stream]) auto
  then have "owes ?f (C_ctx s) ((#) (Sc_lib ''SSL_CTX_new'' []) ` (\<Union>c. (#) (Sc_lib ''SSL_new'' [c]) ` client_stream_calls s))"
    by (intro owes_call_of [where f = ?f, OF client_act.simps(3)]) auto
  then have ctx: "owes ?f (C_ctx s) (client_calls s)" by (rule owes_mono) (auto simp: client_calls_def)
  show ?thesis
    by (rule owes_io [where f = ?f, OF client_act.simps(2)]) (auto intro: close ctx split: sum.splits)
qed

lemma client_releases:
  assumes "direct ctx (client_main P (Inr peer)) es r"
  shows "es = [] \<and> r = Inl Bad_alloc \<or>
    (\<exists>fd es'. es = Sync (Sc_socket sock_AF_INET sock_SOCK_STREAM 0) fd # es' \<and>
       resource_calls es' \<in> client_calls (socket_new_peer fd peer))"
proof -
  let ?f = "client_act P peer"
  from assms have "direct ctx (flow_body ?f C_open) es r" by (simp add: client_main_def)
  then consider "direct ctx (flow_body ?f (C_end (Inl Bad_alloc))) es r"
    | fd es' where "es = Sync (Sc_socket sock_AF_INET sock_SOCK_STREAM 0) fd # es'"
        "direct ctx (flow_body ?f (C_connect (socket_new_peer fd peer))) es' r"
    by (fastforce simp: flow_body_simps(5) [where f = ?f and p = C_open, OF client_act.simps(1)]
        direct_call socket_open_peer_body_def direct_sync)
  then show ?thesis
  proof cases
    case 1
    then show ?thesis by (simp add: flow_body_simps(2) [where f = ?f and e = Bad_alloc])
  next
    case 2
    with owesD(2) [OF client_owes 2(2)] show ?thesis by blast
  qed
qed

end
