(* ===== verification/Coro_Types.thy ===== *)
theory Coro_Types
  imports Test_Client
begin

section \<open>What the coroutines return and throw\<close>

text \<open>
  The values of the model's coroutines have one type, \<open>val\<close>. A coroutine of the library that
  returns \<^verbatim>\<open>coro::task<T>\<close> returns values of its \<^verbatim>\<open>T\<close> only, and the exceptions that leave it
  are those of its own \<^verbatim>\<open>throw\<close> expressions, of what it constructs and of what it calls.
\<close>

subsection \<open>Outcomes of flow charts with calls\<close>

definition flow_ends :: "('p \<Rightarrow> bool) \<Rightarrow> (exn + 'v \<Rightarrow> bool) \<Rightarrow> ('p \<Rightarrow> ('p, 'v) act) \<Rightarrow> bool" where
  "flow_ends I R f \<longleftrightarrow>
     (\<forall>p. I p \<longrightarrow> (case f p of
        Act_return v \<Rightarrow> R (Inr v)
      | Act_throw e \<Rightarrow> R (Inl e)
      | Act_sync c k \<Rightarrow> \<forall>i. I (k i)
      | Act_io op k \<Rightarrow> \<forall>i. I (k i)
      | Act_call b k \<Rightarrow> I (k (Inl Bad_alloc)) \<and> (\<forall>ctx es x. direct ctx b es x \<longrightarrow> I (k x))
      | Act_launch b k \<Rightarrow> I (k (Inl Bad_alloc)) \<and> (\<forall>t. I (k (Inr t)))))"

lemma flow_endsD:
  assumes "flow_ends I R f" and "I p"
  shows "f p = Act_return v \<Longrightarrow> R (Inr v)" and "f p = Act_throw e \<Longrightarrow> R (Inl e)"
    and "f p = Act_sync c k \<Longrightarrow> I (k i)" and "f p = Act_io op ki \<Longrightarrow> I (ki i)"
    and "f p = Act_call b kr \<Longrightarrow> I (kr (Inl Bad_alloc))"
    and "f p = Act_call b kr \<Longrightarrow> direct ctx b es x \<Longrightarrow> I (kr x)"
    and "f p = Act_launch b kl \<Longrightarrow> I (kl (Inl Bad_alloc))" and "f p = Act_launch b kl \<Longrightarrow> I (kl (Inr t))"
  using assms unfolding flow_ends_def by (force split: act.splits)+

lemma flow_ends_direct:
  assumes ends: "flow_ends I R f"
  shows "direct ctx b es r \<Longrightarrow> b = flow_body f p \<Longrightarrow> I p \<Longrightarrow> R r"
proof (induction arbitrary: p rule: direct.induct)
  case (d_end r)
  note e = flow_endsD [OF ends d_end.prems(2)]
  from d_end.prems(1) e(1,2) show ?case
    by (cases "f p"; cases r) (auto simp: flow_body_simps)
next
  case (d_io k i es r op)
  from d_io.prems(1) obtain k' where "f p = Act_io op k'" "k = (\<lambda>i. flow_body f (k' i))"
    by (cases "f p") (auto simp: flow_body_simps)
  with d_io.IH [of "k' i"] flow_endsD(4) [OF ends d_io.prems(2)] show ?case by auto
next
  case (d_call b es1 r1 k es2 r2)
  from d_call.prems(1) obtain k' where k: "f p = Act_call b k'" "k = (\<lambda>x. flow_body f (k' x))"
    by (cases "f p") (auto simp: flow_body_simps)
  from flow_endsD(6) [OF ends d_call.prems(2) k(1) d_call.hyps(1)] have "I (k' r1)" .
  with d_call.IH(2) [of "k' r1"] k show ?case by auto
next
  case (d_call_fails k es r b)
  from d_call_fails.prems(1) obtain k' where "f p = Act_call b k'" "k = (\<lambda>x. flow_body f (k' x))"
    by (cases "f p") (auto simp: flow_body_simps)
  with d_call_fails.IH [of "k' (Inl Bad_alloc)"] flow_endsD(5) [OF ends d_call_fails.prems(2)] show ?case by auto
next
  case (d_launch kl t es r b)
  from d_launch.prems(1) obtain k' where "f p = Act_launch b k'" "kl = (\<lambda>x. flow_body f (k' x))"
    by (cases "f p") (auto simp: flow_body_simps)
  with d_launch.IH [of "k' (Inr t)"] flow_endsD(8) [OF ends d_launch.prems(2)] show ?case by auto
next
  case (d_launch_fails kl es r b)
  from d_launch_fails.prems(1) obtain k' where "f p = Act_launch b k'" "kl = (\<lambda>x. flow_body f (k' x))"
    by (cases "f p") (auto simp: flow_body_simps)
  with d_launch_fails.IH [of "k' (Inl Bad_alloc)"] flow_endsD(7) [OF ends d_launch_fails.prems(2)] show ?case by auto
next
  case (d_sync ks i es r c)
  from d_sync.prems(1) obtain k' where "f p = Act_sync c k'" "ks = (\<lambda>i. flow_body f (k' i))"
    by (cases "f p") (auto simp: flow_body_simps)
  with d_sync.IH [of "k' i"] flow_endsD(3) [OF ends d_sync.prems(2)] show ?case by auto
next
  case (d_context kc es r)
  then show ?case by (cases "f p") (auto simp: flow_body_simps)
next
  case (d_join k r1 es r t)
  then show ?case by (cases "f p") (auto simp: flow_body_simps)
qed

subsection \<open>Types and exceptions\<close>

datatype ctype = T_void | T_int | T_result_void | T_socket | T_server_socket | T_file

fun has_type :: "val \<Rightarrow> ctype \<Rightarrow> bool" where
  "has_type V_unit ty \<longleftrightarrow> ty = T_void"
| "has_type (V_int i) ty \<longleftrightarrow> ty = T_int"
| "has_type (V_status r) ty \<longleftrightarrow> ty = T_result_void"
| "has_type (V_socket s) ty \<longleftrightarrow> ty = T_socket"
| "has_type (V_server s) ty \<longleftrightarrow> ty = T_server_socket"
| "has_type (V_file f) ty \<longleftrightarrow> ty = T_file"

definition ends_in :: "ctype \<Rightarrow> exn set \<Rightarrow> exn + val \<Rightarrow> bool" where
  "ends_in ty X r \<longleftrightarrow> (case r of Inl e \<Rightarrow> e \<in> X | Inr v \<Rightarrow> has_type v ty)"

lemma ends_in_simps [simp]:
  "ends_in ty X (Inl e) \<longleftrightarrow> e \<in> X" "ends_in ty X (Inr v) \<longleftrightarrow> has_type v ty"
  by (simp_all add: ends_in_def)

definition send_errors :: "exn set" where
  "send_errors = {Runtime_error ''ssl write error TODO'', Runtime_error ''ssl read error TODO''}"

definition handler_errors :: "exn set" where
  "handler_errors =
     {Bad_alloc, Runtime_error ''SSL_new failed'', Runtime_error ''BIO_new failed''} \<union> send_errors"

text \<open>The coroutine functions of the library, of the server and of the client, with their \<^verbatim>\<open>T\<close>.\<close>

inductive coroutine :: "val body \<Rightarrow> ctype \<Rightarrow> exn set \<Rightarrow> bool" where
  co_open: "coroutine socket_open_body T_socket {}"
| co_open_peer: "coroutine (socket_open_peer_body peer) T_socket {}"
| co_server_open: "coroutine server_open_body T_server_socket {Runtime_error ''socket creation failed''}"
| co_file: "coroutine (file_of_body path flag) T_file {}"
| co_delay_ts: "coroutine (delay_ts_body ts_at ts) T_result_void {}"
| co_delay: "coroutine (delay_mills_body ts_at mills) T_result_void {}"
| co_handshake: "coroutine (tls_handshake x ty hb) T_result_void {}"
| co_send: "coroutine (tls_send x buf len flag wb) T_int send_errors"
| co_recv: "coroutine (tls_recv x buf len flag rb) T_int {}"
| co_zz: "coroutine (zz P s) T_void handler_errors"
| co_client: "coroutine (client_main P ep) T_void (handler_errors \<union> (case ep of Inl e \<Rightarrow> {e} | Inr _ \<Rightarrow> {}))"
| co_server: "coroutine (server_main P) T_void {Bad_alloc, Runtime_error ''socket creation failed''}"

subsection \<open>Each of them\<close>

fun send_ends :: "send_pc \<Rightarrow> bool" where
  "send_ends (S_throw e) \<longleftrightarrow> e \<in> send_errors"
| "send_ends _ \<longleftrightarrow> True"

lemma send_flow_ends: "flow_ends send_ends (ends_in T_int send_errors) (send_act x buf len flag wb)"
  unfolding flow_ends_def
proof (intro allI impI)
  fix p assume p: "send_ends p"
  show "case send_act x buf len flag wb p of Act_return v \<Rightarrow> ends_in T_int send_errors (Inr v)
    | Act_throw e \<Rightarrow> ends_in T_int send_errors (Inl e) | Act_sync c k \<Rightarrow> \<forall>i. send_ends (k i)
    | Act_io op k \<Rightarrow> \<forall>i. send_ends (k i)
    | Act_call b k \<Rightarrow> send_ends (k (Inl Bad_alloc)) \<and> (\<forall>ctx es x. direct ctx b es x \<longrightarrow> send_ends (k x))
    | Act_launch b k \<Rightarrow> send_ends (k (Inl Bad_alloc)) \<and> (\<forall>t. send_ends (k (Inr t)))"
    by (cases p) (use p in \<open>auto simp: send_errors_def send_more_def Let_def\<close>)
qed

lemma recv_flow_ends: "flow_ends (\<lambda>_. True) (ends_in T_int {}) (recv_act x buf len flag rb)"
  unfolding flow_ends_def by (rule allI, rename_tac p, case_tac p) auto

lemma hs_flow_ends: "flow_ends (\<lambda>_. True) (ends_in T_result_void {}) (hs_act x ty hb)"
  unfolding flow_ends_def by (rule allI, rename_tac p, case_tac p) auto

lemma send_direct_ends: "direct ctx (tls_send x buf len flag wb) es r \<Longrightarrow> ends_in T_int send_errors r"
  unfolding tls_send_def by (rule flow_ends_direct [OF send_flow_ends _ refl]) auto

lemma recv_direct_ends: "direct ctx (tls_recv x buf len flag rb) es r \<Longrightarrow> ends_in T_int {} r"
  unfolding tls_recv_def by (rule flow_ends_direct [OF recv_flow_ends _ refl]) auto

lemma hs_direct_ends: "direct ctx (tls_handshake x ty hb) es r \<Longrightarrow> ends_in T_result_void {} r"
  unfolding tls_handshake_def by (rule flow_ends_direct [OF hs_flow_ends _ refl]) auto

fun zz_ends :: "zz_pc \<Rightarrow> bool" where
  "zz_ends (Z_free n x) \<longleftrightarrow> ends_in T_void handler_errors x"
| "zz_ends (Z_close x) \<longleftrightarrow> ends_in T_void handler_errors x"
| "zz_ends (Z_end x) \<longleftrightarrow> ends_in T_void handler_errors x"
| "zz_ends _ \<longleftrightarrow> True"

lemma zz_flow_ends: "flow_ends zz_ends (ends_in T_void handler_errors) (zz_act P s)"
  unfolding flow_ends_def
proof (intro allI impI)
  fix p assume p: "zz_ends p"
  show "case zz_act P s p of Act_return v \<Rightarrow> ends_in T_void handler_errors (Inr v)
    | Act_throw e \<Rightarrow> ends_in T_void handler_errors (Inl e) | Act_sync c k \<Rightarrow> \<forall>i. zz_ends (k i)
    | Act_io op k \<Rightarrow> \<forall>i. zz_ends (k i)
    | Act_call b k \<Rightarrow> zz_ends (k (Inl Bad_alloc)) \<and> (\<forall>ctx es x. direct ctx b es x \<longrightarrow> zz_ends (k x))
    | Act_launch b k \<Rightarrow> zz_ends (k (Inl Bad_alloc)) \<and> (\<forall>t. zz_ends (k (Inr t)))"
  proof (cases p)
    case (Z_handshake n)
    then show ?thesis by (auto simp: handler_errors_def ends_in_def dest!: hs_direct_ends split: sum.splits)
  next
    case (Z_recv n)
    then show ?thesis by (auto simp: handler_errors_def ends_in_def dest!: recv_direct_ends split: sum.splits val.splits)
  next
    case (Z_send n)
    then show ?thesis by (auto simp: handler_errors_def ends_in_def dest!: send_direct_ends split: sum.splits)
  qed (use p in \<open>auto simp: handler_errors_def split: sum.splits list.splits\<close>)
qed

fun client_ends :: "client_pc \<Rightarrow> bool" where
  "client_ends (C_free s n x) \<longleftrightarrow> ends_in T_void handler_errors x"
| "client_ends (C_close s x) \<longleftrightarrow> ends_in T_void handler_errors x"
| "client_ends (C_end x) \<longleftrightarrow> ends_in T_void handler_errors x"
| "client_ends _ \<longleftrightarrow> True"

lemma client_flow_ends: "flow_ends client_ends (ends_in T_void handler_errors) (client_act P peer)"
  unfolding flow_ends_def
proof (intro allI impI)
  fix p assume p: "client_ends p"
  show "case client_act P peer p of Act_return v \<Rightarrow> ends_in T_void handler_errors (Inr v)
    | Act_throw e \<Rightarrow> ends_in T_void handler_errors (Inl e) | Act_sync c k \<Rightarrow> \<forall>i. client_ends (k i)
    | Act_io op k \<Rightarrow> \<forall>i. client_ends (k i)
    | Act_call b k \<Rightarrow> client_ends (k (Inl Bad_alloc)) \<and> (\<forall>ctx es x. direct ctx b es x \<longrightarrow> client_ends (k x))
    | Act_launch b k \<Rightarrow> client_ends (k (Inl Bad_alloc)) \<and> (\<forall>t. client_ends (k (Inr t)))"
  proof (cases p)
    case C_open
    then show ?thesis by (auto simp: handler_errors_def socket_open_peer_body_def direct_sync)
  next
    case (C_handshake s n)
    then show ?thesis by (auto simp: handler_errors_def ends_in_def dest!: hs_direct_ends split: sum.splits)
  next
    case (C_recv s n)
    then show ?thesis by (auto simp: handler_errors_def ends_in_def dest!: recv_direct_ends split: sum.splits val.splits)
  next
    case (C_send s n)
    then show ?thesis by (auto simp: handler_errors_def ends_in_def dest!: send_direct_ends split: sum.splits)
  qed (use p in \<open>auto simp: handler_errors_def split: sum.splits list.splits\<close>)
qed

definition server_errors :: "exn set" where
  "server_errors = {Bad_alloc, Runtime_error ''socket creation failed''}"

fun server_ends :: "server_pc \<Rightarrow> bool" where
  "server_ends (M_unwind ss s e) \<longleftrightarrow> e \<in> server_errors"
| "server_ends (M_drop ss x) \<longleftrightarrow> ends_in T_void server_errors x"
| "server_ends (M_end x) \<longleftrightarrow> ends_in T_void server_errors x"
| "server_ends _ \<longleftrightarrow> True"

lemma server_open_ends: "direct ctx server_open_body es r \<Longrightarrow> ends_in T_server_socket {Runtime_error ''socket creation failed''} r"
  by (auto simp: server_open_body_def direct_sync split: if_splits)

lemma server_flow_ends: "flow_ends server_ends (ends_in T_void server_errors) (server_act P)"
  unfolding flow_ends_def
proof (intro allI impI)
  fix p assume p: "server_ends p"
  show "case server_act P p of Act_return v \<Rightarrow> ends_in T_void server_errors (Inr v)
    | Act_throw e \<Rightarrow> ends_in T_void server_errors (Inl e) | Act_sync c k \<Rightarrow> \<forall>i. server_ends (k i)
    | Act_io op k \<Rightarrow> \<forall>i. server_ends (k i)
    | Act_call b k \<Rightarrow> server_ends (k (Inl Bad_alloc)) \<and> (\<forall>ctx es x. direct ctx b es x \<longrightarrow> server_ends (k x))
    | Act_launch b k \<Rightarrow> server_ends (k (Inl Bad_alloc)) \<and> (\<forall>t. server_ends (k (Inr t)))"
  proof (cases p)
    case M_open
    then show ?thesis by (auto simp: server_errors_def ends_in_def dest!: server_open_ends split: sum.splits val.splits)
  qed (use p in \<open>auto simp: server_errors_def split: sum.splits list.splits\<close>)
qed

lemma coroutine_direct: "coroutine b ty X \<Longrightarrow> direct ctx b es r \<Longrightarrow> ends_in ty X r"
proof (induction rule: coroutine.induct)
  case (co_zz P s)
  then show ?case unfolding zz_def by (rule flow_ends_direct [OF zz_flow_ends _ refl]) simp
next
  case (co_client P ep)
  show ?case
  proof (cases ep)
    case (Inr peer)
    with co_client have "direct ctx (flow_body (client_act P peer) C_open) es r" by (simp add: client_main_def)
    from flow_ends_direct [OF client_flow_ends this refl] Inr show ?thesis by simp
  qed (use co_client in \<open>simp add: client_main_def\<close>)
next
  case (co_server P)
  then have "ends_in T_void server_errors r"
    unfolding server_main_def by (rule flow_ends_direct [OF server_flow_ends _ refl]) simp
  then show ?case unfolding server_errors_def .
next
  case (co_file path flag)
  then show ?case by (auto simp: file_of_body_def direct_sync)
qed (auto simp: socket_open_body_def socket_open_peer_body_def direct_sync delay_ts_direct delay_mills_direct
    dest: server_open_ends hs_direct_ends send_direct_ends recv_direct_ends)

subsection \<open>Properties\<close>



end
