(* ===== verification/Dropped_Task.thy ===== *)
theory Dropped_Task
  imports Runtime_Results
begin

section \<open>Destroying a task that waits\<close>

text \<open>
  The bodies of \<open>Coro_Program\<close> keep a launched task until they await it. A program may also
  destroy it: the destructor \<^verbatim>\<open>task::~task\<close> destroys the frame at once, whatever the coroutine is
  doing, and the awaiter the coroutine is suspended on, with its \<^verbatim>\<open>io_data\<close>, goes with the frame.
\<close>

definition drop_frame :: "coro \<Rightarrow> ('r, 'v) rworld \<Rightarrow> ('r, 'v) rworld outcome" where
  "drop_frame h w =
     obind (destroy_frame h w) (\<lambda>w1. Ret (w1\<lparr>
       cells := (case conts w h of Some (Cont_io a op k) \<Rightarrow> (cells w1)(a := None) | _ \<Rightarrow> cells w1),
       conts := (conts w1)(h := None), owned := owned w1 - {h}\<rparr>))"

fun drop_frames :: "coro list \<Rightarrow> ('r, 'v) rworld \<Rightarrow> ('r, 'v) rworld outcome" where
  "drop_frames [] w = Ret w"
| "drop_frames (h # hs) w = obind (drop_frame h w) (drop_frames hs)"

text \<open>The destructor.\<close>

definition task_destroy :: "task \<Rightarrow> ('r, 'v) rworld \<Rightarrow> ('r, 'v) rworld outcome" where
  "task_destroy tk w = drop_frames (task_drop tk) w"

text \<open>While a coroutine waits, its cell is the user data of a pending entry.\<close>

lemma cell_pending:
  assumes "sim pend cfg S" and "cells (snd cfg) a = Some d"
  shows "Ud_cell a \<in># pend (ring (snd cfg)) \<and> (\<exists>h op k. io_handle d = Some h \<and>
    conts (snd cfg) h = Some (Cont_io a op k) \<and> frames (snd cfg) h \<noteq> None)"
proof -
  obtain ctl w where cfg: "cfg = (ctl, w)" by (cases cfg)
  from assms(1) obtain P where G: "good w (active ctl) S P"
    and p: "\<exists>fin X. pend (ring w) = pending (cells w) fin + X"
    by (auto simp: sim_def cfg split: if_splits) (metis add_0_right)+
  have d: "cells w a = Some d" using assms(2) by (simp add: cfg)
  from p obtain fin X where "pend (ring w) = pending (cells w) fin + X" by blast
  with pending_del [OF goodD(4) [OF G] d, of fin] have "Ud_cell a \<in># pend (ring w)" by simp
  moreover from cell_fiber [OF G d] obtain f op k ks h where
    h: "S f = Some (A_wait op k ks)" "P f = (h, snd (P f))" "io_handle d = Some h" "conts w h = Some (Cont_io a op k)"
    by blast
  moreover from top_fiber(2) [OF G h(1)] h(2) have "frames w h \<noteq> None" by (metis astate.distinct(9) fst_conv)
  ultimately show ?thesis by (auto simp: cfg)
qed

subsection \<open>Properties\<close>

text \<open>
  C24: destroying the owner of a launched task that waits for I/O makes the loop use freed
  memory. The destructor succeeds and frees the frame with the cell in it, but the submission
  is not cancelled: its entry stays pending, and the turn of the loop that gets its completion
  writes through the dangling pointer.
\<close>

theorem dropped_task_faults:
  fixes w' :: "('r, 'v) rworld"
  assumes program: "pend_contract lib pend" "fresh_program pend tk w" "program_start tk b w = Ret cfg"
      "rsteps lib cfg ls (ctl, w')"
    and waits: "t \<in> owned w'" "cells w' a = Some d" "io_handle d = Some t"
  shows "\<exists>w2. task_destroy \<lparr>t_handle = Some t\<rparr> w' = Ret w2 \<and> frames w2 t = None \<and>
    Ud_cell a \<in># pend (ring w2) \<and>
    (\<forall>c q r invoke. wait_cqe lib c (ring w2) = (0, Some q, r) \<and> user_data q = Ud_cell a \<longrightarrow>
       loop_turn lib invoke c w2 = Fault Dangling)"
proof -
  from program_sim [OF program] obtain S where "sim pend (ctl, w') S" by blast
  from cell_pending [OF this, of a d] waits obtain op k f where
    p: "Ud_cell a \<in># pend (ring w')" and c: "conts w' t = Some (Cont_io a op k)" and f: "frames w' t = Some f"
    by auto
  let ?w2 = "w'\<lparr>frames := (frames w')(t := None), cells := (cells w')(a := None), conts := (conts w')(t := None),
     owned := owned w' - {t}\<rparr>"
  have "task_destroy \<lparr>t_handle = Some t\<rparr> w' = Ret ?w2"
    using c f by (simp add: task_destroy_def task_drop_def drop_frame_def destroy_frame_def)
  moreover have "loop_turn lib invoke x ?w2 = Fault Dangling"
    if "wait_cqe lib x (ring ?w2) = (0, Some q, r)" "user_data q = Ud_cell a" for x q r invoke
    using that by (simp add: loop_turn_def uring_resume_def call_cell_def)
  ultimately show ?thesis using p by (intro exI [of _ ?w2]) auto
qed

theorem dropped_task_faults_witness:
  "\<exists>w2. task_destroy \<lparr>t_handle = Some 2\<rparr> demo_launched = Ret w2 \<and>
     (\<forall>invoke. loop_turn rt_ring invoke None w2 = Fault Dangling)"
proof -
  have "rsteps rt_ring (Run None [] 3 demo_body, demo_start) [Event None (Launch 2 leaf)]
      (Run None [] 3 (Co_join 2 result_body), demo_launched)"
    using rsteps_trans [OF rsteps_one [OF demo_launch_steps(2)] rsteps_one [OF demo_launch_steps(1)]] by simp
  from dropped_task_faults [OF rt_ring_pend demo_fresh demo_started this, of 2 0] obtain w2 where
    w2: "task_destroy \<lparr>t_handle = Some 2\<rparr> demo_launched = Ret w2" and
    turn: "\<forall>c q r invoke. wait_cqe rt_ring c (ring w2) = (0, Some q, r) \<and> user_data q = Ud_cell 0 \<longrightarrow>
       loop_turn rt_ring invoke c w2 = Fault Dangling"
    by (auto simp: demo_launched_def)
  from w2 have "ring w2 = [Ud_cell 0]"
    by (auto simp: task_destroy_def task_drop_def drop_frame_def destroy_frame_def demo_launched_def)
  then have "wait_cqe rt_ring None (ring w2) = (0, Some \<lparr>user_data = Ud_cell 0, res = 41\<rparr>, [Ud_cell 0])"
    by (simp add: rt_ring_def)
  with turn have "loop_turn rt_ring invoke None w2 = Fault Dangling" for invoke by force
  with w2 show ?thesis by blast
qed

end
