(* ===== verification/Traits.thy ===== *)
theory Traits
  imports Ownership Coro_Task
begin

section \<open>Utilities and unused interfaces\<close>

text \<open>
  \<^verbatim>\<open>kkp_traits.hpp\<close> (\<^verbatim>\<open>match\<close>, \<^verbatim>\<open>defer\<close>), \<^verbatim>\<open>kkp_macros.hpp\<close>, the owning pointers of
  \<^verbatim>\<open>ssl/kkp_openssl.hpp\<close> and the awaiter of \<^verbatim>\<open>coro/promise.hpp\<close>. No other part of the
  repository uses them; the concepts of \<^verbatim>\<open>kkp_traits.hpp\<close> exist at compile time only.
\<close>

subsection \<open>\<^verbatim>\<open>match\<close>\<close>

text \<open>The visitor is a pair of functions, for a value and for none.\<close>

definition match_optional :: "('a \<Rightarrow> 'b outcome) \<times> (unit \<Rightarrow> 'b outcome) \<Rightarrow> 'a option \<Rightarrow> 'b outcome" where
  "match_optional visitor x = (case x of Some v \<Rightarrow> fst visitor v | None \<Rightarrow> snd visitor ())"

lemma match_optional_cases:
  "match_optional v x = r \<longleftrightarrow> (\<exists>a. x = Some a \<and> fst v a = r) \<or> x = None \<and> snd v () = r"
  by (cases x) (auto simp: match_optional_def)

subsection \<open>\<^verbatim>\<open>defer\<close>\<close>

text \<open>
  The rest of a scope runs as \<open>body\<close>, then the destructor calls \<open>fn\<close>, whatever the way out. The
  destructor is \<^verbatim>\<open>noexcept\<close> when \<open>fn\<close> is; an exception of \<open>fn\<close> while another one is under way
  ends the program.
\<close>

definition with_defer ::
  "bool \<Rightarrow> ('s \<Rightarrow> unit outcome \<times> 's) \<Rightarrow> ('s \<Rightarrow> 'a outcome \<times> 's) \<Rightarrow> 's \<Rightarrow> 'a outcome \<times> 's" where
  "with_defer no_exc fn body s =
     (case body s of
        (Fault u, s1) \<Rightarrow> (Fault u, s1)
      | (Ret v, s1) \<Rightarrow>
          (case fn s1 of
             (Ret _, s2) \<Rightarrow> (Ret v, s2)
           | (Thrown e, s2) \<Rightarrow> (if no_exc then Fault Terminate else Thrown e, s2)
           | (Fault u, s2) \<Rightarrow> (Fault u, s2))
      | (Thrown e, s1) \<Rightarrow>
          (case fn s1 of
             (Ret _, s2) \<Rightarrow> (Thrown e, s2)
           | (Thrown e', s2) \<Rightarrow> (Fault Terminate, s2)
           | (Fault u, s2) \<Rightarrow> (Fault u, s2)))"

text \<open>With functions that do not throw, a scope's defers run once each, the last one first.\<close>

lemma defers_run_backwards:
  assumes "\<And>s. f s = (Ret (), F s)" and "\<And>s. g s = (Ret (), G s)" and "body s = (r, s')"
    and "\<forall>u. r \<noteq> Fault u"
  shows "with_defer b1 f (with_defer b2 g body) s = (r, F (G s'))"
  using assms by (cases r) (simp_all add: with_defer_def)

subsection \<open>The macros\<close>

text \<open>
  \<^verbatim>\<open>x##y\<close> pastes its arguments as they are written. \<^verbatim>\<open>KKP_DEFER\<close> passes \<^verbatim>\<open>__LINE__\<close>, so the name it
  declares is the same on every line, and a scope has room for one.
\<close>

definition concatenate :: "string \<Rightarrow> string \<Rightarrow> string" where
  "concatenate x y = x @ y"

definition kkp_defer_name :: "nat \<Rightarrow> string" where
  "kkp_defer_name line = concatenate ''_defer_'' ''__LINE__''"

lemma kkp_defer_names_clash: "kkp_defer_name i = kkp_defer_name j"
  by (simp add: kkp_defer_name_def)

definition kkp_debug_assert :: "bool \<Rightarrow> bool \<Rightarrow> unit outcome" where
  "kkp_debug_assert ndebug x = (if ndebug \<or> x then Ret () else Fault Terminate)"

subsection \<open>Owning pointers to OpenSSL objects\<close>

datatype openssl_type = Type_SSL_CTX | Type_SSL | Type_BIO

datatype openssl_free = Free_SSL_CTX nat | Free_SSL nat | Free_BIO nat

text \<open>The deleter, and \<^verbatim>\<open>std::unique_ptr\<close> with it: one pointer of its type, or null.\<close>

fun kkp_openssl_free :: "openssl_type \<Rightarrow> nat option \<Rightarrow> openssl_free list" where
  "kkp_openssl_free ty None = []"
| "kkp_openssl_free Type_SSL_CTX (Some p) = [Free_SSL_CTX p]"
| "kkp_openssl_free Type_SSL (Some p) = [Free_SSL p]"
| "kkp_openssl_free Type_BIO (Some p) = [Free_BIO p]"

definition ssl_ptr_move :: "nat option \<Rightarrow> nat option \<times> nat option" where
  "ssl_ptr_move other = (other, None)"

definition ssl_ptr_assign :: "openssl_type \<Rightarrow> nat option \<Rightarrow> nat option \<Rightarrow> nat option \<times> nat option \<times> openssl_free list"
where
  "ssl_ptr_assign ty this other = (other, None, kkp_openssl_free ty this)"

interpretation ssl_ptr_owner:
  unique_owner "\<lambda>_. True" "kkp_openssl_free ty" ssl_ptr_move "ssl_ptr_assign ty" "kkp_openssl_free ty" for ty
  by unfold_locales (simp_all add: ssl_ptr_move_def ssl_ptr_assign_def)

text \<open>Every object such pointers hold is freed once, by the function of its type.\<close>

lemma ssl_ptrs_free_once:
  assumes "pool_run ssl_ptr_move (ssl_ptr_assign ty) (kkp_openssl_free ty) xs (map (Some \<circ> Some) ps, []) = (pool, freed)"
    and "\<forall>x \<in> set pool. x = None"
  shows "mset freed = mset (concat (map (kkp_openssl_free ty \<circ> Some) ps))"
proof -
  have "held (kkp_openssl_free ty) (map (Some \<circ> Some) ps) = mset (concat (map (kkp_openssl_free ty \<circ> Some) ps))"
    by (induction ps) (simp_all add: held_Cons)
  with ssl_ptr_owner.all_released [OF assms] show ?thesis by simp
qed

subsection \<open>\<^verbatim>\<open>coro/promise.hpp\<close>\<close>

text \<open>
  The class \<^verbatim>\<open>promise<T>\<close> holds the handle of a task. It is never ready and its \<^verbatim>\<open>await_suspend\<close>
  has an empty body: the coroutine stays suspended, and nothing knows of it. Its
  \<^verbatim>\<open>await_resume\<close> is \<^verbatim>\<open>noexcept\<close>, so an exception of the task ends the program there.
\<close>

record coro_promise =
  cp_task_handle :: "coro option"

definition coro_promise_new :: "coro option \<Rightarrow> coro_promise" where
  "coro_promise_new h = \<lparr>cp_task_handle = h\<rparr>"

definition coro_promise_await_ready :: "coro_promise \<Rightarrow> bool" where
  "coro_promise_await_ready p = False"

definition coro_promise_await_suspend ::
  "coro_promise \<Rightarrow> coro \<Rightarrow> ('r, 'v, 'z) tworld_scheme \<Rightarrow> ('r, 'v, 'z) tworld_scheme" where
  "coro_promise_await_suspend p caller_h w = w"

definition coro_promise_await_resume :: "coro_promise \<Rightarrow> ('r, 'v, 'z) tworld_scheme \<Rightarrow> 'v outcome" where
  "coro_promise_await_resume p w =
     (case task_await_resume (cp_task_handle p) w of Thrown e \<Rightarrow> Fault Terminate | x \<Rightarrow> x)"

text \<open>So the task, when it completes, does not resume the coroutine that awaits the promise.\<close>

lemma coro_promise_never_resumes:
  assumes "coro_promise_await_suspend p c w = w1" and "cp_task_handle p = Some t"
    and "frames w t = Some f" and "caller (promise f) \<noteq> Some c"
    and "task_complete lib t r w1 = Ret (tr, w2)"
  shows "tr \<noteq> Resume c"
  using assms
  by (cases r; auto simp: coro_promise_await_suspend_def task_complete_def final_await_suspend_def Let_def outcome_simps
      split: option.splits if_splits)

end
