(* ===== verification/Structured.thy ===== *)
theory Structured
  imports Coro_Program
begin

section \<open>Programs that await what they launched\<close>

text \<open>
  A program may get stuck by awaiting a task it does not own, or when tasks await each other.
  Neither happens when every coroutine awaits only tasks that it launched itself, each at
  most once, which is how the move-only \<^verbatim>\<open>task\<close> is used when it is kept in a local variable.
\<close>

subsection \<open>The discipline\<close>

text \<open>\<open>T\<close> are the tasks that the body has launched and not awaited.\<close>

coinductive tidy :: "coro set \<Rightarrow> 'v body \<Rightarrow> bool" where
  t_return: "tidy T (Co_return v)"
| t_throw: "tidy T (Co_throw e)"
| t_io: "(\<And>i. tidy T (k i)) \<Longrightarrow> tidy T (Co_io op k)"
| t_call: "tidy {} b \<Longrightarrow> (\<And>r. tidy T (kr r)) \<Longrightarrow> tidy T (Co_call b kr)"
| t_context: "(\<And>c. tidy T (kc c)) \<Longrightarrow> tidy T (Co_context kc)"
| t_launch: "tidy {} b \<Longrightarrow> (\<And>t. tidy (insert t T) (kl (Inr t))) \<Longrightarrow> (\<And>e. tidy T (kl (Inl e))) \<Longrightarrow>
    tidy T (Co_launch b kl)"
| t_join: "t \<in> T \<Longrightarrow> (\<And>r. tidy (T - {t}) (kr r)) \<Longrightarrow> tidy T (Co_join t kr)"
| t_sync: "(\<And>i. tidy T (ks i)) \<Longrightarrow> tidy T (Co_sync c ks)"

inductive_simps tidy_simps [simp]:
  "tidy T (Co_return v)" "tidy T (Co_throw e)" "tidy T (Co_io op k)" "tidy T (Co_call b kr)"
  "tidy T (Co_context kc)" "tidy T (Co_launch b kl)" "tidy T (Co_join t kr)" "tidy T (Co_sync c ks)"

lemma tidy_result [simp]: "tidy T (result_body r)"
  by (cases r) simp_all

text \<open>
  What a fiber holds at any moment: the sets of the coroutines on its stack are disjoint
  parts of \<open>H\<close>, the tasks launched by the fiber that it has not awaited.
\<close>

fun apart :: "'a set list \<Rightarrow> bool" where
  "apart [] \<longleftrightarrow> True"
| "apart (T # Ts) \<longleftrightarrow> T \<inter> \<Union> (set Ts) = {} \<and> apart Ts"

fun tidy_top :: "coro set \<Rightarrow> 'v astate \<Rightarrow> bool" where
  "tidy_top T (A_run b ks) \<longleftrightarrow> tidy T b"
| "tidy_top T (A_wait op k ks) \<longleftrightarrow> (\<forall>i. tidy T (k i))"
| "tidy_top T (A_join t kr ks) \<longleftrightarrow> t \<in> T \<and> (\<forall>r. tidy (T - {t}) (kr r))"
| "tidy_top T (A_finished r) \<longleftrightarrow> True"

definition tidy_state :: "coro set \<Rightarrow> 'v astate \<Rightarrow> bool" where
  "tidy_state H st \<longleftrightarrow>
     (\<exists>T Ts. tidy_top T st \<and> list_all2 (\<lambda>T kr. \<forall>r. tidy T (kr r)) Ts (stack_of st) \<and>
        apart (T # Ts) \<and> T \<union> \<Union> (set Ts) \<subseteq> H)"

lemma tidy_stateI:
  "tidy_top T st \<Longrightarrow> list_all2 (\<lambda>T kr. \<forall>r. tidy T (kr r)) Ts (stack_of st) \<Longrightarrow> apart (T # Ts) \<Longrightarrow>
   T \<union> \<Union> (set Ts) \<subseteq> H \<Longrightarrow> tidy_state H st"
  unfolding tidy_state_def by blast

lemma tidy_stateE:
  assumes "tidy_state H st"
  obtains T Ts where "tidy_top T st" "list_all2 (\<lambda>T kr. \<forall>r. tidy T (kr r)) Ts (stack_of st)" "apart Ts"
    "\<forall>X \<in> set Ts. \<forall>t \<in> X. t \<notin> T" "\<forall>t \<in> T. t \<in> H" "\<forall>X \<in> set Ts. \<forall>t \<in> X. t \<in> H"
  using assms unfolding tidy_state_def apart.simps by blast

fun launch_ids :: "'v event list \<Rightarrow> coro list" where
  "launch_ids [] = []"
| "launch_ids (Launch t b # es) = t # launch_ids es"
| "launch_ids (_ # es) = launch_ids es"

fun join_ids :: "'v event list \<Rightarrow> coro set" where
  "join_ids [] = {}"
| "join_ids (Join t r # es) = insert t (join_ids es)"
| "join_ids (_ # es) = join_ids es"

lemma launch_ids_append [simp]: "launch_ids (es @ es') = launch_ids es @ launch_ids es'"
  by (induction es rule: launch_ids.induct) simp_all

lemma join_ids_append [simp]: "join_ids (es @ es') = join_ids es \<union> join_ids es'"
  by (induction es rule: join_ids.induct) simp_all

lemma in_launch_ids: "t \<in> set (launch_ids es) \<longleftrightarrow> (\<exists>b. Launch t b \<in> set es)"
  by (induction es rule: launch_ids.induct) auto

lemma in_join_ids: "t \<in> join_ids es \<longleftrightarrow> (\<exists>r. Join t r \<in> set es)"
  by (induction es rule: join_ids.induct) auto

definition tidy_launches :: "'v event list \<Rightarrow> bool" where
  "tidy_launches es \<longleftrightarrow> (\<forall>t b. Launch t b \<in> set es \<longrightarrow> tidy {} b)"

lemma astep_tidy:
  assumes "astep ctx st es st'" and "tidy_state H st" and "set (launch_ids es) \<inter> H = {}"
  shows "tidy_state (H \<union> set (launch_ids es) - join_ids es) st' \<and> join_ids es \<subseteq> H \<and> tidy_launches es"
proof -
  from assms(2) obtain T Ts where h: "tidy_top T st"
    "list_all2 (\<lambda>T kr. \<forall>r. tidy T (kr r)) Ts (stack_of st)" "apart Ts" "\<forall>X \<in> set Ts. \<forall>t \<in> X. t \<notin> T"
    "\<forall>t \<in> T. t \<in> H" "\<forall>X \<in> set Ts. \<forall>t \<in> X. t \<in> H"
    by (rule tidy_stateE)
  note intro = tidy_stateI [where Ts = Ts]
  from assms(1) show ?thesis
  proof cases
    case (a_call b kr ks)
    with h show ?thesis by (auto simp: tidy_launches_def intro!: tidy_stateI [where T = "{}" and Ts = "T # Ts"])
  next
    case (a_launch b kl ks t)
    with h assms(3) show ?thesis
      by (auto simp: tidy_launches_def intro!: intro [where T = "insert t T"])
  next
    case (a_join_ready t kr ks r)
    with h show ?thesis by (auto simp: tidy_launches_def intro!: intro [where T = "T - {t}"])
  next
    case (a_joined t kr ks r)
    with h show ?thesis by (auto simp: tidy_launches_def intro!: intro [where T = "T - {t}"])
  next
    case (a_return r kr ks)
    with h(2) obtain T' Ts' where "Ts = T' # Ts'" "\<forall>r. tidy T' (kr r)"
      "list_all2 (\<lambda>T kr. \<forall>r. tidy T (kr r)) Ts' ks" by (auto simp: list_all2_Cons2)
    with a_return h show ?thesis by (auto simp: tidy_launches_def intro!: tidy_stateI [where T = T' and Ts = Ts'])
  next
    case (a_finish r)
    with h show ?thesis by (auto simp: tidy_launches_def intro!: tidy_stateI [where T = "{}" and Ts = "[]"])
  qed (use h in \<open>auto simp: tidy_launches_def intro!: intro [where T = T]\<close>)
qed

lemma asteps_tidy:
  assumes "asteps ctx st es st'" and "tidy_state H st" and "distinct (launch_ids es)"
    and "set (launch_ids es) \<inter> H = {}"
  shows "tidy_state (H \<union> set (launch_ids es) - join_ids es) st' \<and>
    join_ids es \<subseteq> H \<union> set (launch_ids es) \<and> tidy_launches es"
  using assms
proof (induction arbitrary: H rule: asteps.induct)
  case (as_step a es c es' d)
  from as_step(5,6) have "set (launch_ids es) \<inter> H = {}" by auto
  from astep_tidy [OF as_step(1,4) this] have 1: "tidy_state (H \<union> set (launch_ids es) - join_ids es) c"
    "join_ids es \<subseteq> H" "tidy_launches es" by auto
  from as_step(5,6) have "set (launch_ids es') \<inter> (H \<union> set (launch_ids es) - join_ids es) = {}" by auto
  with as_step.IH [OF 1(1)] as_step(5) have
    2: "tidy_state ((H \<union> set (launch_ids es) - join_ids es) \<union> set (launch_ids es') - join_ids es') d"
    "join_ids es' \<subseteq> (H \<union> set (launch_ids es) - join_ids es) \<union> set (launch_ids es')" "tidy_launches es'" by auto
  have "(H \<union> set (launch_ids es) - join_ids es) \<union> set (launch_ids es') - join_ids es' =
      H \<union> set (launch_ids (es @ es')) - join_ids (es @ es')" using 1(2) as_step(6) by auto
  with 1 2 show ?case by (auto simp: tidy_launches_def)
qed (simp add: tidy_launches_def)

subsection \<open>Who launched whom\<close>

text \<open>
  A task is launched once. \<open>rank\<close> orders the fibers so that a launched one comes after the
  fiber that launched it.
\<close>

definition ranked :: "(fid \<Rightarrow> nat) \<Rightarrow> 'v label list \<Rightarrow> bool" where
  "ranked rank ls \<longleftrightarrow> (\<forall>f t b. Event f (Launch t b) \<in> set ls \<longrightarrow> rank f < rank (Some t))"

definition born :: "'v label list \<Rightarrow> (fid \<rightharpoonup> 'v astate) \<Rightarrow> bool" where
  "born ls S \<longleftrightarrow>
     finite (dom S) \<and> (\<exists>rank. ranked rank ls) \<and>
     (\<forall>f. S f = None \<longrightarrow> trace f ls = []) \<and>
     (\<forall>f t b. Event f (Launch t b) \<in> set ls \<longrightarrow> S (Some t) \<noteq> None) \<and>
     (\<forall>f g t b b'. Event f (Launch t b) \<in> set ls \<longrightarrow> Event g (Launch t b') \<in> set ls \<longrightarrow> f = g) \<and>
     (\<forall>f. distinct (launch_ids (trace f ls)))"

lemma bornD:
  assumes "born ls S"
  shows "finite (dom S)" and "\<exists>rank. ranked rank ls" and "S f = None \<Longrightarrow> trace f ls = []"
    and "Event f (Launch t b) \<in> set ls \<Longrightarrow> S (Some t) \<noteq> None"
    and "Event f (Launch t b) \<in> set ls \<Longrightarrow> Event g (Launch t b') \<in> set ls \<Longrightarrow> f = g"
    and "distinct (launch_ids (trace f ls))"
  using assms unfolding born_def by blast+

lemma born_same:
  assumes "born ls S" and "\<And>t b. Launch t b \<notin> set es" and "S f \<noteq> None"
  shows "born (ls @ map (Event f) es) (S(f \<mapsto> st))"
proof -
  have "launch_ids es = []" using assms(2) in_launch_ids [of _ es] by (cases "launch_ids es") auto
  then have d: "launch_ids (trace g (ls @ map (Event f) es)) = launch_ids (trace g ls)" for g by simp
  have l: "Event g (Launch t b) \<in> set (ls @ map (Event f) es) \<longleftrightarrow> Event g (Launch t b) \<in> set ls" for g t b
    using assms(2) by auto
  show ?thesis
    unfolding born_def ranked_def l d
    using assms(1,3) by (auto simp: born_def ranked_def)
qed

lemma born_launch:
  assumes b: "born ls S" and f: "S f \<noteq> None" and t: "S (Some t) = None"
  shows "born (ls @ [Event f (Launch t bt)]) (S(f \<mapsto> st, Some t \<mapsto> st'))"
proof -
  from bornD(2) [OF b] obtain rank where r: "ranked rank ls" by blast
  have new: "Event g (Launch t b') \<notin> set ls" for g b' using bornD(4) [OF b] t by blast
  have none: "Event (Some t) e \<notin> set ls" for e
    using bornD(3) [OF b t] in_trace [of e "Some t" ls] by simp
  have tf: "Some t \<noteq> f" using f t by auto
  have "ranked (rank(Some t := Suc (rank f))) (ls @ [Event f (Launch t bt)])"
    using r none new tf unfolding ranked_def by auto
  then have "\<exists>rank. ranked rank (ls @ [Event f (Launch t bt)])" by blast
  moreover have "t \<notin> set (launch_ids (trace g ls))" for g using new by (simp add: in_launch_ids)
  moreover have "g = g'" if "Event g (Launch t' b') \<in> set (ls @ [Event f (Launch t bt)])"
    "Event g' (Launch t' b'') \<in> set (ls @ [Event f (Launch t bt)])" for g g' t' b' b''
    using that bornD(5) [OF b, of g t' b' g' b''] new by auto
  moreover have "(S(f \<mapsto> st, Some t \<mapsto> st')) (Some t') \<noteq> None"
    if "Event g (Launch t' b') \<in> set (ls @ [Event f (Launch t bt)])" for g t' b'
    using that bornD(4) [OF b, of g t' b'] by auto
  moreover have "trace g (ls @ [Event f (Launch t bt)]) = []" if "(S(f \<mapsto> st, Some t \<mapsto> st')) g = None" for g
    using that bornD(3) [OF b, of g] by (auto split: if_splits)
  ultimately show ?thesis
    unfolding born_def using bornD(1,6) [OF b] by (intro conjI allI impI) auto
qed

lemma gsteps_born:
  "gsteps ctx S0 ls S \<Longrightarrow> S0 = [None \<mapsto> A_run b []] \<Longrightarrow> born ls S"
proof (induction rule: gsteps.induct)
  case (gs_refl S)
  then have "dom S = {None}" by (auto split: if_splits)
  then show ?case by (simp add: born_def ranked_def)
next
  case (gs_step S ls S' l S'')
  then have b: "born ls S'" by blast
  from gs_step.hyps(2) show ?case
  proof cases
    case (g_own f st es st')
    then have "Launch t b \<notin> set es" for t b by (auto simp: list_all_iff)
    with g_own(3) show ?thesis unfolding g_own(1,2) by (intro born_same [OF b]) auto
  next
    case (g_launch f st t bt st')
    show ?thesis unfolding g_launch(1,2) using g_launch(3,5) by (intro born_launch [OF b]) auto
  next
    case (g_join f st t r st')
    from born_same [OF b, of "[Join t r]" f st'] g_join(3) show ?thesis
      unfolding g_join(1,2) list.map by fastforce
  qed
qed

text \<open>So every fiber of a tidy program is tidy.\<close>

lemma fibers_tidy:
  assumes g: "gsteps ctx [None \<mapsto> A_run b0 []] ls S" and b0: "tidy {} b0" and S: "S f = Some st"
  shows "tidy_state (set (launch_ids (trace f ls)) - join_ids (trace f ls)) st"
    and "join_ids (trace f ls) \<subseteq> set (launch_ids (trace f ls))"
proof -
  note ok = gsteps_ok [OF g refl] and b = gsteps_born [OF g refl]
  have run: "tidy_state (set (launch_ids (trace f ls)) - join_ids (trace f ls)) st \<and>
      join_ids (trace f ls) \<subseteq> set (launch_ids (trace f ls)) \<and> tidy_launches (trace f ls)"
    if "tidy {} bf" "asteps ctx (A_run bf []) (trace f ls) st" for f bf st
  proof -
    have "tidy_state {} (A_run bf [])" using that(1) by (intro tidy_stateI [where Ts = "[]"]) auto
    from asteps_tidy [OF that(2) this bornD(6) [OF b]] show ?thesis by simp
  qed
  obtain rank where r: "ranked rank ls" using bornD(2) [OF b] by blast
  have all: "tidy {} bf" if "fiber_body b0 ls f bf" for f bf
    using that
  proof (induction "rank f" arbitrary: f bf rule: less_induct)
    case less
    show ?case
    proof (cases f)
      case None
      with less.prems b0 show ?thesis by (simp add: fiber_body_def)
    next
      case (Some t)
      with less.prems obtain g where g: "Event g (Launch t bf) \<in> set ls" by (auto simp: fiber_body_def)
      then have tr: "Launch t bf \<in> set (trace g ls)" by simp
      then have "S g \<noteq> None" using bornD(3) [OF b, of g] by (metis empty_iff list.set(1))
      with fibers_okD(2) [OF ok] obtain bg where bg: "fiber_body b0 ls g bg" by blast
      from r g Some have "rank g < rank f" unfolding ranked_def by blast
      from less.hyps [OF this bg] have "tidy {} bg" .
      moreover from fibers_okD(1) [OF ok bg] obtain sg where "asteps ctx (A_run bg []) (trace g ls) sg" by blast
      ultimately have "tidy_launches (trace g ls)" using run by blast
      with tr show ?thesis unfolding tidy_launches_def by blast
    qed
  qed
  from fibers_okD(2) [OF ok, of f] S obtain bf where bf: "fiber_body b0 ls f bf" by auto
  with fibers_okD(1) [OF ok bf] S have "asteps ctx (A_run bf []) (trace f ls) st" by auto
  from run [OF all [OF bf] this] show "tidy_state (set (launch_ids (trace f ls)) - join_ids (trace f ls)) st"
    and "join_ids (trace f ls) \<subseteq> set (launch_ids (trace f ls))" by auto
qed

text \<open>What a fiber awaits, it has launched and not awaited before.\<close>

lemma tidy_awaits:
  assumes g: "gsteps ctx [None \<mapsto> A_run b0 []] ls S" and b0: "tidy {} b0"
  shows "S f = Some (A_run (Co_join t kr) ks) \<or> S f = Some (A_join t kr ks) \<Longrightarrow>
      (\<exists>b. Event f (Launch t b) \<in> set ls) \<and> (\<forall>r. Event f (Join t r) \<notin> set ls)"
    and "Event f (Join t r) \<in> set ls \<Longrightarrow> \<exists>b. Event f (Launch t b) \<in> set ls"
proof -
  assume S: "S f = Some (A_run (Co_join t kr) ks) \<or> S f = Some (A_join t kr ks)"
  then have "t \<in> set (launch_ids (trace f ls)) - join_ids (trace f ls)"
    using fibers_tidy(1) [OF g b0] by (fastforce elim!: tidy_stateE)
  then show "(\<exists>b. Event f (Launch t b) \<in> set ls) \<and> (\<forall>r. Event f (Join t r) \<notin> set ls)"
    by (auto simp: in_launch_ids in_join_ids)
next
  assume "Event f (Join t r) \<in> set ls"
  then have j: "t \<in> join_ids (trace f ls)" by (auto simp: in_join_ids)
  then have "S f \<noteq> None" using bornD(3) [OF gsteps_born [OF g refl], of f] by (metis empty_iff join_ids.simps(1))
  with fibers_tidy(2) [OF g b0] j have "t \<in> set (launch_ids (trace f ls))" by blast
  then show "\<exists>b. Event f (Launch t b) \<in> set ls" by (simp add: in_launch_ids)
qed

end
