(* ===== verification/Bounded.thy ===== *)
theory Bounded
  imports Coro_Program
begin

section \<open>Programs that end\<close>

text \<open>
  A body that makes boundedly many steps whatever the answers are. The bound counts the steps
  of the abstract machine, those of its callees and of the bodies it launches included.
\<close>

inductive ends_within :: "nat \<Rightarrow> 'v body \<Rightarrow> bool" where
  e_result: "ends_within (Suc n) (result_body r)"
| e_io: "(\<And>i. ends_within n (k i)) \<Longrightarrow> ends_within (Suc (Suc n)) (Co_io op k)"
| e_call: "ends_within m b \<Longrightarrow> (\<And>r. ends_within n (kr r)) \<Longrightarrow> ends_within (Suc (m + n)) (Co_call b kr)"
| e_context: "(\<And>c. ends_within n (kc c)) \<Longrightarrow> ends_within (Suc n) (Co_context kc)"
| e_launch: "ends_within m b \<Longrightarrow> (\<And>x. ends_within n (kl x)) \<Longrightarrow> ends_within (Suc (m + n)) (Co_launch b kl)"
| e_join: "(\<And>r. ends_within n (kr r)) \<Longrightarrow> ends_within (Suc (Suc n)) (Co_join t kr)"
| e_sync: "(\<And>i. ends_within n (ks i)) \<Longrightarrow> ends_within (Suc n) (Co_sync c ks)"

inductive_cases ends_resultE: "ends_within n (result_body r)"
inductive_cases ends_ioE: "ends_within n (Co_io op k)"
inductive_cases ends_callE: "ends_within n (Co_call b kr)"
inductive_cases ends_contextE: "ends_within n (Co_context kc)"
inductive_cases ends_launchE: "ends_within n (Co_launch b kl)"
inductive_cases ends_joinE: "ends_within n (Co_join t kr)"
inductive_cases ends_syncE: "ends_within n (Co_sync c ks)"

lemma ends_return [intro]: "0 < n \<Longrightarrow> ends_within n (Co_return v)" "0 < n \<Longrightarrow> ends_within n (Co_throw e)"
  using e_result [of "n - 1" "Inr v"] e_result [of "n - 1" "Inl e"] by simp_all

text \<open>How many steps a fiber has left.\<close>

fun top_within :: "nat \<Rightarrow> 'v astate \<Rightarrow> bool" where
  "top_within n (A_run b ks) \<longleftrightarrow> ends_within n b"
| "top_within n (A_wait op k ks) \<longleftrightarrow> (\<exists>m. n = Suc m \<and> (\<forall>i. ends_within m (k i)))"
| "top_within n (A_join t kr ks) \<longleftrightarrow> (\<exists>m. n = Suc m \<and> (\<forall>r. ends_within m (kr r)))"
| "top_within n (A_finished r) \<longleftrightarrow> n = 0"

definition within :: "nat \<Rightarrow> 'v astate \<Rightarrow> bool" where
  "within n st \<longleftrightarrow>
     (\<exists>m ms. n = m + sum_list ms \<and> top_within m st \<and>
        list_all2 (\<lambda>m kr. \<forall>r. ends_within m (kr r)) ms (stack_of st))"

lemma withinI:
  "top_within m st \<Longrightarrow> list_all2 (\<lambda>m kr. \<forall>r. ends_within m (kr r)) ms (stack_of st) \<Longrightarrow>
   within (m + sum_list ms) st"
  unfolding within_def by blast

text \<open>A step takes one of them; a launch gives some to the new fiber.\<close>

fun launched_within :: "nat \<Rightarrow> 'v event list \<Rightarrow> bool" where
  "launched_within m [Launch t b] \<longleftrightarrow> ends_within m b"
| "launched_within m es \<longleftrightarrow> m = 0"

lemma astep_within:
  assumes "astep ctx st es st'" and "within n st"
  shows "\<exists>n' m. n' + m < n \<and> within n' st' \<and> launched_within m es"
proof -
  from assms(2) obtain m ms where n: "n = m + sum_list ms" and t: "top_within m st"
    and s: "list_all2 (\<lambda>m kr. \<forall>r. ends_within m (kr r)) ms (stack_of st)"
    unfolding within_def by blast
  have keep: "\<exists>n' m. n' + m < n \<and> within n' st' \<and> launched_within m es"
    if "top_within m' st'" "m' < m" "stack_of st' = stack_of st" "launched_within 0 es" for m'
    using withinI [OF that(1), of ms] s that n by (intro exI [of _ "m' + sum_list ms"] exI [of _ 0]) auto
  from assms(1) show ?thesis
  proof cases
    case (a_io_ready op k ks i)
    with t obtain m' where "m = Suc (Suc m')" "ends_within m' (k i)" by (auto elim: ends_ioE)
    with a_io_ready show ?thesis by (intro keep [of m']) auto
  next
    case (a_io op k ks)
    with t obtain m' where "m = Suc (Suc m')" "\<And>i. ends_within m' (k i)" by (auto elim: ends_ioE)
    with a_io show ?thesis by (intro keep [of "Suc m'"]) auto
  next
    case (a_io_done op k ks i)
    with t obtain m' where "m = Suc m'" "ends_within m' (k i)" by auto
    with a_io_done show ?thesis by (intro keep [of m']) auto
  next
    case (a_call b kr ks)
    with t obtain i j where m: "m = Suc (i + j)" "ends_within i b" "\<And>r. ends_within j (kr r)"
      by (auto elim: ends_callE)
    with a_call s have "within (i + sum_list (j # ms)) st'" by (intro withinI) auto
    with m n a_call show ?thesis by (intro exI [of _ "i + sum_list (j # ms)"] exI [of _ 0]) auto
  next
    case (a_call_fails b kr ks)
    with t obtain i j where "m = Suc (i + j)" "ends_within j (kr (Inl Bad_alloc))" by (auto elim: ends_callE)
    with a_call_fails show ?thesis by (intro keep [of j]) auto
  next
    case (a_context kc ks)
    with t obtain m' where "m = Suc m'" "ends_within m' (kc (Some ctx))" by (auto elim: ends_contextE)
    with a_context show ?thesis by (intro keep [of m']) auto
  next
    case (a_launch b kl ks t')
    with t obtain i j where m: "m = Suc (i + j)" "ends_within i b" "ends_within j (kl (Inr t'))"
      by (auto elim: ends_launchE)
    with a_launch s have "within (j + sum_list ms) st'" by (intro withinI) auto
    with m n a_launch show ?thesis by (intro exI [of _ "j + sum_list ms"] exI [of _ i]) auto
  next
    case (a_launch_fails b kl ks)
    with t obtain i j where "m = Suc (i + j)" "ends_within j (kl (Inl Bad_alloc))" by (auto elim: ends_launchE)
    with a_launch_fails show ?thesis by (intro keep [of j]) auto
  next
    case (a_join t' kr ks)
    with t obtain m' where "m = Suc (Suc m')" "\<And>r. ends_within m' (kr r)" by (auto elim: ends_joinE)
    with a_join show ?thesis by (intro keep [of "Suc m'"]) auto
  next
    case (a_join_ready t' kr ks r)
    with t obtain m' where "m = Suc (Suc m')" "ends_within m' (kr r)" by (auto elim: ends_joinE)
    with a_join_ready show ?thesis by (intro keep [of m']) auto
  next
    case (a_joined t' kr ks r)
    with t obtain m' where "m = Suc m'" "ends_within m' (kr r)" by auto
    with a_joined show ?thesis by (intro keep [of m']) auto
  next
    case (a_sync c kc ks i)
    with t obtain m' where "m = Suc m'" "ends_within m' (kc i)" by (auto elim: ends_syncE)
    with a_sync show ?thesis by (intro keep [of m']) auto
  next
    case (a_return r kr ks)
    with s obtain j js where ms: "ms = j # js" "ends_within j (kr r)"
      "list_all2 (\<lambda>m kr. \<forall>r. ends_within m (kr r)) js ks" by (auto simp: list_all2_Cons2)
    from a_return t have "0 < m" by (auto elim: ends_resultE)
    with ms n a_return withinI [of j st' js] show ?thesis
      by (intro exI [of _ "j + sum_list js"] exI [of _ 0]) auto
  next
    case (a_finish r)
    with t have "0 < m" by (auto elim: ends_resultE)
    with a_finish n withinI [of 0 st' "[]"] show ?thesis by (intro exI [of _ 0]) auto
  qed
qed

subsection \<open>All fibers\<close>

definition all_within :: "nat \<Rightarrow> (fid \<rightharpoonup> 'v astate) \<Rightarrow> bool" where
  "all_within n S \<longleftrightarrow>
     finite (dom S) \<and> (\<exists>W. (\<forall>f st. S f = Some st \<longrightarrow> within (W f) st) \<and> sum W (dom S) \<le> n)"

lemma all_within_upd:
  assumes "all_within n S" and "S f = Some st" and "\<And>k. within k st \<Longrightarrow> \<exists>n'. n' + m < k \<and> within n' st'"
  shows "\<exists>n'. n' + m < n \<and> all_within n' (S(f \<mapsto> st'))"
proof -
  from assms(1) obtain W where fin: "finite (dom S)" and W: "\<And>f st. S f = Some st \<Longrightarrow> within (W f) st"
    and s: "sum W (dom S) \<le> n" unfolding all_within_def by blast
  from assms(3) [OF W [OF assms(2)]] obtain k where k: "k + m < W f" "within k st'" by blast
  let ?W = "W(f := k)"
  have d: "dom (S(f \<mapsto> st')) = dom S" using assms(2) by auto
  have f: "f \<in> dom S" using assms(2) by auto
  have "sum ?W (dom S - {f}) = sum W (dom S - {f})" by (rule sum.cong) auto
  with sum.remove [OF fin f, of ?W] sum.remove [OF fin f, of W]
  have "sum ?W (dom S) = k + sum W (dom S - {f})" "sum W (dom S) = W f + sum W (dom S - {f})" by simp_all
  then have "sum ?W (dom S) + m < n" using k s by simp
  moreover have "all_within (sum ?W (dom S)) (S(f \<mapsto> st'))"
    unfolding all_within_def d using fin W k by (intro conjI exI [of _ ?W]) auto
  ultimately show ?thesis by blast
qed

lemma all_within_new:
  assumes "all_within n S" and "S f = None" and "within m st"
  shows "all_within (n + m) (S(f \<mapsto> st))"
proof -
  from assms(1) obtain W where fin: "finite (dom S)" and W: "\<And>f st. S f = Some st \<Longrightarrow> within (W f) st"
    and s: "sum W (dom S) \<le> n" unfolding all_within_def by blast
  have f: "f \<notin> dom S" using assms(2) by auto
  then have "sum (W(f := m)) (insert f (dom S)) = m + sum W (dom S)"
    using fin by (auto intro!: sum.cong)
  with s show ?thesis
    unfolding all_within_def using fin W assms(3) by (intro conjI exI [of _ "W(f := m)"]) auto
qed

lemma fiber_within:
  assumes "all_within n S" and "S f = Some st" and "astep ctx st es st'"
  shows "\<exists>n' < n. all_within n' (S(f \<mapsto> st'))"
proof -
  have "\<exists>n'. n' + 0 < n \<and> all_within n' (S(f \<mapsto> st'))"
  proof (rule all_within_upd [OF assms(1,2)])
    fix k assume "within k st"
    from astep_within [OF assms(3) this] obtain n' m where "n' + m < k" "within n' st'" by blast
    then show "\<exists>n'. n' + 0 < k \<and> within n' st'" by (intro exI [of _ n']) auto
  qed
  then show ?thesis by simp
qed

lemma gstep_within:
  assumes "gstep ctx S l S'" and "all_within n S"
  shows "\<exists>n' < n. all_within n' S'"
  using assms(1)
proof cases
  case (g_own f st es st')
  with fiber_within [OF assms(2)] show ?thesis by blast
next
  case (g_join f st t r st')
  with fiber_within [OF assms(2)] show ?thesis by blast
next
  case (g_launch f st t b st')
  from assms(2) g_launch(3) obtain k where "within k st" unfolding all_within_def by blast
  from g_launch(4) obtain kl ks where st: "st = A_run (Co_launch b kl) ks" "st' = A_run (kl (Inr t)) ks"
    by cases auto
  define m where "m = (LEAST m. ends_within m b)"
  have b: "ends_within m b" if "within k st" for k
  proof -
    from astep_within [OF g_launch(4) that] have "\<exists>m. ends_within m b" by auto
    then show ?thesis unfolding m_def by (rule LeastI_ex)
  qed
  have "\<exists>n'. n' + m < n \<and> all_within n' (S(f \<mapsto> st'))"
  proof (rule all_within_upd [OF assms(2) g_launch(3)])
    fix k assume "within k st"
    from astep_within [OF g_launch(4) this] obtain n' m' where "n' + m' < k" "within n' st'" "ends_within m' b"
      by auto
    moreover from this(3) have "m \<le> m'" unfolding m_def by (rule Least_le)
    ultimately show "\<exists>n'. n' + m < k \<and> within n' st'" by (intro exI [of _ n']) auto
  qed
  then obtain n' where n': "n' + m < n" "all_within n' (S(f \<mapsto> st'))" by blast
  have "within (m + sum_list []) (A_run b [])" using b [OF \<open>within k st\<close>] by (intro withinI) auto
  then have "all_within (n' + m) (S(f \<mapsto> st', Some t \<mapsto> A_run b []))"
    using n'(2) g_launch(3,5) by (intro all_within_new) auto
  with n' show ?thesis unfolding g_launch(2) by blast
qed

lemma gmoves_within: "gmoves ctx S l S' \<Longrightarrow> all_within n S \<Longrightarrow> \<exists>n' < n. all_within n' S'"
proof (induction arbitrary: n rule: gmoves.induct)
  case (gm_one S l S')
  then show ?case by (rule gstep_within)
next
  case (gm_step S ls S' l S'')
  then show ?case using gstep_within less_trans by blast
qed

end
