(* ===== verification/Structured_Runs.thy ===== *)
theory Structured_Runs
  imports Structured Bounded Runtime_Results
begin

section \<open>Tidy programs under the event loop\<close>

subsection \<open>Where the owners are\<close>

text \<open>
  A launched task is owned until it is awaited; the coroutine that awaits it is its caller
  until the task has ended.
\<close>

definition waited_for :: "('r, 'v) rworld \<Rightarrow> coro \<Rightarrow> bool" where
  "waited_for w t \<longleftrightarrow> (\<exists>fr c. frames w t = Some fr \<and> \<not> at_end fr \<and> caller (promise fr) = Some c)"

definition owner_inv :: "'v label list \<Rightarrow> ('r, 'v) rworld \<Rightarrow> bool" where
  "owner_inv ls w \<longleftrightarrow>
     (\<forall>f t b. Event f (Launch t b) \<in> set ls \<longrightarrow>
        t \<in> owned w \<or> (\<exists>g r. Event g (Join t r) \<in> set ls) \<or> waited_for w t)"

lemma owner_inv_keep:
  assumes "owner_inv ls w" and "\<And>f t b. Event f (Launch t b) \<in> set l \<Longrightarrow> t \<in> owned w'"
    and "\<And>t. t \<in> owned w \<Longrightarrow> t \<in> owned w' \<or> (\<exists>g r. Event g (Join t r) \<in> set l) \<or> waited_for w' t"
    and "\<And>f t b. Event f (Launch t b) \<in> set ls \<Longrightarrow> waited_for w t \<Longrightarrow>
      waited_for w' t \<or> t \<in> owned w \<or> (\<exists>g r. Event g (Join t r) \<in> set l)"
  shows "owner_inv (ls @ l) w'"
  using assms unfolding owner_inv_def set_append by blast

lemma waited_same: "frames w' = frames w \<Longrightarrow> waited_for w' t \<longleftrightarrow> waited_for w t"
  by (simp add: waited_for_def)

lemma waited_other:
  "frames w' = (frames w)(h := x) \<Longrightarrow> t \<noteq> h \<Longrightarrow> waited_for w' t \<longleftrightarrow> waited_for w t"
  by (simp add: waited_for_def)

lemma owner_same:
  assumes "owner_inv ls w" and "\<And>f t b. Event f (Launch t b) \<notin> set l"
    and "owned w' = owned w" and "frames w' = frames w"
  shows "owner_inv (ls @ l) w'"
  by (rule owner_inv_keep [OF assms(1)]) (use assms(2-4) waited_same [OF assms(4)] in auto)

lemma owned_return_to [simp]: "owned (snd (return_to lib s stk w)) = owned w"
  by (auto simp: return_to_def leave_def split: list.splits option.splits)

lemma task_complete_owned:
  "task_complete lib h r w = Ret (tr, w1) \<Longrightarrow> owned w1 = owned (w :: ('r, 'v) rworld)"
  by (cases r; auto simp: task_complete_def final_await_suspend_def task_finish_def
      io_context_finish_def destroy_frame_def outcome_simps Let_def
      split: option.splits if_splits prod.splits)

lemma task_await_suspend_owned:
  "task_await_suspend callee h w = Ret (tr, w1) \<Longrightarrow> owned w1 = owned (w :: ('r, 'v) rworld)"
  by (auto simp: task_await_suspend_def outcome_simps put_promise_def Let_def split: option.splits if_splits)

text \<open>When a launched task ends while it is awaited, its waiter resumes with its outcome.\<close>

lemma ending_waiter:
  assumes G: "good w ((h, b) # stk) S P" and l: "S (Some h) \<noteq> None"
    and fr: "frames w h = Some fr" "caller (promise fr) = Some c"
  shows "fib w h \<noteq> fib w c \<and> (\<exists>kr. conts w c = Some (Cont_call h kr))"
proof -
  from launched_frame [OF G l] have f: "fib w h = Some h" by blast
  from running_awaited [OF G f fr] have a: "awaited w h c" .
  from goodD(7) [OF G a] obtain kr ks where S: "S (fib w c) = Some (A_join h kr ks)" "fst (P (fib w c)) = c"
    by blast
  moreover obtain ks' where "S (fib w h) = Some (A_run b ks')" using running [OF G] by metis
  ultimately show ?thesis using goodD(1) [OF G S(1)] by auto
qed

lemma rstep_owner:
  assumes "rstep lib cfg l cfg'" and "sim pend cfg S" and "owner_inv ls (snd cfg)"
    and "\<And>f t b. Event f (Launch t b) \<in> set ls \<Longrightarrow> S (Some t) \<noteq> None"
  shows "owner_inv (ls @ l) (snd cfg')"
  using assms
proof (induction rule: rstep.induct)
  case (io_ready w a op aw w1 i s stk h k)
  note k = awaiter_new_keeps [OF io_ready(2)]
  show ?case by (rule owner_same [OF io_ready(6)]) (auto simp: k)
next
  case (io_suspend w a op aw w1 h w2 s stk k)
  note k = awaiter_new_keeps [OF io_suspend(2)] await_suspend_keeps [OF io_suspend(4)]
  show ?case by (rule owner_same [OF io_suspend(6)]) (auto simp: k return_to_world)
next
  case (call w t tk w1 callee tk' h w2 s stk b kr)
  have callee: "callee = Some t" and w1: "frames w1 = (frames w)(t \<mapsto> \<lparr>promise = new_promise, at_end = False\<rparr>)"
    "owned w1 = owned w" using call(2,3)
    by (auto simp: task_new_def await_transform_rvalue_def task_take_handle_def)
  from task_await_suspend_keeps [OF call(5)] task_await_suspend_owned [OF call(5)] callee obtain fr' where
    w2: "frames w2 = (frames w)(t \<mapsto> fr')" "owned w2 = owned w" by (auto simp: w1)
  have "waited_for w t' \<Longrightarrow> t' \<noteq> t" for t' using call(1) by (auto simp: waited_for_def)
  then show ?case by (intro owner_inv_keep [OF call(7)]) (auto simp: w2 waited_for_def)
next
  case (launch w t tk w1 w2 tk' s stk h b kl)
  have tk: "t_handle tk = Some t" and w1: "frames w1 = (frames w)(t \<mapsto> \<lparr>promise = new_promise, at_end = False\<rparr>)"
    "owned w1 = owned w" using launch(2) by (auto simp: task_new_def)
  have "owned w2 = owned w1" using launch(3)
    by (auto simp: task_setup_def task_set_context_def task_set_daemon_def with_promise_def
      outcome_simps put_promise_def split: option.splits)
  with task_setup_keeps [OF launch(3) tk] obtain fr' where
    w2: "frames w2 = (frames w)(t \<mapsto> fr')" "owned w2 = owned w" by (auto simp: w1)
  have "waited_for w t' \<Longrightarrow> t' \<noteq> t" for t' using launch(1) by (auto simp: waited_for_def)
  then show ?case by (intro owner_inv_keep [OF launch(6)]) (auto simp: w2 waited_for_def)
next
  case (join_ready t w callee tk' r s stk h kr)
  then show ?case by (intro owner_inv_keep [OF join_ready(6)]) (auto simp: waited_for_def)
next
  case (join_suspend t w callee tk' h w1 s stk kr)
  have callee: "callee = Some t" using join_suspend(2) by (simp add: await_transform_rvalue_def task_take_handle_def)
  from join_suspend(3,4) callee obtain fr fr' where
    "frames w t = Some fr" "frames w1 = (frames w)(t \<mapsto> fr')" "\<not> at_end fr'" "caller (promise fr') = Some h"
    by (auto simp: task_await_ready_def task_await_suspend_def outcome_simps put_promise_def Let_def
        split: option.splits if_splits)
  with task_await_suspend_owned [OF join_suspend(4)] show ?case
    by (intro owner_inv_keep [OF join_suspend(6)]) (auto simp: return_to_world waited_for_def)
next
  case (finish_awaited h r w c w1 t kr r' s stk)
  from finish_awaited(5) obtain P where G: "good w ((h, result_body r) # stk) S P" by (rule sim_runE)
  from task_complete_keeps [OF finish_awaited(1)] obtain fr where
    fr: "frames w h = Some fr" "frames w1 = (frames w)(h \<mapsto> ended_frame fr r)" by auto
  have "caller (promise fr) = Some c" using task_complete_Resume [OF finish_awaited(1) fr(1)] by simp
  with ending_waiter [OF G _ fr(1)] finish_awaited(2,7) have "Event f (Launch h b) \<notin> set ls" for f b by blast
  with fr task_complete_owned [OF finish_awaited(1)] show ?case
    by (intro owner_inv_keep [OF finish_awaited(6)]) (auto simp: waited_for_def)
next
  case (finish_joined h r w c w1 t kr r' s stk)
  from finish_joined(5) obtain P where G: "good w ((h, result_body r) # stk) S P" by (rule sim_runE)
  from task_complete_keeps [OF finish_joined(1)] obtain fr where
    fr: "frames w h = Some fr" "frames w1 = (frames w)(h \<mapsto> ended_frame fr r)" by auto
  have c: "caller (promise fr) = Some c" "conts w1 = conts w"
    using task_complete_Resume [OF finish_joined(1) fr(1)] by simp_all
  with ending_waiter [OF G _ fr(1)] finish_joined(3,7) have "t = h" if "Event f (Launch h b) \<in> set ls" for f b
    using that by fastforce
  with fr task_complete_owned [OF finish_joined(1)] show ?case
    by (intro owner_inv_keep [OF finish_joined(6)]) (auto simp: waited_for_def)
next
  case (finish_alone h r w w1 s stk)
  from task_complete_keeps [OF finish_alone(1)] obtain fr x where fr: "frames w h = Some fr"
    "caller (promise fr) = None" "frames w1 = (frames w)(h := x)" by auto
  then have "waited_for w t \<Longrightarrow> t \<noteq> h" for t by (auto simp: waited_for_def)
  with fr task_complete_owned [OF finish_alone(1)] show ?case
    by (intro owner_inv_keep [OF finish_alone(3)]) (auto simp: return_to_world waited_for_def)
next
  case (sync s stk h c kc w i)
  show ?case by (rule owner_same [OF sync(2)]) auto
next
  case (loop_cell c w q rg a d h op k)
  show ?case by (rule owner_same [OF loop_cell(7)]) auto
qed (simp_all add: owner_inv_def waited_for_def)

lemma program_owner:
  assumes start: "pend_contract lib pend" "fresh_program pend tk w" "program_start tk b w = Ret cfg"
    and run: "rsteps lib cfg ls cfg'"
  shows "owner_inv ls (snd cfg')"
proof -
  have "rsteps lib c ls cfg' \<Longrightarrow> c = cfg \<Longrightarrow> owner_inv ls (snd cfg')" for c
  proof (induction rule: rsteps.induct)
    case (rs_refl c)
    then show ?case by (simp add: owner_inv_def)
  next
    case (rs_step c ls cfg' l cfg'')
    from program_sim [OF start, of ls cfg'] rs_step.hyps(1) rs_step.prems obtain S where
      S: "sim pend cfg' S" "fibers_ok (this_ctx w) b ls S" by blast
    have new: "S (Some t) \<noteq> None" if "Event f (Launch t bt) \<in> set ls" for f t bt
    proof -
      from that have "fiber_body b ls (Some t) bt" by (auto simp: fiber_body_def)
      from fibers_okD(1) [OF S(2) this] show ?thesis by blast
    qed
    show ?case by (rule rstep_owner [OF rs_step.hyps(2) S(1) rs_step.IH [OF rs_step.prems]]) (erule new)
  qed
  with run show ?thesis by blast
qed

subsection \<open>Progress\<close>

lemma tidy_joins_own:
  assumes start: "pend_contract lib pend" "fresh_program pend tk w" "program_start tk b w = Ret cfg"
    and run: "rsteps lib cfg ls (Run s stk h (Co_join t kr), w')" and tidy: "tidy {} b"
  shows "t \<in> owned w'"
proof -
  from program_sim [OF start run] obtain S where g: "gsteps (this_ctx w) [None \<mapsto> A_run b []] (seen ls) S"
    and sim: "sim pend (Run s stk h (Co_join t kr), w') S" by blast
  from sim obtain P where G: "good w' ((h, Co_join t kr) # stk) S P" by (rule sim_runE)
  then obtain ks where S: "S (fib w' h) = Some (A_run (Co_join t kr) ks)" using running by metis
  note awaits = tidy_awaits [OF g tidy]
  note uniq = bornD(5) [OF gsteps_born [OF g refl]]
  from awaits(1) [of "fib w' h" t kr ks] S obtain bt where
    l: "Event (fib w' h) (Launch t bt) \<in> set ls" "\<forall>r. Event (fib w' h) (Join t r) \<notin> set ls" by auto
  then have "t \<in> owned w' \<or> (\<exists>g r. Event g (Join t r) \<in> set ls) \<or> waited_for w' t"
    using program_owner [OF start run] unfolding owner_inv_def snd_conv by blast
  moreover have "Event g (Join t r) \<notin> set ls" for g r
    using awaits(2) [of g t r] uniq [of "fib w' h" t bt g] l by auto
  moreover have "\<not> waited_for w' t" if "t \<notin> owned w'"
  proof
    assume "waited_for w' t"
    then obtain fr c where fr: "frames w' t = Some fr" "\<not> at_end fr" "caller (promise fr) = Some c"
      unfolding waited_for_def by blast
    have "S (Some t) \<noteq> None" using bornD(4) [OF gsteps_born [OF g refl]] l(1) by auto
    from launched_frame [OF G this] fr(1) have "is_daemon (flags (promise fr))" "fib w' t = Some t" by auto
    with fr that have a: "awaited w' t c" by (simp add: awaited_def)
    from goodD(7) [OF G a] obtain kr' ks' where "S (fib w' c) = Some (A_join t kr' ks')" by blast
    moreover from awaits(1) [of "fib w' c" t kr' ks'] this obtain b' where
      "Event (fib w' c) (Launch t b') \<in> set ls" by auto
    ultimately show False using uniq [of "fib w' h" t bt "fib w' c" b'] l(1) S by auto
  qed
  ultimately show ?thesis by blast
qed

lemma tidy_not_deadlocked:
  assumes g: "gsteps ctx [None \<mapsto> A_run b []] ls S" and tidy: "tidy {} b"
  shows "\<not> deadlocked S"
proof
  assume d: "deadlocked S"
  note born = gsteps_born [OF g refl]
  obtain rank where r: "ranked rank ls" using bornD(2) [OF born] by blast
  let ?U = "{f. \<exists>st. S f = Some st \<and> (\<forall>r. st \<noteq> A_finished r)}"
  have fin: "finite ?U" by (rule finite_subset [OF _ bornD(1) [OF born]]) auto
  have "fiber_body b ls None b" by (simp add: fiber_body_def)
  with fibers_okD(1) [OF gsteps_ok [OF g refl]] obtain st where st: "S None = Some st" by blast
  with d have ne: "None \<in> ?U" by (auto simp: deadlocked_def ended_root_def)
  have "Max (rank ` ?U) \<in> rank ` ?U" using fin ne by (intro Max_in) blast+
  then obtain f where f: "f \<in> ?U" "rank f = Max (rank ` ?U)" by (elim imageE) (rule that, assumption, simp)
  have top: "rank g \<le> rank f" if "g \<in> ?U" for g unfolding f(2) using fin that by (intro Max_ge) blast+
  from f(1) obtain t kr ks st' where t: "S f = Some (A_join t kr ks)" "S (Some t) = Some st'" "\<forall>r. st' \<noteq> A_finished r"
    using d unfolding deadlocked_def by blast
  from tidy_awaits(1) [OF g tidy, of f t kr ks] t(1) obtain bt where "Event f (Launch t bt) \<in> set ls" by auto
  with r have "rank f < rank (Some t)" unfolding ranked_def by blast
  moreover have "Some t \<in> ?U" using t by blast
  ultimately show False using top [of "Some t"] by linarith
qed

lemma tidy_progress:
  assumes start: "pend_contract lib pend" "fresh_program pend tk w" "program_start tk b w = Ret cfg"
    and lr: "live_ring lib pend" and run: "rsteps lib cfg ls cfg'" and tidy: "tidy {} b"
  shows "(\<exists>l cfg''. rstep lib cfg' l cfg'') \<or> fst cfg' = Halted"
proof -
  obtain c w' where c: "cfg' = (c, w')" by (cases cfg')
  from program_never_stuck [OF start(1) lr start(2,3) run] consider
    "(\<exists>l cfg''. rstep lib cfg' l cfg'') \<or> fst cfg' = Halted"
    | s stk h t kr where "c = Run s stk h (Co_join t kr)" "t \<notin> owned w'"
    | S where "gsteps (this_ctx w) [None \<mapsto> A_run b []] (seen ls) S" "deadlocked S" by (auto simp: c)
  then show ?thesis
  proof cases
    case 2
    with tidy_joins_own [OF start _ tidy] run show ?thesis unfolding c by blast
  next
    case 3
    with tidy_not_deadlocked tidy show ?thesis by blast
  qed
qed

subsection \<open>The number of steps\<close>

definition runs_on :: "'r uring_lib \<Rightarrow> 'v control \<times> ('r, 'v) rworld \<Rightarrow> 'v control \<times> ('r, 'v) rworld \<Rightarrow> bool" where
  "runs_on lib cfg cfg' \<longleftrightarrow> (\<exists>l. rstep lib cfg l cfg')"

lemma runs_on_rsteps: "(runs_on lib ^^ k) cfg cfg' \<Longrightarrow> \<exists>ls. rsteps lib cfg ls cfg'"
proof (induction k arbitrary: cfg')
  case 0
  then show ?case by (auto intro: rs_refl)
next
  case (Suc k)
  from Suc.prems obtain cfg1 where 1: "(runs_on lib ^^ k) cfg cfg1" "runs_on lib cfg1 cfg'"
    by (rule relpowp_Suc_E)
  from Suc.IH [OF 1(1)] 1(2) obtain ls l where "rsteps lib cfg ls cfg1" "rstep lib cfg1 l cfg'"
    unfolding runs_on_def by blast
  from rs_step [OF this] show ?case by blast
qed

lemma runs_on_bound:
  "(runs_on lib ^^ k) cfg cfg' \<Longrightarrow> pend_contract lib pend \<Longrightarrow> sim pend cfg S \<Longrightarrow> all_within n S \<Longrightarrow> k \<le> Suc n"
proof (induction k arbitrary: n cfg S)
  case (Suc k)
  from relpowp_Suc_D2 [OF Suc.prems(1)] obtain cfg1 l where
    s: "rstep lib cfg l cfg1" "(runs_on lib ^^ k) cfg1 cfg'" unfolding runs_on_def [of lib cfg] by blast
  from rstep_moves [OF s(1) Suc.prems(2,3)] consider
    S' where "gmoves (this_ctx (snd cfg)) S (seen l) S'" "sim pend cfg1 S'" | "fst cfg1 = Halted" by blast
  then show ?case
  proof cases
    case 1
    from gmoves_within [OF 1(1) Suc.prems(4)] obtain n' where "n' < n" "all_within n' S'" by blast
    with Suc.IH [OF s(2) Suc.prems(2) 1(2)] show ?thesis by fastforce
  next
    case 2
    then obtain w1 where "cfg1 = (Halted, w1)" by (cases cfg1) auto
    show ?thesis
    proof (cases k)
      case (Suc j)
      with s(2) obtain cfg2 where "runs_on lib cfg1 cfg2" by (blast dest: relpowp_Suc_D2)
      with \<open>cfg1 = (Halted, w1)\<close> show ?thesis by (simp add: runs_on_def)
    qed simp
  qed
qed simp

lemma bounded_all_within:
  assumes "ends_within n b"
  shows "all_within n [None \<mapsto> A_run b []]"
proof -
  have "within (n + sum_list []) (A_run b [])" using assms by (intro withinI) auto
  then show ?thesis unfolding all_within_def by (intro conjI exI [of _ "\<lambda>_. n"]) (auto split: if_splits)
qed

lemma bounded_start:
  assumes "pend_contract lib pend" and "fresh_program pend tk w" and "program_start tk b w = Ret cfg"
    and "ends_within n b" and "(runs_on lib ^^ k) cfg cfg'"
  shows "k \<le> Suc n"
  using runs_on_bound [OF assms(5,1)] program_start_sim [OF assms(2,3)] bounded_all_within [OF assms(4)] by blast

text \<open>Runs that can be continued while they are short are runs to an end.\<close>

lemma runs_to_end:
  assumes "\<And>k cfg'. (runs_on lib ^^ k) cfg cfg' \<Longrightarrow> k \<le> n \<and> (P cfg' \<or> (\<exists>cfg''. runs_on lib cfg' cfg''))"
  shows "\<exists>k cfg'. (runs_on lib ^^ k) cfg cfg' \<and> P cfg'"
proof (rule ccontr)
  assume no: "\<not> ?thesis"
  have "\<exists>cfg'. (runs_on lib ^^ k) cfg cfg'" for k
  proof (induction k)
    case (Suc k)
    then obtain cfg' where c: "(runs_on lib ^^ k) cfg cfg'" by blast
    with no assms obtain cfg'' where "runs_on lib cfg' cfg''" by blast
    with relpowp_Suc_I [OF c] show ?case by blast
  qed (auto intro: relpowp_0_I)
  then obtain cfg' where "(runs_on lib ^^ Suc n) cfg cfg'" by blast
  with assms show False by fastforce
qed

subsection \<open>Properties\<close>


lemma demo_tidy: "tidy {} demo_body"
  by (simp add: demo_body_def demo_wait_def leaf_def)



lemma demo_bounded: "ends_within 7 demo_body"
proof -
  have l: "ends_within (Suc (Suc 1)) leaf" unfolding leaf_def by (rule e_io) auto
  have "ends_within (Suc (Suc 1)) (demo_wait x)" for x
  proof (cases x)
    case (Inr t)
    have "ends_within 1 (result_body r)" for r using e_result [of 0 r] by simp
    with Inr show ?thesis by (auto simp: demo_wait_def intro!: e_join)
  qed (auto simp: demo_wait_def)
  from e_launch [where kl = demo_wait, OF l this] show ?thesis by (simp add: demo_body_def numeral_eq_Suc)
qed


end
