(* ===== verification/Block_Total.thy ===== *)
theory Block_Total
  imports Structured_Runs
begin

section \<open>\<open>block_run\<close> returns\<close>

text \<open>
  The steps of tidy and bounded programs, put together to the turns of the loop: the calls of
  handles return, each turn of the loop returns and takes from the bound, and so the loop
  comes to the finish mark.
\<close>

subsection \<open>Calls that return\<close>

text \<open>
  What is asked of the calls of handles: a call whose coroutines come to a point where it
  returns, whatever the answers they get, returns at such a point.
\<close>

inductive call_returns :: "'r uring_lib \<Rightarrow> 'v control \<times> ('r, 'v) rworld \<Rightarrow> bool" for lib where
  cr: "\<exists>l cfg. rstep lib (Run None stk h b, w) l cfg \<Longrightarrow>
     (\<And>l stk' h' b' w'. rstep lib (Run None stk h b, w) l (Run None stk' h' b', w') \<Longrightarrow>
        call_returns lib (Run None stk' h' b', w')) \<Longrightarrow>
     call_returns lib (Run None stk h b, w)"

definition executes ::
  "'r uring_lib \<Rightarrow> (coro \<Rightarrow> ('r, 'v) rworld \<Rightarrow> ('r, 'v) rworld outcome) \<Rightarrow> coro \<Rightarrow> 'v body \<Rightarrow> bool"
where
  "executes lib invoke root b \<longleftrightarrow>
     (\<forall>h w cfg. resumed root b h w = Some cfg \<longrightarrow> call_returns lib cfg \<longrightarrow>
        (\<exists>ls w'. invoke h w = Ret w' \<and> segment lib cfg ls w'))"

text \<open>A step does not depend on the completion that is to be marked as seen.\<close>

lemma rstep_run_target:
  assumes "rstep lib (Run s stk h b, w) l cfg"
  shows "(\<exists>stk' h' b' w1. cfg = (Run s stk' h' b', w1)) \<or> (\<exists>w1. cfg = (Idle, w1))"
  using assms by cases (auto simp: return_to_def split: list.splits)

lemma rstep_unseen:
  assumes "rstep lib (Run s stk h b, w) l cfg"
  shows "\<exists>cfg0. rstep lib (Run None stk h b, w) l cfg0 \<and> cfg = with_seen lib s cfg0"
  using assms
proof cases
  case (io_suspend a op aw w1 w2 k)
  then show ?thesis by (metis rstep.io_suspend with_seen_return_to)
next
  case (join_suspend t callee tk' w1 kr)
  then show ?thesis by (metis rstep.join_suspend with_seen_return_to)
next
  case (finish_alone r w1)
  then show ?thesis by (metis rstep.finish_alone with_seen_return_to)
qed (fastforce intro: rstep.intros)+

lemma call_returns_segment: "call_returns lib cfg \<Longrightarrow> \<exists>ls w'. segment lib cfg ls w'"
proof (induction rule: call_returns.induct)
  case (cr stk h b w)
  from cr(1) obtain l cfg where step: "rstep lib (Run None stk h b, w) l cfg" by blast
  from rstep_run_target [OF step] consider
    stk' h' b' w1 where "cfg = (Run None stk' h' b', w1)" | w1 where "cfg = (Idle, w1)" by blast
  then show ?case
  proof cases
    case 1
    with step have s: "rstep lib (Run None stk h b, w) l (Run None stk' h' b', w1)" by simp
    from cr.IH [OF s] obtain ls w' where "segment lib (Run None stk' h' b', w1) ls w'" by blast
    from seg_step [OF s this] show ?thesis by blast
  next
    case 2
    with step show ?thesis by (blast intro: seg_end)
  qed
qed

subsection \<open>Configurations of a run\<close>

definition never_stuck :: "'r uring_lib \<Rightarrow> 'v control \<times> ('r, 'v) rworld \<Rightarrow> bool" where
  "never_stuck lib cfg0 \<longleftrightarrow>
     (\<forall>ls cfg. rsteps lib cfg0 ls cfg \<longrightarrow> (\<exists>l cfg'. rstep lib cfg l cfg') \<or> fst cfg = Halted)"

text \<open>A configuration of a run, whose fibers have at most \<open>n\<close> steps left.\<close>

definition underway ::
  "'r uring_lib \<Rightarrow> ('r \<Rightarrow> udata multiset) \<Rightarrow> 'v control \<times> ('r, 'v) rworld \<Rightarrow> nat \<Rightarrow>
   'v control \<times> ('r, 'v) rworld \<Rightarrow> bool" where
  "underway lib pend cfg0 n cfg \<longleftrightarrow> (\<exists>ls S. rsteps lib cfg0 ls cfg \<and> sim pend cfg S \<and> all_within n S)"

lemma underway_step:
  assumes "underway lib pend cfg0 n cfg" and "pend_contract lib pend" and "rstep lib cfg l cfg'"
    and "fst cfg' \<noteq> Halted"
  shows "\<exists>n' < n. underway lib pend cfg0 n' cfg'"
proof -
  from assms(1) obtain ls S where r: "rsteps lib cfg0 ls cfg" and S: "sim pend cfg S" "all_within n S"
    unfolding underway_def by blast
  from rstep_moves [OF assms(3,2) S(1)] assms(4) obtain S' where
    S': "gmoves (this_ctx (snd cfg)) S (seen l) S'" "sim pend cfg' S'" by blast
  from gmoves_within [OF S'(1) S(2)] rs_step [OF r assms(3)] S'(2) show ?thesis
    unfolding underway_def by blast
qed

lemma underway_steps:
  "rsteps lib cfg ls cfg' \<Longrightarrow> underway lib pend cfg0 n cfg \<Longrightarrow> pend_contract lib pend \<Longrightarrow>
   fst cfg' \<noteq> Halted \<Longrightarrow> \<exists>n' \<le> n. underway lib pend cfg0 n' cfg'"
proof (induction rule: rsteps.induct)
  case (rs_step cfg ls cfg' l cfg'')
  have "fst cfg' \<noteq> Halted" using rs_step.hyps(2) by (cases cfg') auto
  with rs_step.IH rs_step.prems obtain n' where "n' \<le> n" "underway lib pend cfg0 n' cfg'" by blast
  with underway_step [OF this(2) rs_step.prems(2) rs_step.hyps(2) rs_step.prems(3)] show ?case
    by (meson le_trans less_imp_le)
qed auto

lemma underway_goes_on:
  assumes "underway lib pend cfg0 n cfg" and "never_stuck lib cfg0" and "fst cfg \<noteq> Halted"
  shows "\<exists>l cfg'. rstep lib cfg l cfg'"
  using assms unfolding underway_def never_stuck_def by blast

subsection \<open>Calls, turns and the loop\<close>

lemma call_ends:
  "underway lib pend cfg0 n (Run s stk h b, w) \<Longrightarrow> never_stuck lib cfg0 \<Longrightarrow> pend_contract lib pend \<Longrightarrow>
   call_returns lib (Run None stk h b, w)"
proof (induction n arbitrary: stk h b w rule: less_induct)
  case (less n)
  show ?case
  proof
    from underway_goes_on [OF less.prems(1,2)] obtain l cfg where
      "rstep lib (Run s stk h b, w) l cfg" by auto
    then show "\<exists>l cfg. rstep lib (Run None stk h b, w) l cfg" by (blast dest: rstep_unseen)
  next
    fix l stk' h' b' w'
    assume "rstep lib (Run None stk h b, w) l (Run None stk' h' b', w')"
    from rstep_seen [OF this, of s] have "rstep lib (Run s stk h b, w) l (Run s stk' h' b', w')" by simp
    from underway_step [OF less.prems(1,3) this] obtain n' where
      "n' < n" "underway lib pend cfg0 n' (Run s stk' h' b', w')" by auto
    with less.IH less.prems(2,3) show "call_returns lib (Run None stk' h' b', w')" by blast
  qed
qed

lemma idle_waits:
  assumes "rstep lib (Idle, w) l cfg" and "pend_contract lib pend" and "live_ring lib pend"
  shows "\<exists>q rg. wait_cqe lib c (ring w) = (0, Some q, rg)"
proof -
  from assms(1) obtain c' q rg where "wait_cqe lib c' (ring w) = (0, Some q, rg)" by cases auto
  from pend_wait [OF assms(2) this] have "pend (ring w) \<noteq> {#}" by auto
  with assms(3) show ?thesis unfolding live_ring_def by blast
qed

lemma turn_returns:
  assumes u: "underway lib pend cfg0 n (Idle, w)" and ns: "never_stuck lib cfg0"
    and p: "pend_contract lib pend" and lr: "live_ring lib pend" and ex: "executes lib invoke root b"
  shows "(\<exists>c' w'. loop_turn lib invoke c w = Ret (False, c', w') \<and> (\<exists>ls. rsteps lib cfg0 ls (Halted, w'))) \<or>
    (\<exists>c' w' n'. loop_turn lib invoke c w = Ret (True, c', w') \<and> n' < n \<and> underway lib pend cfg0 n' (Idle, w'))"
proof -
  from underway_goes_on [OF u ns] idle_waits [OF _ p lr, of w _ _ c] obtain q rg where
    wq: "wait_cqe lib c (ring w) = (0, Some q, rg)" by fastforce
  from u obtain ls S where r: "rsteps lib cfg0 ls (Idle, w)" and sim: "sim pend (Idle, w) S"
    unfolding underway_def by blast
  show ?thesis
  proof (cases "user_data q")
    case (Ud_cell a)
    with sim_loop_mark(3) [OF p sim wq] obtain d where d: "cells w a = Some d" by blast
    from sim obtain P where G: "good w [] S P" by (auto simp: sim_def)
    from cell_fiber [OF G d] obtain op k h where
      h: "io_handle d = Some h" "conts w h = Some (Cont_io a op k)" by blast
    let ?wi = "w\<lparr>ring := rg, cells := (cells w)(a \<mapsto> d\<lparr>io_result := res q\<rparr>)\<rparr>"
    let ?wr = "w\<lparr>ring := rg, cells := (cells w)(a := None), conts := (conts w)(h := None)\<rparr>"
    from underway_step [OF u p loop_cell [OF wq Ud_cell d h]] obtain n' where
      n': "n' < n" "underway lib pend cfg0 n' (Run (Some q) [] h (k (res q)), ?wr)" by auto
    from call_ends [OF n'(2) ns p] have "call_returns lib (Run None [] h (k (res q)), ?wr)" .
    moreover have "resumed root b h ?wi = Some (Run None [] h (k (res q)), ?wr)"
      using d h(2) by (simp add: resumed_def)
    ultimately obtain l' w'' where inv: "invoke h ?wi = Ret w''"
      and seg: "segment lib (Run None [] h (k (res q)), ?wr) l' w''"
      using ex unfolding executes_def by blast
    from underway_steps [OF segment_rsteps [OF segment_seen [OF seg refl]] n'(2) p] obtain n'' where
      "n'' \<le> n'" "underway lib pend cfg0 n'' (Idle, leave lib (Some q) w'')" by auto
    moreover have "loop_turn lib invoke c w = Ret (True, Some q, leave lib (Some q) w'')"
      using wq Ud_cell d h(1) inv
      by (simp add: loop_turn_def uring_resume_def call_cell_def leave_def)
    ultimately show ?thesis using n'(1) le_less_trans by blast
  next
    case Ud_completed
    with wq have "loop_turn lib invoke c w = Ret (False, Some q, w\<lparr>ring := cqe_seen lib q rg\<rparr>)"
      by (simp add: loop_turn_def uring_resume_def)
    with rs_step [OF r loop_done [OF wq Ud_completed]] show ?thesis by blast
  next
    case Ud_null
    with sim_loop_mark(1) [OF p sim wq] show ?thesis by simp
  qed
qed

lemma turns_return:
  "underway lib pend cfg0 n (Idle, w) \<Longrightarrow> never_stuck lib cfg0 \<Longrightarrow> pend_contract lib pend \<Longrightarrow>
   live_ring lib pend \<Longrightarrow> executes lib invoke root b \<Longrightarrow>
   \<exists>w'. run_turns (Suc n) lib invoke c w = Some (Ret w') \<and> (\<exists>ls. rsteps lib cfg0 ls (Halted, w'))"
proof (induction n arbitrary: c w rule: less_induct)
  case (less n)
  from turn_returns [OF less.prems, of c] consider
    c' w' ls where "loop_turn lib invoke c w = Ret (False, c', w')" "rsteps lib cfg0 ls (Halted, w')"
    | c' w' n' where "loop_turn lib invoke c w = Ret (True, c', w')" "n' < n"
        "underway lib pend cfg0 n' (Idle, w')" by blast
  then show ?case
  proof cases
    case 1
    then show ?thesis by auto
  next
    case 2
    from less.IH [OF 2(2,3) less.prems(2-), of c'] obtain w1 ls where
      1: "run_turns (Suc n') lib invoke c' w' = Some (Ret w1)" "rsteps lib cfg0 ls (Halted, w1)" by blast
    from run_turns_more [OF 1(1), of n] 2(2) have "run_turns n lib invoke c' w' = Some (Ret w1)"
      by simp
    with 1(2) 2(1) show ?thesis by auto
  qed
qed

subsection \<open>\<^verbatim>\<open>block_run\<close>\<close>

lemma block_turns_return:
  assumes p: "pend_contract lib pend" and lr: "live_ring lib pend" and fp: "fresh_program pend tk w"
    and ex: "executes lib invoke (the (t_handle tk)) b" and tidy: "tidy {} b" and n: "ends_within n b"
  shows "\<exists>w' cfg ls. block_run (Suc n) lib invoke tk w = Some (Ret w') \<and>
    program_start tk b w = Ret cfg \<and> rsteps lib cfg ls (Halted, w')"
proof -
  from fp obtain h fr where h: "t_handle tk = Some h" "frames w h = Some fr" "conts w = Map.empty"
    unfolding fresh_program_def by auto
  let ?w = "put_promise h fr (setup_promise (this_ctx w) False (promise fr)) w"
  let ?cfg = "(Run None [] h b, ?w)"
  note start = program_start_eq [OF h(1,2), of b]
  have ns: "never_stuck lib ?cfg"
    unfolding never_stuck_def using tidy_progress [OF p fp start lr _ tidy] by blast
  from program_start_sim [OF fp start] bounded_all_within [OF n] have u: "underway lib pend ?cfg n ?cfg"
    unfolding underway_def by (blast intro: rs_refl)
  from call_ends [OF this ns p] have "call_returns lib ?cfg" .
  moreover have "resumed h b h ?w = Some ?cfg" using h(3) by (simp add: resumed_def put_promise_def)
  ultimately obtain ls' w1 where inv: "invoke h ?w = Ret w1" and seg: "segment lib ?cfg ls' w1"
    using ex h(1) unfolding executes_def by fastforce
  from underway_steps [OF segment_rsteps [OF seg] u p] obtain n' where
    n': "n' \<le> n" "underway lib pend ?cfg n' (Idle, w1)" by auto
  from turns_return [OF n'(2) ns p lr ex, of None] obtain w' ls where
    t: "run_turns (Suc n') lib invoke None w1 = Some (Ret w')" "rsteps lib ?cfg ls (Halted, w')" by blast
  from run_turns_more [OF t(1), of "Suc n"] n'(1) have "run_turns (Suc n) lib invoke None w1 = Some (Ret w')"
    by simp
  with h(1,2) inv have "block_run (Suc n) lib invoke tk w = Some (Ret w')"
    by (simp add: block_run_def start_task_def task_setup_eq task_take_handle_def uring_run_def
        del: run_turns.simps)
  with start t(2) show ?thesis by blast
qed

lemma block_run_more:
  "block_run n lib invoke tk w = Some x \<Longrightarrow> n \<le> m \<Longrightarrow> block_run m lib invoke tk w = Some x"
  by (auto simp: block_run_def uring_run_def intro: run_turns_more split: outcome.splits)


text \<open>For an instance, calls that run the coroutines to any point where the call returns.\<close>

definition some_call ::
  "'r uring_lib \<Rightarrow> coro \<Rightarrow> 'v body \<Rightarrow> coro \<Rightarrow> ('r, 'v) rworld \<Rightarrow> ('r, 'v) rworld outcome" where
  "some_call lib root b h w =
     (case resumed root b h w of
        None \<Rightarrow> Fault Dangling
      | Some cfg \<Rightarrow> Ret (SOME w'. \<exists>ls. segment lib cfg ls w'))"

lemma some_call_executes: "executes lib (some_call lib root b) root b"
  unfolding executes_def some_call_def by (auto dest!: call_returns_segment intro: someI)


end
