(* ===== verification/Test_Programs.thy ===== *)
theory Test_Programs
  imports Block_Total Coro_Types
begin

section \<open>A program with a launched task\<close>

text \<open>
  \<^verbatim>\<open>test/zzz.cpp\<close>: the root launches a task that sleeps five seconds and awaits \<^verbatim>\<open>bar\<close>, reads a
  file, sleeps, and awaits the launched task. Logging and the lookup of an address before
  \<^verbatim>\<open>block_run\<close> (which does not compile against \<^verbatim>\<open>address::from\<close>) are left out.
\<close>

subsection \<open>The bodies\<close>

definition bar_body :: "val body" where
  "bar_body = Co_return (V_int 22)"

definition foo_body :: "val body" where
  "foo_body = Co_call bar_body (\<lambda>r. case r of Inl e \<Rightarrow> Co_throw e | Inr v \<Rightarrow> Co_return V_unit)"

text \<open>\<^verbatim>\<open>co_await kkp::delay(context.ring(), mills)\<close>; the timespec is in the awaiter, at \<open>ts_at\<close>.\<close>

definition await_delay :: "addr \<Rightarrow> int \<Rightarrow> (int \<Rightarrow> val body) \<Rightarrow> val body" where
  "await_delay ts_at mills k =
     (let ts = mills_timespec mills in
      Co_sync (Sc_put_timespec ts_at (tv_sec ts) (tv_nsec ts)) (\<lambda>_.
        Co_io (timeout_op ts_at 0 IORING_TIMEOUT_ETIME_SUCCESS) k))"

definition delayed_bar :: "addr \<Rightarrow> val body" where
  "delayed_bar ts_at = await_delay ts_at 5000 (\<lambda>_. Co_call bar_body result_body)"

definition end_file :: "fs_file \<Rightarrow> val body \<Rightarrow> val body" where
  "end_file f b = (case file_drop f of [] \<Rightarrow> b | fd # _ \<Rightarrow> Co_sync (Sc_close fd) (\<lambda>_. b))"

definition O_RDWR :: int where "O_RDWR = 2"

text \<open>
  \<open>at1\<close> and \<open>at2\<close> are the awaiters' timespecs, \<open>buf\<close> is the array. When the frame of
  \<^verbatim>\<open>file::of\<close> cannot be allocated, the exception destroys \<^verbatim>\<open>p\<close> while its coroutine waits: what
  that does is in \<open>Dropped_Task\<close>; here the task goes on.
\<close>

definition zzz_rest :: "addr \<Rightarrow> addr \<Rightarrow> coro \<Rightarrow> fs_file \<Rightarrow> val body" where
  "zzz_rest at2 buf t f =
     Co_io (file_read_all f buf 1024) (\<lambda>_.
       await_delay at2 500 (\<lambda>_. Co_join t (\<lambda>y.
         end_file f (case y of Inl e \<Rightarrow> Co_throw e | Inr _ \<Rightarrow> Co_return V_unit))))"

definition zzz_main :: "addr \<Rightarrow> addr \<Rightarrow> addr \<Rightarrow> val body" where
  "zzz_main at1 at2 buf =
     Co_launch (delayed_bar at1) (\<lambda>p. case p of
       Inl e \<Rightarrow> Co_throw e
     | Inr t \<Rightarrow> Co_call (file_of_body ''CMakeLists.txt'' O_RDWR) (\<lambda>x. case x of
         Inl e \<Rightarrow> Co_throw e
       | Inr v \<Rightarrow> (case v of V_file f \<Rightarrow> zzz_rest at2 buf t f | _ \<Rightarrow> Co_return V_unit)))"

subsection \<open>What they do\<close>

lemma await_delay_direct:
  "direct ctx (await_delay ts_at mills k) es r \<longleftrightarrow>
     (\<exists>c i es'. es = Sync (Sc_put_timespec ts_at (mills sdiv 1000) (mills smod 1000 * 1000000)) c #
        Io (Op_timeout ts_at 0 32) i # es' \<and> direct ctx (k i) es' r)"
  by (auto simp: await_delay_def Let_def direct_sync direct_io timeout_op_def
      IORING_TIMEOUT_ETIME_SUCCESS_def mills_timespec_def)

lemma delayed_bar_direct:
  "direct ctx (delayed_bar at1) es r \<longleftrightarrow>
     (\<exists>c i. es = [Sync (Sc_put_timespec at1 5 0) c, Io (Op_timeout at1 0 32) i]) \<and>
     (r = Inr (V_int 22) \<or> r = Inl Bad_alloc)"
  by (auto simp: delayed_bar_def await_delay_direct direct_call bar_body_def signed_divide_int_def
      signed_modulo_int_def)

lemma zzz_tidy: "tidy {} (zzz_main at1 at2 buf)"
  by (auto simp: zzz_main_def zzz_rest_def delayed_bar_def await_delay_def Let_def bar_body_def file_of_body_def end_file_def
      split: sum.splits val.splits list.splits)

lemma ends_result [intro]: "0 < n \<Longrightarrow> ends_within n (result_body r)"
  using e_result [of "n - 1" r] by simp

lemma e_await_delay:
  "(\<And>i. ends_within n (k i)) \<Longrightarrow> ends_within (n + 3) (await_delay at2 mills k)"
  unfolding await_delay_def Let_def by (simp add: numeral_3_eq_3) (intro e_sync e_io)

lemma delayed_bar_bounded: "ends_within 6 (delayed_bar at1)"
proof -
  have "ends_within (Suc (1 + 1)) (Co_call bar_body result_body)"
    by (rule e_call) (auto simp: bar_body_def)
  from e_await_delay [OF this] show ?thesis by (simp add: delayed_bar_def)
qed

lemma end_file_bounded: "0 < n \<Longrightarrow> ends_within n b \<Longrightarrow> ends_within (Suc n) b \<Longrightarrow> ends_within (Suc n) (end_file f b)"
  by (auto simp: end_file_def split: list.splits intro: e_sync)

lemma file_of_bounded: "ends_within 3 (file_of_body path flag)"
  unfolding file_of_body_def by (simp add: numeral_3_eq_3) (intro e_context e_sync, auto)

lemma zzz_rest_bounded: "ends_within 9 (zzz_rest at2 buf t f)"
proof -
  have 1: "ends_within (Suc (Suc 2)) (Co_join t (\<lambda>y. end_file f
      (case y of Inl e \<Rightarrow> Co_throw e | Inr (v :: val) \<Rightarrow> Co_return V_unit)))"
    using end_file_bounded [of 1] by (intro e_join) (auto simp: numeral_2_eq_2 split: sum.splits)
  have "ends_within (Suc (Suc 7)) (zzz_rest at2 buf t f)"
    unfolding zzz_rest_def using e_await_delay [OF 1] by (intro e_io) simp
  then show ?thesis by simp
qed

lemma zzz_bounded: "ends_within 20 (zzz_main at1 at2 buf)"
proof -
  let ?k = "\<lambda>t x. case x of Inl e \<Rightarrow> Co_throw e
    | Inr v \<Rightarrow> (case v of V_file f \<Rightarrow> zzz_rest at2 buf t f | _ \<Rightarrow> Co_return V_unit)"
  have "ends_within 9 (?k t x)" for t x
    by (auto split: sum.splits val.splits intro: zzz_rest_bounded)
  from e_call [OF file_of_bounded, of 9, OF this] have
    "ends_within 13 (Co_call (file_of_body ''CMakeLists.txt'' O_RDWR) (?k t))" for t by simp
  then have "ends_within 13 (case p of Inl e \<Rightarrow> Co_throw e
      | Inr t \<Rightarrow> Co_call (file_of_body ''CMakeLists.txt'' O_RDWR) (?k t))" for p
    by (auto split: sum.splits)
  from e_launch [OF delayed_bar_bounded this] show ?thesis by (simp add: zzz_main_def)
qed

text \<open>What the root does when it is run with blocking calls.\<close>

definition zzz_closes :: "int \<Rightarrow> val event list \<Rightarrow> bool" where
  "zzz_closes fd es \<longleftrightarrow> (if fd = 0 then es = [] else \<exists>d. es = [Sync (Sc_close fd) d])"

definition zzz_events :: "addr \<Rightarrow> addr \<Rightarrow> addr \<Rightarrow> coro \<Rightarrow> exn + val \<Rightarrow> val event list \<Rightarrow> bool" where
  "zzz_events at1 at2 buf t y es \<longleftrightarrow>
     (\<exists>fd i c j cl. zzz_closes fd cl \<and>
        es = [Launch t (delayed_bar at1), Sync (Sc_open ''CMakeLists.txt'' O_RDWR) fd,
          Io (file_read_all (file_new fd) buf 1024) i, Sync (Sc_put_timespec at2 0 500000000) c,
          Io (Op_timeout at2 0 32) j, Join t y] @ cl)"

lemma end_file_direct:
  "direct ctx (end_file (file_new fd) b) es r \<longleftrightarrow>
     (\<exists>cl es'. zzz_closes fd cl \<and> es = cl @ es' \<and> direct ctx b es' r)"
  by (auto simp: end_file_def file_drop_def file_new_def direct_sync zzz_closes_def)

lemma zzz_rest_direct:
  assumes "direct ctx (zzz_rest at2 buf t (file_new fd)) es r"
  shows "\<exists>i c j y cl. zzz_closes fd cl \<and> r = map_sum id (\<lambda>_. V_unit) y \<and>
    es = [Io (file_read_all (file_new fd) buf 1024) i, Sync (Sc_put_timespec at2 0 500000000) c,
      Io (Op_timeout at2 0 32) j, Join t y] @ cl"
proof -
  from assms obtain i c j y es' where
    es: "es = [Io (file_read_all (file_new fd) buf 1024) i, Sync (Sc_put_timespec at2 0 500000000) c,
      Io (Op_timeout at2 0 32) j, Join t y] @ es'"
    "direct ctx (end_file (file_new fd) (case y of Inl e \<Rightarrow> Co_throw e | Inr _ \<Rightarrow> Co_return V_unit)) es' r"
    by (auto simp: zzz_rest_def direct_io await_delay_direct direct_join signed_divide_int_def
        signed_modulo_int_def)
  moreover from es(2) have "zzz_closes fd es'" "r = map_sum id (\<lambda>_. V_unit) y"
    by (cases y; auto simp: end_file_direct)+
  ultimately show ?thesis by blast
qed

lemma zzz_direct:
  assumes "direct ctx (zzz_main at1 at2 buf) es r"
  shows "r = Inl Bad_alloc \<or> (\<exists>t y. zzz_events at1 at2 buf t y es \<and> r = map_sum id (\<lambda>_. V_unit) y)"
proof -
  from assms consider "r = Inl Bad_alloc"
    | t fd es' where "es = Launch t (delayed_bar at1) # Sync (Sc_open ''CMakeLists.txt'' O_RDWR) fd # es'"
        "direct ctx (zzz_rest at2 buf t (file_new fd)) es' r"
    by (fastforce simp: zzz_main_def direct_launch direct_call file_of_body_def direct_sync)
  then show ?thesis
  proof cases
    case 2
    from zzz_rest_direct [OF 2(2)] 2(1) show ?thesis by (fastforce simp: zzz_events_def)
  qed simp
qed

subsection \<open>The server never stops\<close>

lemma tidy_flow_body:
  assumes "\<And>p. case f p of Act_call b k \<Rightarrow> tidy {} b | Act_launch b k \<Rightarrow> tidy {} b | _ \<Rightarrow> True"
  shows "tidy T (flow_body f p)"
proof (coinduction arbitrary: T p)
  case tidy
  from assms [of p] show ?case
    by (cases "f p") (auto simp: flow_body_simps)
qed

lemma tls_tidy [simp]:
  "tidy T (tls_send x buf len flag wb)" "tidy T (tls_recv x buf len flag rb)" "tidy T (tls_handshake x ty hb)"
  unfolding tls_send_def tls_recv_def tls_handshake_def
  by (rule tidy_flow_body; rename_tac p; case_tac p; simp add: Let_def)+

lemma handler_tidy [simp]: "tidy T (zz P s)"
  unfolding zz_def by (rule tidy_flow_body; rename_tac p; case_tac p; simp split: list.split sum.split)

lemma server_tidy: "tidy T (server_main P)"
  unfolding server_main_def
  by (rule tidy_flow_body; rename_tac p; case_tac p; simp add: server_open_body_def split: list.split sum.split)

text \<open>All coroutines of the library, and of the test programs, keep the discipline.\<close>

lemma coroutine_tidy: "coroutine b ty X \<Longrightarrow> tidy {} b"
proof (induction rule: coroutine.induct)
  case (co_client P ep)
  have "tidy {} (flow_body (client_act P peer) C_open)" for peer
    by (rule tidy_flow_body; rename_tac p; case_tac p;
      simp add: socket_open_peer_body_def split: list.split sum.split)
  then show ?case by (auto simp: client_main_def split: sum.split)
qed (auto simp: socket_open_body_def socket_open_peer_body_def server_open_body_def file_of_body_def
    delay_ts_body_def delay_mills_body_def Let_def server_tidy)

text \<open>
  So the server is never stuck, however many connections it has accepted and whatever its
  handlers wait for, and it leaves the loop only when its root has ended.
\<close>

lemma server_goes_on:
  assumes start: "pend_contract lib pend" "fresh_program pend tk w" "program_start tk (server_main P) w = Ret cfg"
    and "live_ring lib pend" and run: "rsteps lib cfg ls cfg'"
  shows "(\<exists>l cfg''. rstep lib cfg' l cfg'') \<or> (\<exists>r. Event None (Done r) \<in> set ls)"
proof -
  obtain c w' where c: "cfg' = (c, w')" by (cases cfg')
  from tidy_progress [OF start assms(4) run server_tidy] show ?thesis
  proof
    assume "fst cfg' = Halted"
    with run c have "rsteps lib cfg ls (Halted, w')" by simp
    from program_runs_direct [OF start this] obtain es r where "trace None ls = es @ [Done r]" by blast
    then have "Done r \<in> set (trace None ls)" by simp
    then show ?thesis by auto
  qed blast
qed

subsection \<open>Properties\<close>

text \<open>\<open>p\<close> is 22: what a run that has left the loop has done.\<close>

definition zzz_done :: "addr \<Rightarrow> addr \<Rightarrow> addr \<Rightarrow> val label list \<Rightarrow> bool" where
  "zzz_done at1 at2 buf ls \<longleftrightarrow>
     trace None ls \<noteq> [] \<and> last (trace None ls) = Done (Inl Bad_alloc) \<or>
     (\<exists>t es. trace None ls = es @ [Done (Inr V_unit)] \<and> zzz_events at1 at2 buf t (Inr (V_int 22)) es \<and>
        Event (Some t) (Done (Inr (V_int 22))) \<in> set ls)"

lemma zzz_halted:
  assumes start: "pend_contract lib pend" "fresh_program pend tk w" "program_start tk (zzz_main at1 at2 buf) w = Ret cfg"
    and run: "rsteps lib cfg ls (Halted, w')"
  shows "zzz_done at1 at2 buf ls"
proof -
  from program_runs_direct [OF start run] obtain es r where
    es: "trace None ls = es @ [Done r]" "direct (this_ctx w) (zzz_main at1 at2 buf) es r" by blast
  from zzz_direct [OF es(2)] show ?thesis
  proof (elim disjE exE conjE)
    fix t y assume y: "zzz_events at1 at2 buf t y es" "r = map_sum id (\<lambda>_. V_unit) y"
    from y(1) have "Join t y \<in> set (trace None ls)" "Launch t (delayed_bar at1) \<in> set (trace None ls)"
      unfolding es(1) by (auto simp: zzz_events_def)
    then have e: "Event None (Join t y) \<in> set ls" "fiber_body (zzz_main at1 at2 buf) ls (Some t) (delayed_bar at1)"
      by (auto simp: fiber_body_def)
    from program_sim [OF start run] obtain S where "fibers_ok (this_ctx w) (zzz_main at1 at2 buf) ls S" by blast
    from fibers_okD(4) [OF this e(1)] have d: "Event (Some t) (Done y) \<in> set ls" .
    from program_fibers [OF start run e(2) d] have "y = Inr (V_int 22) \<or> y = Inl Bad_alloc"
      by (auto simp: delayed_bar_direct)
    with y es(1) d show ?thesis unfolding zzz_done_def by auto
  qed (simp add: es(1) zzz_done_def)
qed

text \<open>\<^verbatim>\<open>block_run\<close> of it returns within 21 turns of the loop.\<close>

lemma zzz_block_run:
  assumes "pend_contract lib pend" and "live_ring lib pend" and "fresh_program pend tk w"
    and "executes lib invoke (the (t_handle tk)) (zzz_main at1 at2 buf)"
  shows "\<exists>w' cfg ls. block_run 21 lib invoke tk w = Some (Ret w') \<and>
    program_start tk (zzz_main at1 at2 buf) w = Ret cfg \<and> rsteps lib cfg ls (Halted, w') \<and>
    zzz_done at1 at2 buf ls"
proof -
  from block_turns_return [OF assms zzz_tidy zzz_bounded] obtain w' cfg ls where
    b: "block_run 21 lib invoke tk w = Some (Ret w')" and
    r: "program_start tk (zzz_main at1 at2 buf) w = Ret cfg" "rsteps lib cfg ls (Halted, w')" by auto
  from zzz_halted [OF assms(1,3) r] b r show ?thesis by blast
qed


text \<open>On a ring that completes its entries one after the other, a run to the end exists.\<close>

definition zzz_world :: "(udata list, val) rworld" where
  "zzz_world = \<lparr>ring = [], cells = Map.empty, frames = [3 \<mapsto> \<lparr>promise = new_promise, at_end = False\<rparr>],
     this_ctx = 7, conts = Map.empty, fib = (\<lambda>x. None), owned = {}\<rparr>"

lemma zzz_fresh: "fresh_program mset \<lparr>t_handle = Some 3\<rparr> zzz_world"
  by (auto simp: fresh_program_def zzz_world_def new_promise_def)


end
